(* ===== verification/Prelude.thy ===== *)
theory Prelude
  imports Main "HOL-Library.Word"
begin

text \<open>
  Shared foundations of the development: machine integers, the result type of code that can
  return an error code or run into undefined behaviour, byte-order conversions, and the generic
  lemmas on lists and words that the component theories use.

  The C++ code returns \<open>int\<close> codes for protocol errors and indexes raw arrays without checks.
  Both are values here: \<open>Fail c\<close> is a non-zero return code \<open>c\<close>, and \<open>Undef u\<close> is an
  execution the language gives no meaning to, with the kind \<open>u\<close> of the violation. A model
  function never silently continues past an out-of-range access.
\<close>

unbundle bit_operations_syntax

type_synonym byte = "8 word"
type_synonym u16 = "16 word"
type_synonym u32 = "32 word"
type_synonym u64 = "64 word"

section \<open>Outcomes\<close>

datatype ub =
    BufferOverrun      \<comment> \<open>index past the end of a packet buffer's array\<close>
  | StorageOverflow    \<comment> \<open>index past the end of a \<open>char[MAXDNAME]\<close>\<close>
  | StorageUnderflow   \<comment> \<open>\<open>storage[-1]\<close>\<close>
  | NullDeref          \<comment> \<open>access through a null or too short record array\<close>
  | UnionMismatch      \<comment> \<open>reading a union member that was not the last one written\<close>
  | DataOverrun        \<comment> \<open>index past the end of the shared rule bytes\<close>
  | UseAfterFree       \<comment> \<open>access to a node that has been deleted\<close>
  | EmptyErase         \<comment> \<open>erasing the first element of an empty vector\<close>
  | InvalidBool        \<comment> \<open>reading a \<open>bool\<close> whose byte is neither 0 nor 1\<close>
  | NoReturn           \<comment> \<open>a loop that never ends\<close>

datatype 'a outcome = Ret 'a | Fail nat | Undef ub

primrec obind :: "'a outcome \<Rightarrow> ('a \<Rightarrow> 'b outcome) \<Rightarrow> 'b outcome" where
  "obind (Ret a) f = f a"
| "obind (Fail c) f = Fail c"
| "obind (Undef u) f = Undef u"

text \<open>Execution has a defined meaning: it returns a value or an error code.\<close>

primrec defined :: "'a outcome \<Rightarrow> bool" where
  "defined (Ret a) = True"
| "defined (Fail c) = True"
| "defined (Undef u) = False"

named_theorems outcome_simps \<open>rewriting of outcomes\<close>
named_theorems byte_simps \<open>splitting words into bytes and joining them again\<close>

lemma obind_cong [fundef_cong]:
  assumes "m = m'" and "\<And>a. m' = Ret a \<Longrightarrow> f a = f' a"
  shows "obind m f = obind m' f'"
  using assms by (cases m') auto

lemma obind_Ret_iff [outcome_simps]:
  "obind m f = Ret b \<longleftrightarrow> (\<exists>a. m = Ret a \<and> f a = Ret b)"
  by (cases m) auto

lemma obind_Undef_iff [outcome_simps]:
  "obind m f = Undef u \<longleftrightarrow> m = Undef u \<or> (\<exists>a. m = Ret a \<and> f a = Undef u)"
  by (cases m) auto

lemma obind_Fail_iff [outcome_simps]:
  "obind m f = Fail c \<longleftrightarrow> m = Fail c \<or> (\<exists>a. m = Ret a \<and> f a = Fail c)"
  by (cases m) auto

lemma obind_assoc: "obind (obind m f) g = obind m (\<lambda>a. obind (f a) g)"
  by (cases m) auto

lemma obind_split:
  "P (obind m f) \<longleftrightarrow>
     (\<forall>a. m = Ret a \<longrightarrow> P (f a)) \<and> (\<forall>c. m = Fail c \<longrightarrow> P (Fail c)) \<and>
     (\<forall>u. m = Undef u \<longrightarrow> P (Undef u))"
  by (cases m) auto

lemma defined_obind:
  "defined (obind m f) \<longleftrightarrow> defined m \<and> (\<forall>a. m = Ret a \<longrightarrow> defined (f a))"
  by (cases m) auto

lemma defined_not_Undef: "defined m \<longleftrightarrow> (\<forall>u. m \<noteq> Undef u)"
  by (cases m) auto

section \<open>Lists\<close>

lemma take_append_iff:
  "take (length xs + length ys) z = xs @ ys \<longleftrightarrow>
     take (length xs) z = xs \<and> take (length ys) (drop (length xs) z) = ys"
proof
  assume h: "take (length xs + length ys) z = xs @ ys"
  then have "length (take (length xs + length ys) z) = length xs + length ys" by simp
  then have "length (take (length xs) z) = length xs" by simp
  with h show "take (length xs) z = xs \<and> take (length ys) (drop (length xs) z) = ys"
    by (simp add: take_add)
qed (simp add: take_add)

text \<open>The index of the first element with a property: a loop that returns a pointer into a list.\<close>

fun find_index :: "('a \<Rightarrow> bool) \<Rightarrow> 'a list \<Rightarrow> nat option" where
  "find_index P [] = None"
| "find_index P (x # xs) = (if P x then Some 0 else map_option Suc (find_index P xs))"

lemma find_index_None [simp]: "find_index P xs = None \<longleftrightarrow> (\<forall>x \<in> set xs. \<not> P x)"
  by (induction xs) auto

lemma find_index_Some:
  "find_index P xs = Some i \<Longrightarrow> i < length xs \<and> P (xs ! i) \<and> (\<forall>j < i. \<not> P (xs ! j))"
proof (induction xs arbitrary: i)
  case (Cons x xs)
  show ?case
  proof (cases "P x")
    case False
    with Cons.prems obtain j where "find_index P xs = Some j" "i = Suc j" by auto
    with Cons.IH [of j] False show ?thesis by (auto simp: less_Suc_eq_0_disj)
  qed (use Cons.prems in auto)
qed simp

section \<open>Bytes of machine words\<close>

text \<open>Big-endian joins, as \<open>READ_U16\<close> and \<open>READ_U32\<close> shift and or the bytes together.\<close>

definition be16 :: "byte \<Rightarrow> byte \<Rightarrow> u16" where
  "be16 a b = push_bit 8 (ucast a) OR ucast b"

definition be32 :: "byte \<Rightarrow> byte \<Rightarrow> byte \<Rightarrow> byte \<Rightarrow> u32" where
  "be32 a b c d =
     push_bit 24 (ucast a) OR push_bit 16 (ucast b) OR push_bit 8 (ucast c) OR ucast d"

text \<open>Big-endian splits, most significant byte first.\<close>

definition bytes16 :: "u16 \<Rightarrow> byte list" where
  "bytes16 w = [ucast (drop_bit 8 w), ucast (w AND 0xff)]"

definition bytes32 :: "u32 \<Rightarrow> byte list" where
  "bytes32 w =
     [ucast (drop_bit 24 w), ucast (drop_bit 16 w AND 0xff),
      ucast (drop_bit 8 w AND 0xff), ucast (w AND 0xff)]"

text \<open>Little-endian join: how an x86 host reads a \<open>uint32_t\<close> from four bytes of memory.\<close>

definition le32 :: "byte \<Rightarrow> byte \<Rightarrow> byte \<Rightarrow> byte \<Rightarrow> u32" where
  "le32 a b c d = be32 d c b a"

lemma length_bytes16 [simp]: "length (bytes16 w) = 2"
  by (simp add: bytes16_def)

lemma length_bytes32 [simp]: "length (bytes32 w) = 4"
  by (simp add: bytes32_def)

lemma low_byte_mask: "(0xff :: 'a::len word) = mask 8"
  by (simp add: mask_eq_exp_minus_1)

lemma bit_byte_ge [simp]: "bit (a :: byte) (8 + n) = False" "bit (a :: byte) (16 + n) = False"
  "bit (a :: byte) (24 + n) = False"
  by (auto dest: bit_imp_le_length)

lemma be16_bytes [byte_simps]: "be16 (ucast (drop_bit 8 w)) (ucast (w AND 0xff)) = w"
  unfolding low_byte_mask
  by (rule bit_word_eqI) (auto simp: be16_def bit_simps)

lemma be32_bytes [byte_simps]:
  "be32 (ucast (drop_bit 24 w)) (ucast (drop_bit 16 w AND 0xff))
     (ucast (drop_bit 8 w AND 0xff)) (ucast (w AND 0xff)) = w"
proof (rule bit_word_eqI)
  fix n
  assume n: "n < LENGTH(32)"
  consider "n < 8" | "8 \<le> n" "n < 16" | "16 \<le> n" "n < 24" | "24 \<le> n" by linarith
  then show "bit (be32 (ucast (drop_bit 24 w)) (ucast (drop_bit 16 w AND 0xff))
      (ucast (drop_bit 8 w AND 0xff)) (ucast (w AND 0xff))) n = bit w n"
    using n unfolding low_byte_mask
    by cases (simp_all add: be32_def bit_simps less_diff_conv2)
qed

lemma bytes16_be16 [byte_simps]: "bytes16 (be16 a b) = [a, b]"
  unfolding low_byte_mask bytes16_def
  by (auto simp: be16_def bit_simps intro!: bit_word_eqI)

lemma bytes32_be32 [byte_simps]: "bytes32 (be32 a b c d) = [a, b, c, d]"
  unfolding low_byte_mask bytes32_def
  by (auto simp: be32_def bit_simps intro!: bit_word_eqI)

lemma be32_inject:
  "be32 a b c d = be32 a' b' c' d' \<longleftrightarrow> a = a' \<and> b = b' \<and> c = c' \<and> d = d'"
proof
  assume "be32 a b c d = be32 a' b' c' d'"
  then have "bytes32 (be32 a b c d) = bytes32 (be32 a' b' c' d')" by (rule arg_cong)
  then show "a = a' \<and> b = b' \<and> c = c' \<and> d = d'" by (simp only: bytes32_be32) simp
qed simp

lemma byte_eq_iff:
  "(a :: byte) = b \<longleftrightarrow> (bit a 0 = bit b 0 \<and> bit a 1 = bit b 1 \<and> bit a 2 = bit b 2 \<and> bit a 3 = bit b 3 \<and>
     bit a 4 = bit b 4 \<and> bit a 5 = bit b 5 \<and> bit a 6 = bit b 6 \<and> bit a 7 = bit b 7)"
  (is "_ \<longleftrightarrow> ?bits")
proof
  assume bits: ?bits
  show "a = b"
  proof (rule bit_word_eqI)
    fix n
    assume "n < LENGTH(8)"
    then have "n = 0 \<or> n = 1 \<or> n = 2 \<or> n = 3 \<or> n = 4 \<or> n = 5 \<or> n = 6 \<or> n = 7" by auto
    with bits show "bit a n = bit b n" by metis
  qed
qed simp

section \<open>Simulation of sequences of commands\<close>

text \<open>
  A component takes commands in a state and gives a result; its specification does the same on an
  abstract state, for the commands that are allowed there. If each command simulates, so does every
  sequence of them, with the same results.
\<close>

fun run_steps :: "('c \<Rightarrow> 's \<Rightarrow> ('b \<times> 's) outcome) \<Rightarrow> 'c list \<Rightarrow> 's \<Rightarrow> ('b list \<times> 's) outcome" where
  "run_steps step [] s = Ret ([], s)"
| "run_steps step (c # cs) s =
     obind (step c s) (\<lambda>(b, s). obind (run_steps step cs s) (\<lambda>(bs, s). Ret (b # bs, s)))"

fun run_spec :: "('c \<Rightarrow> 'a \<Rightarrow> 'b \<times> 'a) \<Rightarrow> 'c list \<Rightarrow> 'a \<Rightarrow> 'b list \<times> 'a" where
  "run_spec spec [] a = ([], a)"
| "run_spec spec (c # cs) a =
     (let (b, a) = spec c a; (bs, a) = run_spec spec cs a in (b # bs, a))"

fun all_allowed :: "('c \<Rightarrow> 'a \<Rightarrow> bool) \<Rightarrow> ('c \<Rightarrow> 'a \<Rightarrow> 'b \<times> 'a) \<Rightarrow> 'c list \<Rightarrow> 'a \<Rightarrow> bool" where
  "all_allowed ok spec [] a \<longleftrightarrow> True"
| "all_allowed ok spec (c # cs) a \<longleftrightarrow> ok c a \<and> all_allowed ok spec cs (snd (spec c a))"

locale simulation =
  fixes step :: "'c \<Rightarrow> 's \<Rightarrow> ('b \<times> 's) outcome"
    and spec :: "'c \<Rightarrow> 'a \<Rightarrow> 'b \<times> 'a"
    and rep :: "'s \<Rightarrow> 'a \<Rightarrow> bool"
    and ok :: "'c \<Rightarrow> 'a \<Rightarrow> bool"
  assumes step_spec: "rep s a \<Longrightarrow> ok c a \<Longrightarrow>
      \<exists>s'. step c s = Ret (fst (spec c a), s') \<and> rep s' (snd (spec c a))"
begin

lemma run_simulates:
  "rep s a \<Longrightarrow> all_allowed ok spec cs a \<Longrightarrow>
     \<exists>s'. run_steps step cs s = Ret (fst (run_spec spec cs a), s') \<and> rep s' (snd (run_spec spec cs a))"
proof (induction cs arbitrary: s a)
  case Nil
  then show ?case by simp
next
  case (Cons c cs)
  from Cons.prems step_spec [of s a c] obtain s' where
    "step c s = Ret (fst (spec c a), s')" "rep s' (snd (spec c a))" by auto
  with Cons.IH [of s' "snd (spec c a)"] Cons.prems show ?case
    by (auto simp: case_prod_unfold Let_def)
qed

end

section \<open>Transition systems\<close>

text \<open>
  What a component relies on when it runs for ever: every step keeps an invariant, so every state that steps reach has it.
\<close>

locale invariant_of =
  fixes step :: "'s \<Rightarrow> 's \<Rightarrow> bool" and inv :: "'s \<Rightarrow> bool"
  assumes preserved: "step s t \<Longrightarrow> inv s \<Longrightarrow> inv t"
begin

lemma reached: "step\<^sup>*\<^sup>* s t \<Longrightarrow> inv s \<Longrightarrow> inv t"
  by (induction rule: rtranclp_induct) (auto intro: preserved)

end

end
