(* ===== verification/Net_Common.thy ===== *)
theory Net_Common
  imports Prelude
begin

text \<open>
  \<^verbatim>\<open>include/net/netcommon.h\<close> and \<^verbatim>\<open>include/dns/dnscommon.hpp\<close>: the return codes, the packet
  buffers and the macros that read and write them, the Ethernet and IP address unions.

  A buffer is the C++ struct \<open>PacketBuffer<N>\<close>: the array is a list of \<open>N\<close> bytes, and \<open>pos\<close>,
  \<open>size\<close>, \<open>udp\<close> are \<open>size_t\<close> values. They stay far below \<open>2^64\<close>, so they are natural numbers.
  The reading macros check \<open>pos + n > size\<close> and return \<open>E_FORMERR\<close>; the array accesses behind
  them are unchecked, so an index at or past \<open>N\<close> is \<open>Undef BufferOverrun\<close>.
\<close>

section \<open>Constants\<close>

abbreviation (input) MAXDNAME :: nat where "MAXDNAME \<equiv> 1025"
abbreviation (input) MAX_PACKET_SZ :: nat where "MAX_PACKET_SZ \<equiv> 2267"
abbreviation (input) PACKET_SZ_MAX :: nat where "PACKET_SZ_MAX \<equiv> 65535"

abbreviation (input) E_NOERROR :: nat where "E_NOERROR \<equiv> 0"
abbreviation (input) E_FORMERR :: nat where "E_FORMERR \<equiv> 1"
abbreviation (input) E_SERVFAIL :: nat where "E_SERVFAIL \<equiv> 2"
abbreviation (input) E_NOTIMP :: nat where "E_NOTIMP \<equiv> 4"
abbreviation (input) E_REFUSED :: nat where "E_REFUSED \<equiv> 5"

abbreviation (input) QT_A :: u16 where "QT_A \<equiv> 1"
abbreviation (input) QT_NS :: u16 where "QT_NS \<equiv> 2"
abbreviation (input) QT_CNAME :: u16 where "QT_CNAME \<equiv> 5"
abbreviation (input) QT_MX :: u16 where "QT_MX \<equiv> 15"
abbreviation (input) QT_AAAA :: u16 where "QT_AAAA \<equiv> 28"
abbreviation (input) QT_OPT :: u16 where "QT_OPT \<equiv> 41"
abbreviation (input) QTC_IN :: u16 where "QTC_IN \<equiv> 1"

datatype PacketType = IncomingRequest | IncomingResponse | OutgoingRequest | OutgoingResponse

section \<open>Packet buffers\<close>

record PacketBuffer =
  bb_buf :: "byte list"
  bb_pos :: nat
  bb_size :: nat
  bb_udp :: nat

definition PEEK_BYTE :: "PacketBuffer \<Rightarrow> nat \<Rightarrow> byte outcome" where
  "PEEK_BYTE bb i =
     (if bb_pos bb + i < length (bb_buf bb) then Ret (bb_buf bb ! (bb_pos bb + i))
      else Undef BufferOverrun)"

definition READ_BYTE :: "PacketBuffer \<Rightarrow> (byte \<times> PacketBuffer) outcome" where
  "READ_BYTE bb =
     obind (PEEK_BYTE bb 0) (\<lambda>b. Ret (b, bb\<lparr>bb_pos := bb_pos bb + 1\<rparr>))"

definition READ_U16 :: "PacketBuffer \<Rightarrow> (u16 \<times> PacketBuffer) outcome" where
  "READ_U16 bb =
     obind (PEEK_BYTE bb 0) (\<lambda>a.
     obind (PEEK_BYTE bb 1) (\<lambda>b.
     Ret (be16 a b, bb\<lparr>bb_pos := bb_pos bb + 2\<rparr>)))"

definition READ_U32 :: "PacketBuffer \<Rightarrow> (u32 \<times> PacketBuffer) outcome" where
  "READ_U32 bb =
     obind (PEEK_BYTE bb 0) (\<lambda>a.
     obind (PEEK_BYTE bb 1) (\<lambda>b.
     obind (PEEK_BYTE bb 2) (\<lambda>c.
     obind (PEEK_BYTE bb 3) (\<lambda>d.
     Ret (be32 a b c d, bb\<lparr>bb_pos := bb_pos bb + 4\<rparr>)))))"

definition VALIDATE :: "PacketBuffer \<Rightarrow> nat \<Rightarrow> unit outcome" where
  "VALIDATE bb n = (if bb_pos bb + n > bb_size bb then Fail E_FORMERR else Ret ())"

definition VREAD_U8 :: "PacketBuffer \<Rightarrow> (byte \<times> PacketBuffer) outcome" where
  "VREAD_U8 bb = obind (VALIDATE bb 1) (\<lambda>_. READ_BYTE bb)"

definition VREAD_U16 :: "PacketBuffer \<Rightarrow> (u16 \<times> PacketBuffer) outcome" where
  "VREAD_U16 bb = obind (VALIDATE bb 2) (\<lambda>_. READ_U16 bb)"

text \<open>\<open>VREAD_U32\<close> validates two bytes, as the macro does, and then reads four.\<close>

definition VREAD_U32 :: "PacketBuffer \<Rightarrow> (u32 \<times> PacketBuffer) outcome" where
  "VREAD_U32 bb = obind (VALIDATE bb 2) (\<lambda>_. READ_U32 bb)"

definition PACKET_SZ_VALID :: "PacketBuffer \<Rightarrow> nat \<Rightarrow> bool" where
  "PACKET_SZ_VALID bb n \<longleftrightarrow> bb_pos bb + n \<le> bb_size bb"

text \<open>The writing macros have no check at all.\<close>

definition WRITE_BYTE :: "PacketBuffer \<Rightarrow> byte \<Rightarrow> PacketBuffer outcome" where
  "WRITE_BYTE bb b =
     (if bb_pos bb < length (bb_buf bb)
      then Ret (bb\<lparr>bb_buf := (bb_buf bb)[bb_pos bb := b], bb_pos := bb_pos bb + 1\<rparr>)
      else Undef BufferOverrun)"

fun write_bytes :: "PacketBuffer \<Rightarrow> byte list \<Rightarrow> PacketBuffer outcome" where
  "write_bytes bb [] = Ret bb"
| "write_bytes bb (b # bs) = obind (WRITE_BYTE bb b) (\<lambda>bb'. write_bytes bb' bs)"

definition WRITE_U16 :: "PacketBuffer \<Rightarrow> u16 \<Rightarrow> PacketBuffer outcome" where
  "WRITE_U16 bb w = write_bytes bb (bytes16 w)"

definition WRITE_U32 :: "PacketBuffer \<Rightarrow> u32 \<Rightarrow> PacketBuffer outcome" where
  "WRITE_U32 bb w = write_bytes bb (bytes32 w)"

section \<open>Addresses\<close>

text \<open>
  \<open>union IpAddress\<close> is sixteen bytes of memory (\<open>Ipv6v\<close>); the other members are views of it.
  The host is little-endian (x86, x64): \<open>Ipv4\<close> is the first four bytes, least significant first.
\<close>

type_synonym EthAddress = "byte list"
type_synonym IpAddress = "byte list"

definition eth_ok :: "EthAddress \<Rightarrow> bool" where
  "eth_ok e \<longleftrightarrow> length e = 6"

definition ip_ok :: "IpAddress \<Rightarrow> bool" where
  "ip_ok a \<longleftrightarrow> length a = 16"

definition ip_word :: "IpAddress \<Rightarrow> nat \<Rightarrow> u32" where
  "ip_word a i = le32 (a ! (4 * i)) (a ! (4 * i + 1)) (a ! (4 * i + 2)) (a ! (4 * i + 3))"

abbreviation (input) Ipv4 :: "IpAddress \<Rightarrow> u32" where
  "Ipv4 a \<equiv> ip_word a 0"

text \<open>Storing through the \<open>uint32_t\<close> views.\<close>

definition set_ip_word :: "IpAddress \<Rightarrow> nat \<Rightarrow> u32 \<Rightarrow> IpAddress" where
  "set_ip_word a i w = take (4 * i) a @ rev (bytes32 w) @ drop (4 * i + 4) a"

text \<open>\<open>ntohl\<close> on a little-endian host reverses the bytes.\<close>

definition ntohl :: "u32 \<Rightarrow> u32" where
  "ntohl w = (case bytes32 w of [a, b, c, d] \<Rightarrow> be32 d c b a)"

section \<open>Well-formed buffers and what is ahead in them\<close>

definition bb_wf :: "PacketBuffer \<Rightarrow> bool" where
  "bb_wf bb \<longleftrightarrow> bb_size bb \<le> length (bb_buf bb)"

text \<open>The unread part of the packet starts with the bytes \<open>bs\<close>.\<close>

definition ahead :: "PacketBuffer \<Rightarrow> byte list \<Rightarrow> bool" where
  "ahead bb bs \<longleftrightarrow> bb_wf bb \<and> bb_pos bb + length bs \<le> bb_size bb \<and>
     take (length bs) (drop (bb_pos bb) (bb_buf bb)) = bs"

abbreviation adv :: "PacketBuffer \<Rightarrow> nat \<Rightarrow> PacketBuffer" where
  "adv bb n \<equiv> bb\<lparr>bb_pos := bb_pos bb + n\<rparr>"

text \<open>A buffer being written: \<open>xs\<close> so far, \<open>k\<close> zero bytes left.\<close>

definition wbuf :: "byte list \<Rightarrow> nat \<Rightarrow> PacketBuffer" where
  "wbuf xs k = \<lparr>bb_buf = xs @ replicate k 0, bb_pos = length xs, bb_size = 0, bb_udp = 0\<rparr>"

named_theorems vread_simps \<open>reading from a buffer whose next bytes are known\<close>
named_theorems wbuf_simps \<open>writing to a zeroed buffer\<close>

subsection \<open>Reading\<close>

lemma ahead_Nil [simp]: "ahead bb [] \<longleftrightarrow> bb_wf bb \<and> bb_pos bb \<le> bb_size bb"
  by (auto simp: ahead_def)

lemma bb_wf_pos [simp]: "bb_wf (bb\<lparr>bb_pos := p\<rparr>) = bb_wf bb"
  by (simp add: bb_wf_def)

lemma ahead_append:
  "ahead bb (xs @ ys) \<longleftrightarrow> ahead bb xs \<and> ahead (adv bb (length xs)) ys"
  using take_append_iff [of xs ys "drop (bb_pos bb) (bb_buf bb)"]
  by (auto simp: ahead_def add.commute add.left_commute)

lemma ahead_nth:
  assumes "ahead bb bs" and "i < length bs"
  shows "bb_pos bb + i < length (bb_buf bb)" and "bb_buf bb ! (bb_pos bb + i) = bs ! i"
proof -
  from assms show len: "bb_pos bb + i < length (bb_buf bb)"
    by (auto simp: ahead_def bb_wf_def)
  from assms have "take (length bs) (drop (bb_pos bb) (bb_buf bb)) ! i = bs ! i"
    by (simp add: ahead_def)
  with assms len show "bb_buf bb ! (bb_pos bb + i) = bs ! i" by simp
qed

lemma PEEK_BYTE_ahead:
  "ahead bb bs \<Longrightarrow> i < length bs \<Longrightarrow> PEEK_BYTE bb i = Ret (bs ! i)"
  using ahead_nth by (auto simp: PEEK_BYTE_def)

lemma VALIDATE_ahead: "ahead bb bs \<Longrightarrow> n \<le> length bs \<Longrightarrow> VALIDATE bb n = Ret ()"
  by (auto simp: VALIDATE_def ahead_def)

lemma VREAD_U8_ahead [vread_simps]:
  "ahead bb (b # bs) \<Longrightarrow> VREAD_U8 bb = Ret (b, adv bb 1)"
  by (auto simp: VREAD_U8_def READ_BYTE_def VALIDATE_ahead PEEK_BYTE_ahead)

lemma VREAD_U16_ahead [vread_simps]:
  "ahead bb (bytes16 w @ bs) \<Longrightarrow> VREAD_U16 bb = Ret (w, adv bb 2)"
  by (auto simp: VREAD_U16_def READ_U16_def VALIDATE_ahead PEEK_BYTE_ahead)
    (simp add: bytes16_def byte_simps)

lemma VREAD_U32_ahead [vread_simps]:
  "ahead bb (bytes32 w @ bs) \<Longrightarrow> VREAD_U32 bb = Ret (w, adv bb 4)"
  by (auto simp: VREAD_U32_def READ_U32_def VALIDATE_ahead PEEK_BYTE_ahead)
    (simp add: bytes32_def byte_simps)

lemma ahead_step [vread_simps]:
  "ahead bb (b # bs) \<Longrightarrow> ahead (adv bb 1) bs"
  "ahead bb (bytes16 w @ bs) \<Longrightarrow> ahead (adv bb 2) bs"
  "ahead bb (bytes32 v @ bs) \<Longrightarrow> ahead (adv bb 4) bs"
  using ahead_append [of bb "[b]" bs] by (simp_all add: ahead_append)

subsection \<open>What a successful read has checked\<close>

lemma VREAD_U8_Ret:
  assumes "VREAD_U8 bb = Ret (b, bb')"
  shows "bb_pos bb < bb_size bb" and "bb' = adv bb 1"
    and "bb_pos bb < length (bb_buf bb)" and "b = bb_buf bb ! bb_pos bb"
  using assms
  by (auto simp: VREAD_U8_def READ_BYTE_def PEEK_BYTE_def VALIDATE_def split: if_splits)

lemma VREAD_U16_Ret:
  assumes "VREAD_U16 bb = Ret (w, bb')"
  shows "bb_pos bb + 2 \<le> bb_size bb" and "bb' = adv bb 2"
  using assms
  by (auto simp: VREAD_U16_def READ_U16_def PEEK_BYTE_def VALIDATE_def split: if_splits)

lemma VREAD_U32_Ret:
  assumes "VREAD_U32 bb = Ret (w, bb')"
  shows "bb_pos bb + 2 \<le> bb_size bb" and "bb' = adv bb 4"
  using assms
  by (auto simp: VREAD_U32_def READ_U32_def PEEK_BYTE_def VALIDATE_def split: if_splits)

lemma VREAD_U8_RetD:
  "VREAD_U8 bb = Ret (b, bb') \<Longrightarrow>
     bb_pos bb < bb_size bb \<and> bb' = adv bb 1 \<and> b = bb_buf bb ! bb_pos bb"
  using VREAD_U8_Ret by blast

lemma VREAD_U16_RetD:
  "VREAD_U16 bb = Ret (w, bb') \<Longrightarrow> bb_pos bb + 2 \<le> bb_size bb \<and> bb' = adv bb 2"
  using VREAD_U16_Ret by blast

lemma VREAD_U32_RetD:
  "VREAD_U32 bb = Ret (v, bb') \<Longrightarrow> bb_pos bb + 2 \<le> bb_size bb \<and> bb' = adv bb 4"
  using VREAD_U32_Ret by blast

lemma VREAD_defined:
  assumes "bb_wf bb"
  shows "VREAD_U8 bb \<noteq> Undef u" and "VREAD_U16 bb \<noteq> Undef u"
  using assms
  by (auto simp: VREAD_U8_def VREAD_U16_def READ_BYTE_def READ_U16_def PEEK_BYTE_def VALIDATE_def
      bb_wf_def)

text \<open>\<open>VREAD_U32\<close> leaves the array only when fewer than two bytes are free behind the packet.\<close>

lemma VREAD_U32_Undef:
  "VREAD_U32 bb = Undef u \<Longrightarrow> u = BufferOverrun \<and> length (bb_buf bb) < bb_size bb + 2"
  by (auto simp: VREAD_U32_def READ_U32_def PEEK_BYTE_def VALIDATE_def split: if_splits)

subsection \<open>Writing\<close>

lemma WRITE_BYTE_wbuf [wbuf_simps]:
  "WRITE_BYTE (wbuf xs (Suc k)) b = Ret (wbuf (xs @ [b]) k)"
  by (simp add: WRITE_BYTE_def wbuf_def list_update_append)

lemma write_bytes_wbuf [wbuf_simps]:
  "length bs \<le> k \<Longrightarrow> write_bytes (wbuf xs k) bs = Ret (wbuf (xs @ bs) (k - length bs))"
proof (induction bs arbitrary: xs k)
  case Nil
  then show ?case by simp
next
  case (Cons b bs)
  then obtain k' where "k = Suc k'" by (cases k) auto
  with Cons show ?case by (simp add: WRITE_BYTE_wbuf)
qed

lemma WRITE_U16_wbuf [wbuf_simps]:
  "2 \<le> k \<Longrightarrow> WRITE_U16 (wbuf xs k) w = Ret (wbuf (xs @ bytes16 w) (k - 2))"
  by (simp add: WRITE_U16_def write_bytes_wbuf)

lemma WRITE_U32_wbuf [wbuf_simps]:
  "4 \<le> k \<Longrightarrow> WRITE_U32 (wbuf xs k) w = Ret (wbuf (xs @ bytes32 w) (k - 4))"
  by (simp add: WRITE_U32_def write_bytes_wbuf)

subsection \<open>Address words\<close>

lemma ntohl_be32 [byte_simps]: "ntohl (be32 a b c d) = be32 d c b a"
  by (simp add: ntohl_def bytes32_be32)

lemma ip_word_inject:
  assumes "ip_ok a" and "ip_ok b"
  shows "(\<forall>i<4. ip_word a i = ip_word b i) \<longleftrightarrow> a = b"
proof
  assume eq: "\<forall>i<4. ip_word a i = ip_word b i"
  show "a = b"
  proof (rule nth_equalityI)
    show "length a = length b" using assms by (simp add: ip_ok_def)
    fix i assume "i < length a"
    with assms have i: "i < 16" by (simp add: ip_ok_def)
    then have "i div 4 < 4" by simp
    with eq have "ip_word a (i div 4) = ip_word b (i div 4)" by blast
    then have eqs: "a ! (4 * (i div 4)) = b ! (4 * (i div 4))"
      "a ! (4 * (i div 4) + 1) = b ! (4 * (i div 4) + 1)"
      "a ! (4 * (i div 4) + 2) = b ! (4 * (i div 4) + 2)"
      "a ! (4 * (i div 4) + 3) = b ! (4 * (i div 4) + 3)"
      by (simp_all only: ip_word_def le32_def be32_inject)
    have "i = 4 * (i div 4) \<or> i = 4 * (i div 4) + 1 \<or> i = 4 * (i div 4) + 2 \<or> i = 4 * (i div 4) + 3"
      by presburger
    with eqs show "a ! i = b ! i" by metis
  qed
qed auto

end
