(* ===== verification/Codec.thy ===== *)
theory Codec
  imports Net_Common
begin

text \<open>
  The contract between the packet buffer and the objects of the DNS message (\<open>DnsObject\<close> in
  \<^verbatim>\<open>include/dns/dnscommon.hpp\<close>): every object reads itself from a buffer and writes itself to one.
  \<open>wire_reader\<close> says what a reader may do with the buffer; \<open>wire_codec\<close> adds the byte string an
  object stands for, and that writing and reading agree on it. The loops over record arrays
  (\<open>_READ_RECORD\<close> and \<open>WRITE_RECORD\<close> in \<^verbatim>\<open>src/dns/dnspacket.cpp\<close>) are defined here, and their
  correctness is proved once, for any object that keeps the contract.
\<close>

section \<open>Loops over record arrays\<close>

text \<open>The loop of \<open>_READ_RECORD\<close>: \<open>n\<close> objects one after the other, stopping at the first error.\<close>

fun read_records ::
  "(PacketBuffer \<Rightarrow> ('a \<times> PacketBuffer) outcome) \<Rightarrow> nat \<Rightarrow> PacketBuffer \<Rightarrow>
     ('a list \<times> PacketBuffer) outcome" where
  "read_records rd 0 bb = Ret ([], bb)"
| "read_records rd (Suc n) bb =
     obind (rd bb) (\<lambda>(x, bb).
     obind (read_records rd n bb) (\<lambda>(xs, bb). Ret (x # xs, bb)))"

text \<open>The loop of \<open>WRITE_RECORD\<close>: the first \<open>n\<close> elements of the array.\<close>

fun write_records ::
  "('a \<Rightarrow> PacketBuffer \<Rightarrow> PacketBuffer outcome) \<Rightarrow> nat \<Rightarrow> 'a list \<Rightarrow> PacketBuffer \<Rightarrow>
     PacketBuffer outcome" where
  "write_records wr 0 xs bb = Ret bb"
| "write_records wr (Suc n) [] bb = Undef NullDeref"
| "write_records wr (Suc n) (x # xs) bb = obind (wr x bb) (\<lambda>bb. write_records wr n xs bb)"

section \<open>Readers\<close>

text \<open>
  A reader moves only the read position. Its only possible undefined behaviour is in the name storage,
  where overflowing it takes a packet of more than 205 bytes, or behind the array, which takes a packet
  that leaves fewer than two bytes of it free: \<open>VREAD_U32\<close> checks two bytes and reads four.
\<close>

definition reader_ub :: "ub \<Rightarrow> PacketBuffer \<Rightarrow> bool" where
  "reader_ub u bb \<longleftrightarrow> u = StorageUnderflow \<or> (u = StorageOverflow \<and> 205 < bb_size bb) \<or>
     (u = BufferOverrun \<and> length (bb_buf bb) < bb_size bb + 2)"

lemma reader_ub_pos [simp]: "reader_ub u (bb\<lparr>bb_pos := p\<rparr>) = reader_ub u bb"
  by (simp add: reader_ub_def)

locale wire_reader =
  fixes rd :: "PacketBuffer \<Rightarrow> ('a \<times> PacketBuffer) outcome"
  assumes rd_frame: "bb_wf bb \<Longrightarrow> rd bb = Ret (x, bb') \<Longrightarrow> \<exists>p. bb' = bb\<lparr>bb_pos := p\<rparr>"
    and rd_safe: "bb_wf bb \<Longrightarrow> rd bb = Undef u \<Longrightarrow> reader_ub u bb"
begin

lemma records_frame:
  "bb_wf bb \<Longrightarrow> read_records rd n bb = Ret (xs, bb') \<Longrightarrow>
     (\<exists>p. bb' = bb\<lparr>bb_pos := p\<rparr>) \<and> length xs = n"
proof (induction n arbitrary: bb xs)
  case 0
  then show ?case by (auto intro!: exI [of _ "bb_pos bb"])
next
  case (Suc n)
  from Suc.prems obtain x bb1 ys where x: "rd bb = Ret (x, bb1)" and xs: "xs = x # ys"
    and ys: "read_records rd n bb1 = Ret (ys, bb')"
    by (auto simp: outcome_simps)
  from rd_frame [OF Suc.prems(1) x] obtain p where "bb1 = bb\<lparr>bb_pos := p\<rparr>" by auto
  with Suc.IH [OF _ ys] Suc.prems(1) xs show ?case by auto
qed

lemma records_safe:
  "bb_wf bb \<Longrightarrow> read_records rd n bb = Undef u \<Longrightarrow> reader_ub u bb"
proof (induction n arbitrary: bb)
  case 0
  then show ?case by simp
next
  case (Suc n)
  then consider "rd bb = Undef u"
    | x bb1 where "rd bb = Ret (x, bb1)" "read_records rd n bb1 = Undef u"
    by (auto simp: outcome_simps)
  then show ?case
  proof cases
    case 1
    with Suc.prems show ?thesis by (blast intro: rd_safe)
  next
    case 2
    from rd_frame [OF Suc.prems(1) 2(1)] obtain p where "bb1 = bb\<lparr>bb_pos := p\<rparr>" by auto
    with Suc.IH [OF _ 2(2)] Suc.prems(1) show ?thesis by simp
  qed
qed

end

text \<open>Readers compose: the sequence of two readers is a reader, and so on for each construct.\<close>

named_theorems reader_intros \<open>the constructs that readers are built from\<close>

lemma reader_return [reader_intros]: "wire_reader (\<lambda>bb. Ret (x, bb))"
proof
  show "\<exists>p. bb' = bb\<lparr>bb_pos := p\<rparr>" if "Ret (x, bb) = Ret (y, bb')" for bb bb' y
    using that by (intro exI [of _ "bb_pos bb"]) simp
qed simp

lemma reader_fail [reader_intros]: "wire_reader (\<lambda>bb. Fail c)"
  by unfold_locales auto

lemma reader_if [reader_intros]:
  "wire_reader r \<Longrightarrow> wire_reader s \<Longrightarrow> wire_reader (\<lambda>bb. if b then r bb else s bb)"
  by (cases b) auto

lemma reader_bind [reader_intros]:
  assumes "wire_reader r" and "\<And>x. wire_reader (s x)"
  shows "wire_reader (\<lambda>bb. obind (r bb) (\<lambda>(x, bb). s x bb))"
proof
  note r = wire_reader.rd_frame [OF assms(1)] wire_reader.rd_safe [OF assms(1)]
  note s = wire_reader.rd_frame [OF assms(2)] wire_reader.rd_safe [OF assms(2)]
  fix bb :: PacketBuffer
  assume wf: "bb_wf bb"
  show "\<exists>p. bb' = bb\<lparr>bb_pos := p\<rparr>" if "obind (r bb) (\<lambda>(x, bb). s x bb) = Ret (y, bb')" for y bb'
  proof -
    from that obtain x bb1 where x: "r bb = Ret (x, bb1)" and y: "s x bb1 = Ret (y, bb')"
      by (auto simp: outcome_simps)
    from r(1) [OF wf x] obtain p where "bb1 = bb\<lparr>bb_pos := p\<rparr>" by auto
    with s(1) [OF _ y] wf show ?thesis by auto
  qed
  show "reader_ub u bb" if u: "obind (r bb) (\<lambda>(x, bb). s x bb) = Undef u" for u
  proof (cases "r bb")
    case (Ret a)
    then obtain x bb1 where x: "r bb = Ret (x, bb1)" by (cases a) auto
    with r(1) [OF wf] obtain p where "bb1 = bb\<lparr>bb_pos := p\<rparr>" by auto
    with s(2) [of bb1 x u] u x wf show ?thesis by simp
  qed (use u r(2) [OF wf] in auto)
qed

lemma reader_pos:
  assumes "\<And>n. wire_reader (r n)"
  shows "wire_reader (\<lambda>bb. r (bb_pos bb) bb)"
  using assms by (auto simp: wire_reader_def)

lemma VREAD_readers [reader_intros]:
  "wire_reader VREAD_U8" "wire_reader VREAD_U16" "wire_reader VREAD_U32"
proof -
  have u32: "VREAD_U32 bb = Undef u \<Longrightarrow> reader_ub u bb" for bb u
    using VREAD_U32_Undef by (auto simp: reader_ub_def)
  show "wire_reader VREAD_U8" "wire_reader VREAD_U16" "wire_reader VREAD_U32"
    by (unfold_locales; auto simp: VREAD_defined dest: u32 VREAD_U8_Ret(2) VREAD_U16_Ret(2) VREAD_U32_Ret(2))+
qed

lemma records_reader [reader_intros]: "wire_reader r \<Longrightarrow> wire_reader (read_records r n)"
  by unfold_locales (auto dest: wire_reader.records_frame wire_reader.records_safe)

section \<open>Readers of a given byte string\<close>

text \<open>Where \<open>bs\<close> lies ahead, \<open>r\<close> consumes exactly \<open>bs\<close> and returns a value with \<open>P\<close>.\<close>

definition reads ::
  "(PacketBuffer \<Rightarrow> ('a \<times> PacketBuffer) outcome) \<Rightarrow> byte list \<Rightarrow> ('a \<Rightarrow> bool) \<Rightarrow> bool" where
  "reads r bs P \<longleftrightarrow> (\<forall>bb rest. ahead bb (bs @ rest) \<longrightarrow>
     (\<exists>x. r bb = Ret (x, adv bb (length bs)) \<and> P x))"

lemma reads_return: "P x \<Longrightarrow> reads (\<lambda>bb. Ret (x, bb)) [] P"
  by (simp add: reads_def)

lemma reads_bind:
  assumes r: "reads r bs P" and s: "\<And>x. P x \<Longrightarrow> reads (s x) cs Q"
  shows "reads (\<lambda>bb. obind (r bb) (\<lambda>(x, bb). s x bb)) (bs @ cs) Q"
  unfolding reads_def
proof (intro allI impI)
  fix bb rest
  assume "ahead bb ((bs @ cs) @ rest)"
  then have 1: "ahead bb (bs @ cs @ rest)" and 2: "ahead (adv bb (length bs)) (cs @ rest)"
    by (simp_all add: ahead_append)
  from r 1 obtain x where x: "r bb = Ret (x, adv bb (length bs))" "P x"
    by (auto simp: reads_def)
  from s [OF x(2)] 2 x(1)
  show "\<exists>y. obind (r bb) (\<lambda>(x, bb). s x bb) = Ret (y, adv bb (length (bs @ cs))) \<and> Q y"
    by (fastforce simp: reads_def add.assoc)
qed

section \<open>Codecs\<close>

text \<open>
  \<open>bytes x\<close> is the wire form of a well-formed object, and \<open>core x\<close> is what of it travels on the wire
  (the offset a name was read from does not).
\<close>

locale wire_codec = wire_reader rd
  for rd :: "PacketBuffer \<Rightarrow> ('a \<times> PacketBuffer) outcome" +
  fixes wr :: "'a \<Rightarrow> PacketBuffer \<Rightarrow> PacketBuffer outcome"
    and bytes :: "'a \<Rightarrow> byte list"
    and core :: "'a \<Rightarrow> 'a"
    and ok :: "'a \<Rightarrow> bool"
  assumes wr_wbuf: "ok x \<Longrightarrow> length (bytes x) < k \<Longrightarrow>
      wr x (wbuf xs k) = Ret (wbuf (xs @ bytes x) (k - length (bytes x)))"
    and rd_ahead: "ok x \<Longrightarrow> ahead bb (bytes x @ rest) \<Longrightarrow>
      \<exists>y. rd bb = Ret (y, adv bb (length (bytes x))) \<and> core y = core x"
begin

lemma records_wbuf:
  "list_all ok xs \<Longrightarrow> length (concat (map bytes xs)) < k \<Longrightarrow>
     write_records wr (length xs) xs (wbuf ys k) =
       Ret (wbuf (ys @ concat (map bytes xs)) (k - length (concat (map bytes xs))))"
proof (induction xs arbitrary: ys k)
  case Nil
  then show ?case by simp
next
  case (Cons x xs)
  then have "wr x (wbuf ys k) = Ret (wbuf (ys @ bytes x) (k - length (bytes x)))"
    by (intro wr_wbuf) auto
  with Cons.IH [of "k - length (bytes x)" "ys @ bytes x"] Cons.prems show ?case by simp
qed

lemma records_ahead:
  "list_all ok xs \<Longrightarrow> ahead bb (concat (map bytes xs) @ rest) \<Longrightarrow>
     \<exists>ys. read_records rd (length xs) bb = Ret (ys, adv bb (length (concat (map bytes xs)))) \<and>
       map core ys = map core xs"
proof (induction xs arbitrary: bb)
  case Nil
  then show ?case by simp
next
  case (Cons x xs)
  from Cons.prems rd_ahead [of x bb "concat (map bytes xs) @ rest"]
  obtain y where y: "rd bb = Ret (y, adv bb (length (bytes x)))" "core y = core x" by auto
  from Cons.prems have "ahead (adv bb (length (bytes x))) (concat (map bytes xs) @ rest)"
    using ahead_append [of bb "bytes x"] by simp
  from Cons.IH [OF _ this] Cons.prems obtain ys where
    "read_records rd (length xs) (adv bb (length (bytes x))) =
       Ret (ys, adv bb (length (bytes x) + length (concat (map bytes xs))))"
    "map core ys = map core xs"
    by (auto simp: add.assoc)
  with y show ?case by (simp add: add.assoc)
qed

lemma reads_records:
  "list_all ok xs \<Longrightarrow> n = length xs \<Longrightarrow>
     reads (read_records rd n) (concat (map bytes xs)) (\<lambda>ys. map core ys = map core xs)"
  using records_ahead by (auto simp: reads_def)

end

end
