(* ===== verification/Dns_Header.thy ===== *)
theory Dns_Header
  imports Codec
begin

text \<open>
  \<^verbatim>\<open>include/dns/dnsheader.hpp\<close> and \<^verbatim>\<open>src/dns/dnsheader.cpp\<close>: the twelve byte DNS header, its flag
  accessors, and \<open>Read\<close>, \<open>Validate\<close>, \<open>Write\<close>. The two flag bytes are \<open>char\<close> in the code; every
  accessor masks the promoted value, so an 8-bit word gives the same results whatever the
  signedness of \<open>char\<close>.
\<close>

record DnsHeader =
  ID :: u16
  hb3 :: byte
  hb4 :: byte
  QuestionCount :: u16
  AnswerCount :: u16
  AuthorityCount :: u16
  AdditionalCount :: u16

section \<open>Flag accessors\<close>

definition GetQueryResponse :: "DnsHeader \<Rightarrow> bool" where
  "GetQueryResponse h \<longleftrightarrow> hb3 h AND 0x80 \<noteq> 0"

definition GetOpCode :: "DnsHeader \<Rightarrow> byte" where
  "GetOpCode h = drop_bit 4 (hb3 h) AND 0x7"

definition GetAuthoritativeAnswer :: "DnsHeader \<Rightarrow> bool" where
  "GetAuthoritativeAnswer h \<longleftrightarrow> hb3 h AND 0x4 \<noteq> 0"

definition GetTruncatedMessage :: "DnsHeader \<Rightarrow> bool" where
  "GetTruncatedMessage h \<longleftrightarrow> hb3 h AND 0x2 \<noteq> 0"

definition GetRecursionDesired :: "DnsHeader \<Rightarrow> bool" where
  "GetRecursionDesired h \<longleftrightarrow> hb3 h AND 0x1 \<noteq> 0"

definition GetRecursionAvailable :: "DnsHeader \<Rightarrow> bool" where
  "GetRecursionAvailable h \<longleftrightarrow> hb4 h AND 0x80 \<noteq> 0"

definition GetAuthenticData :: "DnsHeader \<Rightarrow> bool" where
  "GetAuthenticData h \<longleftrightarrow> hb4 h AND 0x20 \<noteq> 0"

definition GetCheckingDisabled :: "DnsHeader \<Rightarrow> bool" where
  "GetCheckingDisabled h \<longleftrightarrow> hb4 h AND 0x10 \<noteq> 0"

definition GetResponseCode :: "DnsHeader \<Rightarrow> byte" where
  "GetResponseCode h = hb4 h AND 0xf"

definition SetQueryResponse :: "bool \<Rightarrow> DnsHeader \<Rightarrow> DnsHeader" where
  "SetQueryResponse v h = h\<lparr>hb3 := hb3 h OR push_bit 7 (of_bool v)\<rparr>"

definition SetOpCode :: "byte \<Rightarrow> DnsHeader \<Rightarrow> DnsHeader" where
  "SetOpCode v h = h\<lparr>hb3 := hb3 h OR push_bit 3 (v AND 0xf)\<rparr>"

definition SetAuthoritativeAnswer :: "bool \<Rightarrow> DnsHeader \<Rightarrow> DnsHeader" where
  "SetAuthoritativeAnswer v h = h\<lparr>hb3 := hb3 h OR push_bit 2 (of_bool v)\<rparr>"

definition SetTruncatedMessage :: "bool \<Rightarrow> DnsHeader \<Rightarrow> DnsHeader" where
  "SetTruncatedMessage v h = h\<lparr>hb3 := hb3 h OR push_bit 1 (of_bool v)\<rparr>"

definition SetRecursionDesired :: "bool \<Rightarrow> DnsHeader \<Rightarrow> DnsHeader" where
  "SetRecursionDesired v h = h\<lparr>hb3 := hb3 h OR of_bool v\<rparr>"

definition SetRecursionAvailable :: "bool \<Rightarrow> DnsHeader \<Rightarrow> DnsHeader" where
  "SetRecursionAvailable v h = h\<lparr>hb4 := hb4 h OR push_bit 7 (of_bool v)\<rparr>"

definition SetAuthenticData :: "bool \<Rightarrow> DnsHeader \<Rightarrow> DnsHeader" where
  "SetAuthenticData v h = h\<lparr>hb4 := hb4 h OR push_bit 5 (of_bool v)\<rparr>"

definition SetCheckingDisabled :: "bool \<Rightarrow> DnsHeader \<Rightarrow> DnsHeader" where
  "SetCheckingDisabled v h = h\<lparr>hb4 := hb4 h OR push_bit 6 (of_bool v)\<rparr>"

definition SetResponseCode :: "byte \<Rightarrow> DnsHeader \<Rightarrow> DnsHeader" where
  "SetResponseCode v h = h\<lparr>hb4 := hb4 h OR (v AND 0xf)\<rparr>"

section \<open>Read, Validate, Write\<close>

abbreviation (input) HEADER_SIZE :: nat where "HEADER_SIZE \<equiv> 12"

definition DnsHeader_Read :: "PacketBuffer \<Rightarrow> (DnsHeader \<times> PacketBuffer) outcome" where
  "DnsHeader_Read bb =
     (if \<not> PACKET_SZ_VALID bb HEADER_SIZE then Fail E_FORMERR
      else
        obind (VREAD_U16 bb) (\<lambda>(i, bb).
        obind (VREAD_U8 bb) (\<lambda>(b3, bb).
        obind (VREAD_U8 bb) (\<lambda>(b4, bb).
        obind (VREAD_U16 bb) (\<lambda>(qd, bb).
        obind (VREAD_U16 bb) (\<lambda>(an, bb).
        obind (VREAD_U16 bb) (\<lambda>(ns, bb).
        obind (VREAD_U16 bb) (\<lambda>(ar, bb).
        Ret (\<lparr>ID = i, hb3 = b3, hb4 = b4, QuestionCount = qd, AnswerCount = an,
              AuthorityCount = ns, AdditionalCount = ar\<rparr>, bb)))))))))"

definition DnsHeader_Validate :: "PacketType \<Rightarrow> DnsHeader \<Rightarrow> nat" where
  "DnsHeader_Validate pt h =
     (if pt = IncomingRequest \<and> GetQueryResponse h then E_FORMERR
      else if pt = IncomingRequest \<and> GetOpCode h \<noteq> 0 then E_NOTIMP
      else if pt = IncomingRequest \<and> GetTruncatedMessage h then E_FORMERR
      else if pt = IncomingRequest \<and> GetResponseCode h \<noteq> 0 then E_FORMERR
      else if pt = IncomingRequest \<and> QuestionCount h = 0 then E_FORMERR
      else if pt = IncomingRequest \<and> (AnswerCount h > 0 \<or> AuthorityCount h > 0) then E_FORMERR
      else if pt = IncomingResponse \<and> \<not> GetQueryResponse h then E_FORMERR
      else E_NOERROR)"

definition DnsHeader_Write :: "DnsHeader \<Rightarrow> PacketBuffer \<Rightarrow> PacketBuffer outcome" where
  "DnsHeader_Write h bb =
     obind (WRITE_U16 bb (ID h)) (\<lambda>bb.
     obind (WRITE_BYTE bb (hb3 h)) (\<lambda>bb.
     obind (WRITE_BYTE bb (hb4 h)) (\<lambda>bb.
     obind (WRITE_U16 bb (QuestionCount h)) (\<lambda>bb.
     obind (WRITE_U16 bb (AnswerCount h)) (\<lambda>bb.
     obind (WRITE_U16 bb (AuthorityCount h)) (\<lambda>bb.
     WRITE_U16 bb (AdditionalCount h)))))))"

text \<open>The wire format of RFC 1035, section 4.1.1.\<close>

definition header_bytes :: "DnsHeader \<Rightarrow> byte list" where
  "header_bytes h = bytes16 (ID h) @ [hb3 h, hb4 h] @ bytes16 (QuestionCount h) @
     bytes16 (AnswerCount h) @ bytes16 (AuthorityCount h) @ bytes16 (AdditionalCount h)"

definition rfc_opcode :: "DnsHeader \<Rightarrow> byte" where
  "rfc_opcode h = drop_bit 3 (hb3 h) AND 0xf"

section \<open>Lemmas\<close>

lemma length_header_bytes [simp]: "length (header_bytes h) = 12"
  by (simp add: header_bytes_def)

lemma DnsHeader_Write_wbuf [wbuf_simps]:
  "12 \<le> k \<Longrightarrow> DnsHeader_Write h (wbuf xs k) = Ret (wbuf (xs @ header_bytes h) (k - 12))"
proof -
  assume k: "12 \<le> k"
  have b: "0 < j \<Longrightarrow> WRITE_BYTE (wbuf ys j) v = Ret (wbuf (ys @ [v]) (j - 1))" for ys j v
    using WRITE_BYTE_wbuf [of ys "j - 1" v] by simp
  from k show ?thesis
    by (simp add: DnsHeader_Write_def header_bytes_def WRITE_U16_wbuf b)
qed

lemma DnsHeader_Read_ahead [vread_simps]:
  assumes "ahead bb (header_bytes h @ rest)"
  shows "DnsHeader_Read bb = Ret (h, adv bb 12)"
proof -
  let ?n = "bytes16 (AuthorityCount h) @ bytes16 (AdditionalCount h) @ rest"
  let ?q = "bytes16 (QuestionCount h) @ bytes16 (AnswerCount h) @ ?n"
  from assms have 0: "ahead bb (bytes16 (ID h) @ hb3 h # hb4 h # ?q)"
    by (simp add: header_bytes_def)
  note 1 = ahead_step(2) [OF 0]
  note 2 = ahead_step(1) [OF 1]
  note 3 = ahead_step(1) [OF 2]
  note 4 = ahead_step(2) [OF 3]
  note 5 = ahead_step(2) [OF 4]
  note 6 = ahead_step(2) [OF 5]
  from assms have "PACKET_SZ_VALID bb 12"
    by (simp add: PACKET_SZ_VALID_def ahead_def)
  then show ?thesis
    using VREAD_U16_ahead [OF 0] VREAD_U8_ahead [OF 1] VREAD_U8_ahead [OF 2]
      VREAD_U16_ahead [OF 3] VREAD_U16_ahead [OF 4] VREAD_U16_ahead [OF 5] VREAD_U16_ahead [OF 6]
    by (simp add: DnsHeader_Read_def)
qed

lemma DnsHeader_Read_Ret:
  assumes "DnsHeader_Read bb = Ret (h, bb')"
  shows "bb' = adv bb 12" and "bb_pos bb + 12 \<le> bb_size bb"
  using assms
  by (auto simp: DnsHeader_Read_def PACKET_SZ_VALID_def outcome_simps split: if_splits
      dest!: VREAD_U16_Ret(2) VREAD_U8_Ret(2))

lemma DnsHeader_Read_defined: "bb_wf bb \<Longrightarrow> DnsHeader_Read bb \<noteq> Undef u"
  by (auto simp: DnsHeader_Read_def outcome_simps VREAD_defined split: if_splits
      dest!: VREAD_U16_Ret(2) VREAD_U8_Ret(2))

lemma DnsHeader_reader [reader_intros]: "wire_reader DnsHeader_Read"
  by unfold_locales (auto dest: DnsHeader_Read_Ret simp: DnsHeader_Read_defined)

interpretation header_codec: wire_codec DnsHeader_Read DnsHeader_Write header_bytes id "\<lambda>h. True"
proof (intro wire_codec.intro wire_codec_axioms.intro DnsHeader_reader)
  fix h bb rest
  assume "ahead bb (header_bytes h @ rest)"
  then show "\<exists>y. DnsHeader_Read bb = Ret (y, adv bb (length (header_bytes h))) \<and> id y = id h"
    by (simp add: DnsHeader_Read_ahead)
qed (simp add: DnsHeader_Write_wbuf)

section \<open>Properties\<close>

lemma byte_mask_bits:
  fixes b :: byte
  shows "b AND 0x80 \<noteq> 0 \<longleftrightarrow> bit b 7" and "b AND 0x10 \<noteq> 0 \<longleftrightarrow> bit b 4" and "b AND 0x4 \<noteq> 0 \<longleftrightarrow> bit b 2"
    and "b AND 0x2 \<noteq> 0 \<longleftrightarrow> bit b 1" and "b AND 0x1 \<noteq> 0 \<longleftrightarrow> bit b 0" and "b AND 0x20 \<noteq> 0 \<longleftrightarrow> bit b 5"
  by (auto simp: byte_eq_iff bit_and_iff)

lemma GetOpCode_rfc: "GetOpCode h = drop_bit 1 (rfc_opcode h)"
  by (auto simp: GetOpCode_def rfc_opcode_def byte_eq_iff bit_and_iff bit_drop_bit_eq)

lemma GetOpCode_0_iff: "GetOpCode h = 0 \<longleftrightarrow> rfc_opcode h < 2"
proof -
  have "GetOpCode h = 0 \<longleftrightarrow> unat (drop_bit 1 (rfc_opcode h)) = 0"
    by (simp only: GetOpCode_rfc unat_eq_zero)
  also have "unat (drop_bit 1 (rfc_opcode h)) = unat (rfc_opcode h) div 2"
    by (simp add: drop_bit_Suc unat_div)
  finally show ?thesis by (simp add: word_less_nat_alt div_eq_0_iff)
qed

text \<open>
  C29: the request headers that \<open>DnsHeader::Validate\<close> accepts: not a response, not truncated, with no
  response code, at least one question and no answers or authorities, and with the operation code 0
  or 1. The accessor of the operation code drops its lowest bit, so inverse queries pass.
\<close>

theorem request_header_accepted_iff:
  "DnsHeader_Validate IncomingRequest h = E_NOERROR \<longleftrightarrow>
     \<not> GetQueryResponse h \<and> rfc_opcode h < 2 \<and> \<not> GetTruncatedMessage h \<and> GetResponseCode h = 0 \<and>
     QuestionCount h \<noteq> 0 \<and> AnswerCount h = 0 \<and> AuthorityCount h = 0"
  by (auto simp: DnsHeader_Validate_def GetOpCode_0_iff word_greater_zero_iff)

text \<open>
  Setting the checking-disabled flag never changes what its accessor reports: the setter writes
  bit 6 of the byte and the accessor reads bit 4.
\<close>

theorem checking_disabled_lost:
  "GetCheckingDisabled (SetCheckingDisabled v h) \<longleftrightarrow> GetCheckingDisabled h"
  by (simp add: GetCheckingDisabled_def SetCheckingDisabled_def byte_mask_bits bit_simps)

end
