(* ===== verification/Dns_Question.thy ===== *)
theory Dns_Question
  imports Codec
begin

text \<open>
  \<^verbatim>\<open>include/dns/dnsquestion.hpp\<close> and \<^verbatim>\<open>src/dns/dnsquestion.cpp\<close>: domain names on the wire
  (\<open>ReadLabel\<close> with compression pointers, \<open>WriteLabel\<close>), and the question record.

  A \<open>char Name[MAXDNAME]\<close> is the list of bytes stored in it before the terminating NUL that
  \<open>ReadLabel\<close> writes; readers of the C string use \<open>c_str\<close>, which stops at the first NUL.
  The reading loop keeps the bytes stored so far, so its \<open>size\<close> is the length of that list;
  a store at index \<open>MAXDNAME\<close> or \<open>-1\<close> is undefined behaviour.
\<close>

abbreviation (input) MAX_JUMPS :: nat where "MAX_JUMPS \<equiv> 5"
abbreviation (input) DOT :: byte where "DOT \<equiv> 46"

definition c_str :: "byte list \<Rightarrow> byte list" where
  "c_str s = takeWhile (\<lambda>b. b \<noteq> 0) s"

section \<open>Reading a name\<close>

definition store :: "byte list \<Rightarrow> byte \<Rightarrow> byte list outcome" where
  "store st b = (if length st < MAXDNAME then Ret (st @ [b]) else Undef StorageOverflow)"

fun copy_label :: "nat \<Rightarrow> PacketBuffer \<Rightarrow> byte list \<Rightarrow> (byte list \<times> PacketBuffer) outcome" where
  "copy_label 0 bb st = Ret (st, bb)"
| "copy_label (Suc n) bb st =
     obind (READ_BYTE bb) (\<lambda>(b, bb). obind (store st b) (\<lambda>st. copy_label n bb st))"

lemma READ_BYTE_Ret:
  assumes "READ_BYTE bb = Ret (b, bb')"
  shows "bb' = adv bb 1" and "bb_pos bb < length (bb_buf bb)" and "b = bb_buf bb ! bb_pos bb"
  using assms by (auto simp: READ_BYTE_def PEEK_BYTE_def split: if_splits)

lemma copy_label_Ret:
  assumes "copy_label n bb st = Ret (st', bb')"
  shows "bb' = adv bb n" and "st' = st @ take n (drop (bb_pos bb) (bb_buf bb))"
    and "length st' = length st + n" and "n = 0 \<or> length st' \<le> MAXDNAME"
proof -
  have "bb' = adv bb n \<and> st' = st @ take n (drop (bb_pos bb) (bb_buf bb)) \<and>
      length st' = length st + n \<and> (n = 0 \<or> length st' \<le> MAXDNAME)"
    using assms
  proof (induction n arbitrary: bb st)
    case 0
    then show ?case by simp
  next
    case (Suc n)
    from Suc.prems obtain b bb1 where b: "READ_BYTE bb = Ret (b, bb1)"
        and len: "length st < MAXDNAME" and "copy_label n bb1 (st @ [b]) = Ret (st', bb')"
      by (auto simp: outcome_simps store_def split: if_splits)
    then have rest: "copy_label n (adv bb 1) (st @ [b]) = Ret (st', bb')"
      using READ_BYTE_Ret(1) by blast
    have "drop (bb_pos bb) (bb_buf bb) = b # drop (Suc (bb_pos bb)) (bb_buf bb)"
      using READ_BYTE_Ret [OF b] by (simp add: Cons_nth_drop_Suc)
    with Suc.IH [OF rest] len show ?case by auto
  qed
  then show "bb' = adv bb n" and "st' = st @ take n (drop (bb_pos bb) (bb_buf bb))"
    and "length st' = length st + n" and "n = 0 \<or> length st' \<le> MAXDNAME" by auto
qed

text \<open>
  The \<open>while\<close> loop of \<open>ReadLabel\<close> with its exit. \<open>c\<close> is the byte just read, \<open>sv\<close> the local
  variable \<open>pos\<close>, \<open>st\<close> the storage. Each pass follows a pointer (at most \<open>MAX_JUMPS\<close> of them)
  or moves forward inside the packet, so it terminates.
\<close>

function ReadLabel_loop ::
  "PacketBuffer \<Rightarrow> byte \<Rightarrow> nat \<Rightarrow> nat \<Rightarrow> byte list \<Rightarrow> (byte list \<times> PacketBuffer) outcome" where
  "ReadLabel_loop bb c jumps sv st =
     (if c \<noteq> 0 \<and> jumps < MAX_JUMPS then
        if c AND 0xc0 = 0xc0 then
          obind (VREAD_U8 bb) (\<lambda>(d, bb1).
            let t = unat (be16 (c XOR 0xc0) d) in
            if t \<ge> bb_size bb1 then Fail E_FORMERR
            else obind (VREAD_U8 (bb1\<lparr>bb_pos := t\<rparr>)) (\<lambda>(c', bb2).
                   ReadLabel_loop bb2 c' (jumps + 1) (bb_pos bb1) st))
        else if c AND 0x40 = 0x40 \<or> c AND 0x80 = 0x80 then Fail E_NOTIMP
        else if bb_pos bb + unat c \<ge> bb_size bb then Fail E_FORMERR
        else
          obind (copy_label (unat c) bb st) (\<lambda>(st1, bb1).
          obind (store st1 DOT) (\<lambda>st2.
          obind (VREAD_U8 bb1) (\<lambda>(c', bb2).
            ReadLabel_loop bb2 c' jumps sv st2)))
      else if jumps = MAX_JUMPS then Fail E_FORMERR
      else if st = [] then Undef StorageUnderflow
      else Ret (butlast st, if sv > 0 then bb\<lparr>bb_pos := sv\<rparr> else bb))"
  by pat_completeness auto
termination
  by (relation "measures [\<lambda>(bb, c, jumps, sv, st). MAX_JUMPS - jumps,
                          \<lambda>(bb, c, jumps, sv, st). bb_size bb - bb_pos bb]")
    (auto dest!: VREAD_U8_RetD copy_label_Ret(1) simp: unat_gt_0)

declare ReadLabel_loop.simps [simp del]

definition ReadLabel :: "PacketBuffer \<Rightarrow> (byte list \<times> PacketBuffer) outcome" where
  "ReadLabel bb =
     obind (VREAD_U8 bb) (\<lambda>(c, bb1).
       if c = 0 then Ret ([], bb1) else ReadLabel_loop bb1 c 0 0 [])"

section \<open>Writing a name\<close>

text \<open>The macro \<open>WRITE_LENGTH\<close>, over the locals \<open>pos\<close> and \<open>len\<close> of \<open>WriteLabel\<close>.\<close>

definition WRITE_LENGTH :: "PacketBuffer \<Rightarrow> nat \<Rightarrow> byte \<Rightarrow> (PacketBuffer \<times> nat \<times> byte) outcome" where
  "WRITE_LENGTH bb pos len =
     (let t = bb_pos bb in
      obind (WRITE_BYTE (bb\<lparr>bb_pos := pos\<rparr>) len) (\<lambda>bb.
      Ret (bb\<lparr>bb_pos := t + 1\<rparr>, t, 0)))"

fun WriteLabel_loop ::
  "byte list \<Rightarrow> PacketBuffer \<Rightarrow> nat \<Rightarrow> byte \<Rightarrow> (PacketBuffer \<times> nat \<times> byte) outcome" where
  "WriteLabel_loop [] bb pos len = Ret (bb, pos, len)"
| "WriteLabel_loop (c # cs) bb pos len =
     (if c = DOT
      then obind (WRITE_LENGTH bb pos len) (\<lambda>(bb, pos, len). WriteLabel_loop cs bb pos len)
      else obind (WRITE_BYTE bb c) (\<lambda>bb. WriteLabel_loop cs bb pos (len + 1)))"

definition WriteLabel :: "byte list \<Rightarrow> PacketBuffer \<Rightarrow> PacketBuffer outcome" where
  "WriteLabel name bb =
     obind (WriteLabel_loop (c_str name) (adv bb 1) (bb_pos bb) 0) (\<lambda>(bb, pos, len).
     obind (WRITE_LENGTH bb pos len) (\<lambda>(bb, pos, len).
       if bb_pos bb < length (bb_buf bb)
       then Ret (bb\<lparr>bb_buf := (bb_buf bb)[bb_pos bb := 0]\<rparr>)
       else Undef BufferOverrun))"

section \<open>Questions\<close>

record DnsQuestion =
  Start :: nat
  Name :: "byte list"
  Type :: u16
  Class :: u16

definition DnsQuestion_Read :: "PacketBuffer \<Rightarrow> (DnsQuestion \<times> PacketBuffer) outcome" where
  "DnsQuestion_Read bb =
     obind (ReadLabel bb) (\<lambda>(nm, bb1).
     obind (VREAD_U16 bb1) (\<lambda>(ty, bb2).
     obind (VREAD_U16 bb2) (\<lambda>(cl, bb3).
     Ret (\<lparr>Start = bb_pos bb, Name = nm, Type = ty, Class = cl\<rparr>, bb3))))"

definition DnsQuestion_Validate :: "PacketType \<Rightarrow> 'a DnsQuestion_scheme \<Rightarrow> nat" where
  "DnsQuestion_Validate pt q =
     (if pt = IncomingRequest then
        if Type q \<noteq> QT_A \<and> Type q \<noteq> QT_AAAA \<and> Type q \<noteq> QT_NS \<and> Type q \<noteq> QT_CNAME \<and>
           Type q \<noteq> QT_MX \<and> Type q \<noteq> QT_OPT then E_NOTIMP
        else if Type q \<noteq> QT_OPT \<and> Class q \<noteq> QTC_IN then E_NOTIMP
        else E_NOERROR
      else E_NOERROR)"

definition DnsQuestion_Write :: "'a DnsQuestion_scheme \<Rightarrow> PacketBuffer \<Rightarrow> PacketBuffer outcome" where
  "DnsQuestion_Write q bb =
     obind (WriteLabel (Name q) bb) (\<lambda>bb.
     obind (WRITE_U16 bb (Type q)) (\<lambda>bb.
     WRITE_U16 bb (Class q)))"

definition IsQuestionOfType :: "'a DnsQuestion_scheme \<Rightarrow> u16 \<Rightarrow> bool" where
  "IsQuestionOfType q ty \<longleftrightarrow> Type q = ty"

section \<open>Names as the bytes of a message spell them\<close>

text \<open>The dotted form with a dot after every label, and its printable form without the last dot.\<close>

definition dotted :: "byte list list \<Rightarrow> byte list" where
  "dotted ls = concat (map (\<lambda>l. l @ [DOT]) ls)"

definition label_bytes :: "byte list \<Rightarrow> byte list" where
  "label_bytes l = of_nat (length l) # l"

definition name_bytes :: "byte list list \<Rightarrow> byte list" where
  "name_bytes ls = concat (map label_bytes ls) @ [0]"

text \<open>Splitting at the dots, as \<open>WriteLabel\<close> does: the empty string is one empty label.\<close>

fun split_dots :: "byte list \<Rightarrow> byte list list" where
  "split_dots [] = [[]]"
| "split_dots (c # cs) =
     (if c = DOT then [] # split_dots cs
      else (case split_dots cs of [] \<Rightarrow> [[c]] | l # ls \<Rightarrow> (c # l) # ls))"

text \<open>
  \<open>spelled_name m p j ls e r\<close>: the bytes at offset \<open>p\<close> of the message \<open>m\<close> spell a name with the labels \<open>ls\<close>,
  through \<open>j\<close> compression pointers, in the format of labels and pointers of RFC 1035, section 4.1.4; the bytes
  after the name start at \<open>e\<close>. \<open>r\<close> is the offset after the last pointer that was followed. Two rules of the RFC
  are not part of this: that a name has at most 255 octets, and that a pointer leads to a prior occurrence of
  the name. The code checks neither, so names that break them are read as well.
\<close>

inductive spelled_name ::
  "byte list \<Rightarrow> nat \<Rightarrow> nat \<Rightarrow> byte list list \<Rightarrow> nat \<Rightarrow> nat \<Rightarrow> bool" for m :: "byte list" where
  name_root: "p < length m \<Longrightarrow> m ! p = 0 \<Longrightarrow> spelled_name m p 0 [] (p + 1) (p + 1)"
| name_label: "p < length m \<Longrightarrow> m ! p \<noteq> 0 \<Longrightarrow> m ! p AND 0xc0 = 0 \<Longrightarrow>
     p + 1 + unat (m ! p) < length m \<Longrightarrow> l = take (unat (m ! p)) (drop (p + 1) m) \<Longrightarrow>
     spelled_name m (p + 1 + unat (m ! p)) j ls e r \<Longrightarrow> spelled_name m p j (l # ls) e r"
| name_ptr: "p + 1 < length m \<Longrightarrow> m ! p AND 0xc0 = 0xc0 \<Longrightarrow>
     t = unat (be16 (m ! p XOR 0xc0) (m ! (p + 1))) \<Longrightarrow> spelled_name m t j ls e r \<Longrightarrow>
     spelled_name m p (Suc j) ls (p + 2) (if j = 0 then p + 2 else r)"

inductive_cases spelled_name_rootE: "spelled_name m p j [] e r"

text \<open>A label that survives the dotted form: no dot and no NUL inside, of the wire's length.\<close>

definition label_ok :: "byte list \<Rightarrow> bool" where
  "label_ok l \<longleftrightarrow> 0 < length l \<and> length l < 64 \<and> DOT \<notin> set l \<and> 0 \<notin> set l"

definition name_ok :: "byte list list \<Rightarrow> bool" where
  "name_ok ls \<longleftrightarrow> ls \<noteq> [] \<and> list_all label_ok ls \<and> length (dotted ls) \<le> MAXDNAME"

section \<open>Lemmas on reading\<close>

lemma top_bits:
  fixes c :: byte
  shows "c AND 0xc0 = 0xc0 \<longleftrightarrow> bit c 7 \<and> bit c 6" and "c AND 0xc0 = 0 \<longleftrightarrow> \<not> bit c 7 \<and> \<not> bit c 6"
    and "c AND 0x40 = 0x40 \<longleftrightarrow> bit c 6" and "c AND 0x80 = 0x80 \<longleftrightarrow> bit c 7"
  by (auto simp: byte_eq_iff bit_and_iff)

lemma copy_label_ok:
  assumes "bb_pos bb + n \<le> length (bb_buf bb)" and "length st + n \<le> MAXDNAME"
  shows "copy_label n bb st = Ret (st @ take n (drop (bb_pos bb) (bb_buf bb)), adv bb n)"
  using assms
proof (induction n arbitrary: bb st)
  case 0
  then show ?case by simp
next
  case (Suc n)
  let ?b = "bb_buf bb ! bb_pos bb"
  from Suc.prems have "READ_BYTE bb = Ret (?b, adv bb 1)" and "store st ?b = Ret (st @ [?b])"
    by (auto simp: READ_BYTE_def PEEK_BYTE_def store_def)
  moreover have "drop (bb_pos bb) (bb_buf bb) = ?b # drop (Suc (bb_pos bb)) (bb_buf bb)"
    using Suc.prems by (simp add: Cons_nth_drop_Suc)
  ultimately show ?case
    using Suc.IH [of "adv bb 1" "st @ [?b]"] Suc.prems by simp
qed

lemma copy_label_Undef:
  "copy_label n bb st = Undef u \<Longrightarrow> bb_pos bb + n \<le> length (bb_buf bb) \<Longrightarrow>
     u = StorageOverflow \<and> MAXDNAME < length st + n"
proof (induction n arbitrary: bb st)
  case 0
  then show ?case by simp
next
  case (Suc n)
  show ?case
  proof (cases "length st < MAXDNAME")
    case True
    with Suc.prems have "copy_label n (adv bb 1) (st @ [bb_buf bb ! bb_pos bb]) = Undef u"
      by (auto simp: READ_BYTE_def PEEK_BYTE_def store_def)
    from Suc.IH [OF this] Suc.prems show ?thesis by simp
  next
    case False
    with Suc.prems show ?thesis by (auto simp: READ_BYTE_def PEEK_BYTE_def store_def)
  qed
qed

lemma dotted_Cons: "dotted (l # ls) = l @ DOT # dotted ls"
  by (simp add: dotted_def)

lemma dotted_Nil [simp]: "dotted [] = []"
  by (simp add: dotted_def)

lemma VREAD_U8_at:
  "bb_wf bb \<Longrightarrow> p < bb_size bb \<Longrightarrow> bb_pos bb = p \<Longrightarrow>
     VREAD_U8 bb = Ret (bb_buf bb ! p, adv bb 1)"
  by (simp add: VREAD_U8_def VALIDATE_def READ_BYTE_def PEEK_BYTE_def bb_wf_def)

abbreviation message :: "PacketBuffer \<Rightarrow> byte list" where
  "message bb \<equiv> take (bb_size bb) (bb_buf bb)"

lemma message_nth [simp]:
  "i < bb_size bb \<Longrightarrow> message bb ! i = bb_buf bb ! i"
  by simp

text \<open>Reading follows the labels and pointers; it resumes after the last pointer.\<close>

lemma ReadLabel_loop_complete:
  assumes "spelled_name (message bb0) p j ls e r" and "bb_wf bb0" and "jumps + j < MAX_JUMPS"
    and "length (st @ dotted ls) \<le> MAXDNAME" and "st @ dotted ls \<noteq> []"
  shows "ReadLabel_loop (bb0\<lparr>bb_pos := p + 1\<rparr>) (bb_buf bb0 ! p) jumps sv st =
     Ret (butlast (st @ dotted ls),
       bb0\<lparr>bb_pos := if j = 0 then (if sv > 0 then sv else e) else r\<rparr>)"
  using assms
proof (induction arbitrary: jumps sv st rule: spelled_name.induct)
  case (name_root p)
  then show ?case by (simp add: ReadLabel_loop.simps)
next
  case (name_label p l j ls e r)
  let ?c = "bb_buf bb0 ! p" and ?q = "p + 1 + unat (bb_buf bb0 ! p)"
  have p: "p < bb_size bb0" and q: "?q < bb_size bb0" and qb: "?q < length (bb_buf bb0)"
    and c: "?c \<noteq> 0" "?c AND 0xc0 = 0" and wf: "bb_wf bb0"
    using name_label.hyps name_label.prems by auto
  have l: "l = take (unat ?c) (drop (p + 1) (bb_buf bb0))" and ll: "length l = unat ?c"
    using name_label.hyps(5) p q qb by (auto simp: drop_take min_absorb1)
  have "copy_label (unat ?c) (bb0\<lparr>bb_pos := p + 1\<rparr>) st = Ret (st @ l, bb0\<lparr>bb_pos := ?q\<rparr>)"
    using copy_label_ok [of "bb0\<lparr>bb_pos := p + 1\<rparr>" "unat ?c" st] qb name_label.prems(3) l ll
    by (simp add: dotted_Cons)
  moreover have "store (st @ l) DOT = Ret (st @ l @ [DOT])"
    using name_label.prems(3) by (simp add: store_def dotted_Cons)
  moreover have "VREAD_U8 (bb0\<lparr>bb_pos := ?q\<rparr>) = Ret (bb_buf bb0 ! ?q, bb0\<lparr>bb_pos := ?q + 1\<rparr>)"
    using VREAD_U8_at [of "bb0\<lparr>bb_pos := ?q\<rparr>"] q wf by simp
  moreover have "ReadLabel_loop (bb0\<lparr>bb_pos := ?q + 1\<rparr>) (bb_buf bb0 ! ?q) jumps sv (st @ l @ [DOT]) =
      Ret (butlast (st @ dotted (l # ls)),
        bb0\<lparr>bb_pos := if j = 0 then (if sv > 0 then sv else e) else r\<rparr>)"
    using name_label.IH [of jumps "st @ l @ [DOT]" sv] name_label.prems p
    by (simp add: dotted_Cons)
  ultimately show ?case
    using c q name_label.prems(2) by (simp add: ReadLabel_loop.simps [of _ ?c] top_bits)
next
  case (name_ptr p t j ls e r)
  let ?c = "bb_buf bb0 ! p" and ?d = "bb_buf bb0 ! (p + 1)"
  have p: "p + 1 < bb_size bb0" and pb: "p + 1 < length (bb_buf bb0)" and wf: "bb_wf bb0"
    and c: "?c AND 0xc0 = 0xc0" and t: "t = unat (be16 (?c XOR 0xc0) ?d)"
    using name_ptr.hyps name_ptr.prems by auto
  have tn: "t < bb_size bb0"
    using name_ptr.hyps(4) by (auto elim: spelled_name.cases)
  have "VREAD_U8 (bb0\<lparr>bb_pos := p + 1\<rparr>) = Ret (?d, bb0\<lparr>bb_pos := p + 2\<rparr>)"
    using VREAD_U8_at [of "bb0\<lparr>bb_pos := p + 1\<rparr>"] p wf by simp
  moreover have "VREAD_U8 (bb0\<lparr>bb_pos := t\<rparr>) = Ret (bb_buf bb0 ! t, bb0\<lparr>bb_pos := t + 1\<rparr>)"
    using VREAD_U8_at [of "bb0\<lparr>bb_pos := t\<rparr>"] tn wf by simp
  moreover have "?c \<noteq> 0" using c by auto
  ultimately show ?case
    using c t tn name_ptr.IH [of "jumps + 1" st "p + 2"] name_ptr.prems
    by (simp add: ReadLabel_loop.simps [of _ ?c])
qed

text \<open>Conversely, a name that is read is a name of the message.\<close>

lemma ReadLabel_loop_sound:
  assumes "ReadLabel_loop bb c jumps sv st = Ret (nm, bb')" and "bb_wf bb"
    and "bb_pos bb = p + 1" and "p < bb_size bb" and "c = bb_buf bb ! p" and "jumps \<le> MAX_JUMPS"
  shows "\<exists>j ls e r. spelled_name (message bb) p j ls e r \<and> jumps + j < MAX_JUMPS \<and>
     nm = butlast (st @ dotted ls) \<and> st @ dotted ls \<noteq> [] \<and>
     bb' = bb\<lparr>bb_pos := if j = 0 then (if sv > 0 then sv else e) else r\<rparr>"
  using assms
proof (induction bb c jumps sv st arbitrary: p rule: ReadLabel_loop.induct)
  case (1 bb c jumps sv st)
  have wf: "bb_wf bb" and pos: "bb_pos bb = p + 1" and p: "p < bb_size bb"
    and pb: "p < length (bb_buf bb)" and c: "c = bb_buf bb ! p"
    using "1.prems" by (auto simp: bb_wf_def)
  consider (root) "c = 0" | (ptr) "c \<noteq> 0" "jumps < MAX_JUMPS" "c AND 0xc0 = 0xc0"
    | (label) "c \<noteq> 0" "jumps < MAX_JUMPS" "c AND 0xc0 = 0"
    using "1.prems"(1,6) by (auto simp: ReadLabel_loop.simps [of bb] top_bits split: if_splits)
  then show ?case
  proof cases
    case root
    with "1.prems" have res: "nm = butlast st" "st \<noteq> []" "jumps < MAX_JUMPS"
      "bb' = bb\<lparr>bb_pos := if sv > 0 then sv else p + 1\<rparr>"
      by (auto simp: ReadLabel_loop.simps [of bb] split: if_splits)
    show ?thesis
    proof (intro exI conjI)
      show "spelled_name (message bb) p 0 [] (p + 1) (p + 1)"
        using root p pb c by (intro name_root) auto
    qed (use res in auto)
  next
    case ptr
    from "1.prems"(1) ptr obtain d bb1 c' bb2 where d: "VREAD_U8 bb = Ret (d, bb1)"
      and t: "\<not> bb_size bb1 \<le> unat (be16 (c XOR 0xc0) d)"
      and c': "VREAD_U8 (bb1\<lparr>bb_pos := unat (be16 (c XOR 0xc0) d)\<rparr>) = Ret (c', bb2)"
      and rec: "ReadLabel_loop bb2 c' (jumps + 1) (bb_pos bb1) st = Ret (nm, bb')"
      by (auto simp: ReadLabel_loop.simps [of bb] outcome_simps Let_def split: if_splits)
    let ?t = "unat (be16 (c XOR 0xc0) d)"
    from VREAD_U8_RetD [OF d] VREAD_U8_RetD [OF c'] pos
    have eqs: "bb1 = adv bb 1" "bb2 = bb\<lparr>bb_pos := ?t + 1\<rparr>" "c' = bb_buf bb ! ?t"
      "d = bb_buf bb ! (p + 1)" "p + 1 < bb_size bb" by auto
    from "1.IH"(1) [OF _ ptr(3) d refl refl t c' refl rec] ptr eqs t wf
    obtain j ls e r where name: "spelled_name (message bb) ?t j ls e r" and j: "jumps + 1 + j < MAX_JUMPS"
      and nm: "nm = butlast (st @ dotted ls)" "st @ dotted ls \<noteq> []"
      and bb': "bb' = bb\<lparr>bb_pos := if j = 0 then p + 2 else r\<rparr>"
      using pos by fastforce
    show ?thesis
    proof (intro exI conjI)
      show "spelled_name (message bb) p (Suc j) ls (p + 2) (if j = 0 then p + 2 else r)"
        using name eqs ptr(3) c pb wf by (intro name_ptr [where t = ?t]) (auto simp: bb_wf_def)
    qed (use nm bb' j in auto)
  next
    case label
    let ?q = "p + 1 + unat c"
    from "1.prems"(1) label obtain st1 bb1 st2 c' bb2 where n: "\<not> bb_size bb \<le> bb_pos bb + unat c"
      and cp: "copy_label (unat c) bb st = Ret (st1, bb1)" and s2: "store st1 DOT = Ret st2"
      and c': "VREAD_U8 bb1 = Ret (c', bb2)"
      and rec: "ReadLabel_loop bb2 c' jumps sv st2 = Ret (nm, bb')"
      by (auto simp: ReadLabel_loop.simps [of bb] outcome_simps top_bits split: if_splits)
    let ?l = "take (unat c) (drop (p + 1) (bb_buf bb))"
    from copy_label_Ret [OF cp] VREAD_U8_RetD [OF c'] pos s2
    have eqs: "bb1 = bb\<lparr>bb_pos := ?q\<rparr>" "bb2 = bb\<lparr>bb_pos := ?q + 1\<rparr>" "c' = bb_buf bb ! ?q"
      "st2 = st @ ?l @ [DOT]" "?q < bb_size bb"
      by (auto simp: store_def split: if_splits)
    have notptr: "c AND 0xc0 \<noteq> 0xc0" "\<not> (c AND 0x40 = 0x40 \<or> c AND 0x80 = 0x80)"
      using label(3) by (auto simp: top_bits)
    from "1.IH"(2) [OF _ notptr n cp refl s2 c' refl rec] label eqs wf
    obtain j ls e r where name: "spelled_name (message bb) ?q j ls e r" and j: "jumps + j < MAX_JUMPS"
      and nm: "nm = butlast (st @ dotted (?l # ls))"
      and bb': "bb' = bb\<lparr>bb_pos := if j = 0 then (if sv > 0 then sv else e) else r\<rparr>"
      by (fastforce simp: dotted_Cons)
    show ?thesis
    proof (intro exI conjI)
      show "spelled_name (message bb) p j (?l # ls) e r"
        using name eqs(5) label c p pb wf
        by (intro name_label) (auto simp: bb_wf_def drop_take min_absorb1)
    qed (use nm bb' j in \<open>auto simp: dotted_Cons\<close>)
  qed
qed


text \<open>
  The loop never leaves the packet buffer. The only undefined behaviour it can run into is in the
  name storage, and a packet of at most \<open>MAXDNAME div MAX_JUMPS\<close> bytes cannot overflow it.
\<close>

lemma ReadLabel_loop_Undef:
  assumes "ReadLabel_loop bb c jumps sv st = Undef u" and "bb_wf bb"
    and "length st \<le> jumps * bb_size bb + bb_pos bb" and "bb_pos bb \<le> bb_size bb"
    and "jumps \<le> MAX_JUMPS"
  shows "u = StorageUnderflow \<or> (u = StorageOverflow \<and> MAXDNAME < MAX_JUMPS * bb_size bb)"
  using assms
proof (induction bb c jumps sv st rule: ReadLabel_loop.induct)
  case (1 bb c jumps sv st)
  have wf: "bb_wf bb" and len: "length st \<le> jumps * bb_size bb + bb_pos bb" using "1.prems" by auto
  consider (root) "c = 0 \<or> jumps = MAX_JUMPS" | (ptr) "c \<noteq> 0" "jumps < MAX_JUMPS" "c AND 0xc0 = 0xc0"
    | (label) "c \<noteq> 0" "jumps < MAX_JUMPS" "c AND 0xc0 \<noteq> 0xc0" "\<not> (c AND 0x40 = 0x40 \<or> c AND 0x80 = 0x80)"
        "\<not> bb_size bb \<le> bb_pos bb + unat c"
    using "1.prems"(1,5) by (auto simp: ReadLabel_loop.simps [of bb] split: if_splits)
  then show ?case
  proof cases
    case root
    with "1.prems"(1) show ?thesis by (auto simp: ReadLabel_loop.simps [of bb] split: if_splits)
  next
    case ptr
    from "1.prems"(1) ptr obtain d bb1 where d: "VREAD_U8 bb = Ret (d, bb1)"
      using VREAD_defined(1) [OF wf]
      by (cases "VREAD_U8 bb") (auto simp: ReadLabel_loop.simps [of bb])
    from VREAD_U8_RetD [OF d] have wf1: "bb_wf (bb1\<lparr>bb_pos := t\<rparr>)" for t using wf by simp
    let ?t = "unat (be16 (c XOR 0xc0) d)"
    from "1.prems"(1) ptr d have t: "\<not> bb_size bb1 \<le> ?t"
      by (auto simp: ReadLabel_loop.simps [of bb] Let_def)
    with "1.prems"(1) ptr d obtain c' bb2 where c': "VREAD_U8 (bb1\<lparr>bb_pos := ?t\<rparr>) = Ret (c', bb2)"
      using VREAD_defined(1) [OF wf1]
      by (cases "VREAD_U8 (bb1\<lparr>bb_pos := ?t\<rparr>)") (auto simp: ReadLabel_loop.simps [of bb] Let_def)
    with "1.prems"(1) ptr d t have rec: "ReadLabel_loop bb2 c' (jumps + 1) (bb_pos bb1) st = Undef u"
      by (simp add: ReadLabel_loop.simps [of bb] Let_def)
    from VREAD_U8_RetD [OF d] VREAD_U8_RetD [OF c'] have "bb_size bb2 = bb_size bb" "bb_wf bb2"
      "bb_pos bb2 \<le> bb_size bb" "length st \<le> (jumps + 1) * bb_size bb + bb_pos bb2"
      using wf len "1.prems"(4) by auto
    with "1.IH"(1) [OF _ ptr(3) d refl refl t c' refl rec] ptr show ?thesis by auto
  next
    case label
    have inb: "bb_pos bb + unat c \<le> length (bb_buf bb)" using label(5) wf by (simp add: bb_wf_def)
    have "jumps * bb_size bb + bb_size bb \<le> MAX_JUMPS * bb_size bb"
      using label(2) mult_le_mono1 [of "jumps + 1" MAX_JUMPS "bb_size bb"] by simp
    with len label(5) have room: "length st + unat c < MAX_JUMPS * bb_size bb" by linarith
    show ?thesis
    proof (cases "copy_label (unat c) bb st")
      case (Undef v)
      with "1.prems"(1) label have "u = v" by (auto simp: ReadLabel_loop.simps [of bb])
      moreover from copy_label_Undef [OF Undef inb] room have "MAXDNAME < MAX_JUMPS * bb_size bb"
        by linarith
      ultimately show ?thesis using copy_label_Undef [OF Undef inb] by simp
    next
      case (Fail v)
      with "1.prems"(1) label show ?thesis by (auto simp: ReadLabel_loop.simps [of bb])
    next
      case (Ret a)
      then obtain st1 bb1 where cp: "copy_label (unat c) bb st = Ret (st1, bb1)" by (cases a) auto
      note st1 = copy_label_Ret [OF cp]
      show ?thesis
      proof (cases "length st1 < MAXDNAME")
        case False
        with cp "1.prems"(1) label have "u = StorageOverflow"
          by (auto simp: ReadLabel_loop.simps [of bb] store_def)
        moreover from False st1(3) room have "MAXDNAME < MAX_JUMPS * bb_size bb" by linarith
        ultimately show ?thesis by simp
      next
        case True
        with cp "1.prems"(1) label obtain c' bb2 where c': "VREAD_U8 bb1 = Ret (c', bb2)"
          and rec: "ReadLabel_loop bb2 c' jumps sv (st1 @ [DOT]) = Undef u"
          using VREAD_defined [of bb1] wf st1(1)
          by (auto simp: ReadLabel_loop.simps [of bb] outcome_simps store_def)
        from True have s2: "store st1 DOT = Ret (st1 @ [DOT])" by (simp add: store_def)
        from VREAD_U8_RetD [OF c'] st1 have "bb_size bb2 = bb_size bb" "bb_wf bb2"
          "bb_pos bb2 \<le> bb_size bb" "length (st1 @ [DOT]) \<le> jumps * bb_size bb + bb_pos bb2"
          using wf len by auto
        with "1.IH"(2) [OF _ label(3-5) cp refl s2 c' refl rec] label show ?thesis by auto
      qed
    qed
  qed
qed


section \<open>Lemmas on writing\<close>

lemma WRITE_BYTE_wbuf_pos [wbuf_simps]:
  "0 < k \<Longrightarrow> WRITE_BYTE (wbuf xs k) b = Ret (wbuf (xs @ [b]) (k - 1))"
  using WRITE_BYTE_wbuf [of xs "k - 1" b] by simp

text \<open>
  The state inside \<open>WriteLabel\<close>: after \<open>xs\<close> a length byte still zero, then the bytes \<open>cur\<close> of the
  current label. \<open>WRITE_LENGTH\<close> fills the length in and reserves the next length byte.
\<close>

lemma WRITE_LENGTH_wbuf:
  assumes "0 < k"
  shows "WRITE_LENGTH (wbuf (xs @ 0 # cur) k) (length xs) len =
     Ret (wbuf (xs @ len # cur @ [0]) (k - 1), length (xs @ len # cur), 0)"
proof -
  from assms have "replicate k (0::byte) = 0 # replicate (k - 1) 0" by (cases k) auto
  then show ?thesis
    by (simp add: WRITE_LENGTH_def WRITE_BYTE_def wbuf_def Let_def)
qed

lemma split_dots_not_Nil [simp]: "split_dots s \<noteq> []"
  by (induction s) (auto split: list.splits)

definition wire :: "byte list list \<Rightarrow> byte list" where
  "wire ls = concat (map label_bytes ls)"

lemma wire_simps [simp]: "wire [] = []" "wire (l # ls) = of_nat (length l) # l @ wire ls"
  by (simp_all add: wire_def label_bytes_def)

lemma name_bytes_wire: "name_bytes ls = wire ls @ [0]"
  by (simp add: name_bytes_def wire_def)

lemma WriteLabel_loop_wbuf:
  assumes "length s \<le> k" and "split_dots s = l # ls"
  shows "\<exists>ys last. WriteLabel_loop s (wbuf (xs @ 0 # cur) k) (length xs) (of_nat (length cur)) =
       Ret (wbuf (ys @ 0 # last) (k - length s), length ys, of_nat (length last)) \<and>
     ys @ of_nat (length last) # last = xs @ wire ((cur @ l) # ls)"
  using assms
proof (induction s arbitrary: xs cur k l ls)
  case Nil
  show ?case
  proof (intro exI conjI)
    show "WriteLabel_loop [] (wbuf (xs @ 0 # cur) k) (length xs) (of_nat (length cur)) =
        Ret (wbuf (xs @ 0 # cur) (k - length []), length xs, of_nat (length cur))" by simp
  qed (use Nil in auto)
next
  case (Cons c cs)
  obtain l' ls' where cs: "split_dots cs = l' # ls'"
    by (cases "split_dots cs") auto
  from Cons.prems have le: "length cs \<le> k - 1" by simp
  show ?case
  proof (cases "c = DOT")
    case True
    let ?xs = "xs @ of_nat (length cur) # cur"
    from Cons.IH [OF le cs, of ?xs "[]"]
    obtain ys last where IH: "WriteLabel_loop cs (wbuf (?xs @ [0]) (k - 1)) (length ?xs) 0 =
        Ret (wbuf (ys @ 0 # last) (k - 1 - length cs), length ys, of_nat (length last))"
      "ys @ of_nat (length last) # last = ?xs @ wire (l' # ls')"
      by auto
    with True Cons.prems cs WRITE_LENGTH_wbuf [of k xs cur] show ?thesis
      by (intro exI [of _ ys] exI [of _ last]) auto
  next
    case False
    from Cons.IH [OF le cs, of xs "cur @ [c]"]
    obtain ys last where IH:
      "WriteLabel_loop cs (wbuf (xs @ 0 # cur @ [c]) (k - 1)) (length xs) (of_nat (length cur) + 1) =
        Ret (wbuf (ys @ 0 # last) (k - 1 - length cs), length ys, of_nat (length last))"
      "ys @ of_nat (length last) # last = xs @ wire ((cur @ c # l') # ls')"
      by (auto simp: add.commute)
    with False Cons.prems cs WRITE_BYTE_wbuf_pos [of k "xs @ 0 # cur" c] show ?thesis
      by (intro exI [of _ ys] exI [of _ last]) auto
  qed
qed

lemma length_wire_split [simp]: "length (wire (split_dots s)) = length s + 1"
  by (induction s) (auto split: list.splits)

lemma wbuf_poke_zero:
  "0 < k \<Longrightarrow> (wbuf xs k)\<lparr>bb_buf := (bb_buf (wbuf xs k))[length xs := 0]\<rparr> = wbuf xs k"
  by (cases k) (auto simp: wbuf_def)

lemma wbuf_sel [simp]:
  "bb_pos (wbuf xs k) = length xs" "length (bb_buf (wbuf xs k)) = length xs + k"
  by (simp_all add: wbuf_def)

lemma wbuf_skip: "0 < k \<Longrightarrow> (wbuf xs k)\<lparr>bb_pos := Suc (length xs)\<rparr> = wbuf (xs @ [0]) (k - 1)"
  by (cases k) (auto simp: wbuf_def)

text \<open>What \<open>WriteLabel\<close> puts on the wire, for any name and any zeroed buffer with room for it.\<close>

lemma WriteLabel_wbuf [wbuf_simps]:
  assumes "length (c_str name) + 3 \<le> k"
  shows "WriteLabel name (wbuf xs k) =
     Ret (wbuf (xs @ wire (split_dots (c_str name)) @ [0]) (k - (length (c_str name) + 2)))"
proof -
  let ?s = "c_str name"
  obtain l ls where sp: "split_dots ?s = l # ls" by (cases "split_dots ?s") auto
  have le: "length ?s \<le> k - 1" using assms by simp
  from WriteLabel_loop_wbuf [OF le sp, of xs "[]"] sp
  obtain ys last where loop: "WriteLabel_loop ?s (wbuf (xs @ [0]) (k - 1)) (length xs) 0 =
       Ret (wbuf (ys @ 0 # last) (k - 1 - length ?s), length ys, of_nat (length last))"
    and ys: "ys @ of_nat (length last) # last = xs @ wire (split_dots ?s)"
    by auto
  let ?k = "k - 1 - length ?s - 1"
  have "WRITE_LENGTH (wbuf (ys @ 0 # last) (k - 1 - length ?s)) (length ys) (of_nat (length last)) =
      Ret (wbuf ((xs @ wire (split_dots ?s)) @ [0]) ?k, length (xs @ wire (split_dots ?s)), 0)"
    using WRITE_LENGTH_wbuf [of "k - 1 - length ?s" ys last] assms
    unfolding ys [symmetric] by simp
  then show ?thesis
    using assms loop wbuf_poke_zero [of ?k "xs @ wire (split_dots ?s) @ [0]"]
    by (simp add: WriteLabel_def wbuf_skip)
qed

lemma split_dots_label: "DOT \<notin> set l \<Longrightarrow> split_dots (l @ DOT # s) = l # split_dots s"
  by (induction l) auto

lemma split_dots_last: "DOT \<notin> set l \<Longrightarrow> split_dots l = [l]"
  by (induction l) auto

lemma split_dots_dotted:
  "ls \<noteq> [] \<Longrightarrow> list_all label_ok ls \<Longrightarrow> split_dots (butlast (dotted ls)) = ls"
proof (induction ls)
  case Nil
  then show ?case by simp
next
  case (Cons l ls)
  then have l: "DOT \<notin> set l" by (simp add: label_ok_def)
  show ?case
  proof (cases ls)
    case Nil
    with l show ?thesis by (simp add: dotted_Cons butlast_append split_dots_last)
  next
    case (Cons l' ls')
    then have "dotted ls \<noteq> []" by (simp add: dotted_Cons)
    then have "butlast (dotted (l # ls)) = l @ DOT # butlast (dotted ls)"
      by (simp add: dotted_Cons butlast_append)
    with l Cons Cons.IH Cons.prems show ?thesis by (simp add: split_dots_label)
  qed
qed

lemma c_str_dotted:
  assumes "list_all label_ok ls"
  shows "c_str (butlast (dotted ls)) = butlast (dotted ls)"
proof -
  have "0 \<notin> set (dotted ls)"
    using assms by (induction ls) (auto simp: dotted_Cons label_ok_def)
  then show ?thesis
    by (auto simp: c_str_def takeWhile_eq_all_conv dest: in_set_butlastD)
qed

section \<open>Names and questions, read and written\<close>

lemma spelled_name_of_bytes:
  assumes "list_all label_ok ls" and "drop p m = name_bytes ls @ rest"
  shows "spelled_name m p 0 ls (p + length (name_bytes ls)) (p + length (name_bytes ls))"
  using assms
proof (induction ls arbitrary: p)
  case Nil
  then have "drop p m = 0 # rest" by (simp add: name_bytes_wire)
  then have "p < length m" and "m ! p = 0"
    by (metis drop_all list.distinct(1) not_le) (metis \<open>drop p m = 0 # rest\<close> hd_drop_conv_nth
        drop_all list.distinct(1) list.sel(1) not_le)
  then show ?case by (simp add: name_bytes_wire name_root [simplified])
next
  case (Cons l ls)
  let ?c = "of_nat (length l) :: byte"
  from Cons.prems have d: "drop p m = ?c # l @ name_bytes ls @ rest" and l: "label_ok l"
    by (simp_all add: name_bytes_wire)
  then have p: "p < length m" and c: "m ! p = ?c"
    by (metis drop_all list.distinct(1) not_le, metis d drop_all hd_drop_conv_nth
        list.distinct(1) list.sel(1) not_le)
  have dl: "drop (p + 1) m = l @ name_bytes ls @ rest"
    using arg_cong [OF d, of tl] by (simp add: drop_Suc tl_drop)
  have u: "unat ?c = length l" using l by (simp add: label_ok_def unat_of_nat)
  have "bit (length l) 7 = False" "bit (length l) 6 = False"
    using l by (simp_all add: label_ok_def bit_iff_odd)
  then have "bit ?c 7 = False" "bit ?c 6 = False" by (simp_all add: bit_of_nat_iff)
  then have top: "?c AND 0xc0 = 0" by (simp add: top_bits)
  have dq: "drop (p + 1 + unat ?c) m = name_bytes ls @ rest"
    using arg_cong [OF dl, of "drop (length l)"] by (simp add: u add.commute)
  from l u have "?c \<noteq> 0" by (metis label_ok_def less_nat_zero_code unat_0)
  moreover have "p + 1 + unat ?c < length m"
    using arg_cong [OF dq, of length] by (simp add: name_bytes_wire)
  moreover have "l = take (unat ?c) (drop (p + 1) m)" using dl by (simp add: u)
  ultimately have "spelled_name m p 0 (l # ls) (p + 1 + unat ?c + length (name_bytes ls))
      (p + 1 + unat ?c + length (name_bytes ls))"
    using p c top Cons.IH [of "p + 1 + unat ?c"] Cons.prems dq by (intro name_label) auto
  then show ?case by (simp add: u name_bytes_wire add.assoc)
qed

lemma ReadLabel_spelled:
  assumes "spelled_name (message bb) (bb_pos bb) j ls e r" and "bb_wf bb" and "j < MAX_JUMPS"
    and "ls \<noteq> []" and "length (dotted ls) \<le> MAXDNAME"
  shows "ReadLabel bb = Ret (butlast (dotted ls), bb\<lparr>bb_pos := if j = 0 then e else r\<rparr>)"
proof -
  let ?p = "bb_pos bb" and ?c = "bb_buf bb ! bb_pos bb"
  have p: "?p < bb_size bb" and c: "?c \<noteq> 0"
    using assms(1,4) by (auto elim: spelled_name.cases)
  from assms(4) have "dotted ls \<noteq> []" by (cases ls) (auto simp: dotted_Cons)
  then have "ReadLabel_loop (adv bb 1) ?c 0 0 [] =
      Ret (butlast (dotted ls), bb\<lparr>bb_pos := if j = 0 then e else r\<rparr>)"
    using ReadLabel_loop_complete [OF assms(1,2), of 0 "[]" 0] assms by simp
  with VREAD_U8_at [OF assms(2) p refl] c show ?thesis by (simp add: ReadLabel_def)
qed

lemma ahead_drop: "ahead bb bs \<Longrightarrow> \<exists>rest. drop (bb_pos bb) (message bb) = bs @ rest"
proof -
  assume a: "ahead bb bs"
  then have "take (length bs) (drop (bb_pos bb) (message bb)) = bs"
    by (auto simp: ahead_def drop_take min_absorb1)
  then show ?thesis by (metis append_take_drop_id)
qed

text \<open>A name as the code keeps it, its wire form, and the names that have one.\<close>

definition wire_name :: "byte list \<Rightarrow> byte list" where
  "wire_name nm = name_bytes (split_dots nm)"

definition name_valid :: "byte list \<Rightarrow> bool" where
  "name_valid nm \<longleftrightarrow> name_ok (split_dots nm)"

lemma dotted_split: "dotted (split_dots s) = s @ [DOT]"
  by (induction s) (auto simp: dotted_Cons split: list.splits)

lemma length_wire_name [simp]: "length (wire_name nm) = length nm + 2"
  by (simp add: wire_name_def name_bytes_wire)

lemma name_valid_dotted: "name_ok ls \<Longrightarrow> name_valid (butlast (dotted ls))"
  by (simp add: name_valid_def name_ok_def split_dots_dotted)

lemma name_valid_c_str: "name_valid nm \<Longrightarrow> c_str nm = nm"
  using c_str_dotted [of "split_dots nm"] by (simp add: name_valid_def name_ok_def dotted_split)

lemma name_valid_length: "name_valid nm \<Longrightarrow> length nm < MAXDNAME"
  by (simp add: name_valid_def name_ok_def dotted_split)

lemma ReadLabel_ahead [vread_simps]:
  assumes "ahead bb (wire_name nm @ rest)" and "name_valid nm"
  shows "ReadLabel bb = Ret (nm, adv bb (length nm + 2))"
proof -
  let ?ls = "split_dots nm"
  from ahead_drop [OF assms(1)] obtain rest' where "drop (bb_pos bb) (message bb) = name_bytes ?ls @ rest'"
    by (auto simp: wire_name_def)
  moreover from assms(2) have "list_all label_ok ?ls" "length (dotted ?ls) \<le> MAXDNAME"
    by (auto simp: name_valid_def name_ok_def)
  ultimately show ?thesis
    using ReadLabel_spelled [of bb 0 ?ls, OF spelled_name_of_bytes] assms(1)
      length_wire_name [of nm, unfolded wire_name_def]
    by (simp add: ahead_def dotted_split)
qed

lemma WriteLabel_name [wbuf_simps]:
  assumes "name_valid nm" and "length nm + 2 < k"
  shows "WriteLabel nm (wbuf xs k) = Ret (wbuf (xs @ wire_name nm) (k - (length nm + 2)))"
  using WriteLabel_wbuf [of nm k xs] assms name_valid_c_str [OF assms(1)]
  by (simp add: wire_name_def name_bytes_wire)

definition question_bytes :: "'a DnsQuestion_scheme \<Rightarrow> byte list" where
  "question_bytes q = wire_name (Name q) @ bytes16 (Type q) @ bytes16 (Class q)"

lemma length_question_bytes [simp]: "length (question_bytes q) = length (Name q) + 6"
  by (simp add: question_bytes_def)

lemma DnsQuestion_Write_wbuf [wbuf_simps]:
  assumes "name_valid (Name q)" and "length (Name q) + 6 \<le> k"
  shows "DnsQuestion_Write q (wbuf xs k) =
     Ret (wbuf (xs @ question_bytes q) (k - (length (Name q) + 6)))"
  using assms
  by (simp add: DnsQuestion_Write_def question_bytes_def WriteLabel_name WRITE_U16_wbuf
      eval_nat_numeral)

lemma DnsQuestion_Read_ahead [vread_simps]:
  assumes "ahead bb (question_bytes q @ rest)" and "name_valid (Name q)"
  shows "DnsQuestion_Read bb =
     Ret (\<lparr>Start = bb_pos bb, Name = Name q, Type = Type q, Class = Class q\<rparr>,
          adv bb (length (Name q) + 6))"
proof -
  let ?n = "length (Name q) + 2"
  from assms(1) have 0: "ahead bb (wire_name (Name q) @ bytes16 (Type q) @ bytes16 (Class q) @ rest)"
    by (simp add: question_bytes_def)
  then have 1: "ahead (adv bb ?n) (bytes16 (Type q) @ bytes16 (Class q) @ rest)"
    by (simp add: ahead_append)
  note 2 = ahead_step(2) [OF 1]
  show ?thesis
    using ReadLabel_ahead [OF 0 assms(2)] VREAD_U16_ahead [OF 1] VREAD_U16_ahead [OF 2]
    by (simp add: DnsQuestion_Read_def eval_nat_numeral)
qed

lemma ReadLabel_Undef:
  assumes "ReadLabel bb = Undef u" and "bb_wf bb"
  shows "u = StorageUnderflow \<or> (u = StorageOverflow \<and> MAXDNAME < MAX_JUMPS * bb_size bb)"
proof -
  from assms obtain c bb1 where c: "VREAD_U8 bb = Ret (c, bb1)"
    and "ReadLabel_loop bb1 c 0 0 [] = Undef u"
    using VREAD_defined(1) [OF assms(2)]
    by (cases "VREAD_U8 bb") (auto simp: ReadLabel_def split: if_splits)
  with ReadLabel_loop_Undef [of bb1 c 0 0 "[]" u] VREAD_U8_RetD [OF c] assms(2) show ?thesis
    by auto
qed

lemma ReadLabel_Ret_frame:
  assumes "ReadLabel bb = Ret (nm, bb')" and "bb_wf bb"
  shows "\<exists>p. bb' = bb\<lparr>bb_pos := p\<rparr>"
proof -
  from assms obtain c bb1 where c: "VREAD_U8 bb = Ret (c, bb1)"
    and "(if c = 0 then Ret ([], bb1) else ReadLabel_loop bb1 c 0 0 []) = Ret (nm, bb')"
    by (auto simp: ReadLabel_def outcome_simps)
  with VREAD_U8_RetD [OF c] assms(2) show ?thesis
    by (auto split: if_splits dest!: ReadLabel_loop_sound [where p = "bb_pos bb"])
qed

lemma ReadLabel_reader [reader_intros]: "wire_reader ReadLabel"
proof
  fix bb :: PacketBuffer
  assume wf: "bb_wf bb"
  show "\<exists>p. bb' = bb\<lparr>bb_pos := p\<rparr>" if "ReadLabel bb = Ret (nm, bb')" for nm bb'
    using that wf by (rule ReadLabel_Ret_frame)
  show "reader_ub u bb" if "ReadLabel bb = Undef u" for u
    using ReadLabel_Undef [OF that wf] by (auto simp: reader_ub_def)
qed

lemma DnsQuestion_reader [reader_intros]: "wire_reader DnsQuestion_Read"
  unfolding DnsQuestion_Read_def
  by (rule reader_pos [where r = "\<lambda>n bb. obind (ReadLabel bb) (\<lambda>(nm, bb1).
        obind (VREAD_U16 bb1) (\<lambda>(ty, bb2). obind (VREAD_U16 bb2) (\<lambda>(cl, bb3).
        Ret (\<lparr>Start = n, Name = nm, Type = ty, Class = cl\<rparr>, bb3))))"])
    (intro reader_intros)

interpretation question_codec: wire_codec DnsQuestion_Read DnsQuestion_Write question_bytes
  "\<lambda>q. q\<lparr>Start := 0\<rparr>" "\<lambda>q. name_valid (Name q)"
proof (intro wire_codec.intro wire_codec_axioms.intro DnsQuestion_reader)
  fix q :: DnsQuestion and bb rest
  assume "name_valid (Name q)" "ahead bb (question_bytes q @ rest)"
  then show "\<exists>y. DnsQuestion_Read bb = Ret (y, adv bb (length (question_bytes q))) \<and>
      y\<lparr>Start := 0\<rparr> = q\<lparr>Start := 0\<rparr>"
    by (simp add: DnsQuestion_Read_ahead)
qed (simp add: DnsQuestion_Write_wbuf)

lemma ReadLabel_loop_length:
  "ReadLabel_loop bb c jumps sv st = Ret (nm, bb') \<Longrightarrow> length st \<le> MAXDNAME \<Longrightarrow> length nm < MAXDNAME"
proof (induction bb c jumps sv st rule: ReadLabel_loop.induct)
  case (1 bb c jumps sv st)
  consider (root) "\<not> (c \<noteq> 0 \<and> jumps < MAX_JUMPS)"
    | (ptr) "c \<noteq> 0" "jumps < MAX_JUMPS" "c AND 0xc0 = 0xc0"
    | (label) "c \<noteq> 0" "jumps < MAX_JUMPS" "c AND 0xc0 \<noteq> 0xc0" by blast
  then show ?case
  proof cases
    case root
    with "1.prems" show ?thesis by (cases st) (auto simp: ReadLabel_loop.simps [of bb] split: if_splits)
  next
    case ptr
    from "1.prems"(1) ptr obtain d bb1 c' bb2 where d: "VREAD_U8 bb = Ret (d, bb1)"
      and t: "\<not> bb_size bb1 \<le> unat (be16 (c XOR 0xc0) d)"
      and c': "VREAD_U8 (bb1\<lparr>bb_pos := unat (be16 (c XOR 0xc0) d)\<rparr>) = Ret (c', bb2)"
      and rec: "ReadLabel_loop bb2 c' (jumps + 1) (bb_pos bb1) st = Ret (nm, bb')"
      by (auto simp: ReadLabel_loop.simps [of bb] outcome_simps Let_def split: if_splits)
    from "1.IH"(1) [OF _ ptr(3) d refl refl t c' refl rec] ptr "1.prems"(2) show ?thesis by blast
  next
    case label
    from "1.prems"(1) label obtain st1 bb1 st2 c' bb2 where n: "\<not> bb_size bb \<le> bb_pos bb + unat c"
      and bits: "\<not> (c AND 0x40 = 0x40 \<or> c AND 0x80 = 0x80)"
      and cp: "copy_label (unat c) bb st = Ret (st1, bb1)" and s2: "store st1 DOT = Ret st2"
      and c': "VREAD_U8 bb1 = Ret (c', bb2)"
      and rec: "ReadLabel_loop bb2 c' jumps sv st2 = Ret (nm, bb')"
      by (auto simp: ReadLabel_loop.simps [of bb] outcome_simps split: if_splits)
    have "length st2 \<le> MAXDNAME" using s2 by (auto simp: store_def split: if_splits)
    with "1.IH"(2) [OF _ label(3) bits n cp refl s2 c' refl rec] label show ?thesis by blast
  qed
qed

lemma ReadLabel_sound:
  assumes "ReadLabel bb = Ret (nm, bb')" and "bb_wf bb"
  shows "\<exists>j ls e r. spelled_name (message bb) (bb_pos bb) j ls e r \<and> j < MAX_JUMPS \<and> length (dotted ls) \<le> MAXDNAME \<and>
     (ls = [] \<longrightarrow> j = 0) \<and> nm = butlast (dotted ls) \<and> bb' = bb\<lparr>bb_pos := if j = 0 then e else r\<rparr>"
proof -
  from assms obtain c bb1 where v: "VREAD_U8 bb = Ret (c, bb1)"
    and res: "(if c = 0 then Ret ([], bb1) else ReadLabel_loop bb1 c 0 0 []) = Ret (nm, bb')"
    by (auto simp: ReadLabel_def outcome_simps)
  from VREAD_U8_RetD [OF v] have p: "bb_pos bb < bb_size bb" and bb1: "bb1 = adv bb 1"
    and c: "c = bb_buf bb ! bb_pos bb" by auto
  show ?thesis
  proof (cases "c = 0")
    case True
    with p c assms(2) have "spelled_name (message bb) (bb_pos bb) 0 [] (bb_pos bb + 1) (bb_pos bb + 1)"
      by (intro name_root) (auto simp: bb_wf_def)
    moreover from True res bb1 have "nm = butlast (dotted [])" "bb' = adv bb 1" by auto
    ultimately show ?thesis by force
  next
    case False
    with res bb1 ReadLabel_loop_sound [of bb1 c 0 0 "[]" nm bb' "bb_pos bb"] assms(2) p c
    obtain j ls e r where n: "spelled_name (message bb) (bb_pos bb) j ls e r" "j < MAX_JUMPS" "dotted ls \<noteq> []"
      "nm = butlast (dotted ls)" "bb' = bb\<lparr>bb_pos := if j = 0 then e else r\<rparr>"
      by auto
    have "length nm < MAXDNAME" using False res by (intro ReadLabel_loop_length [of bb1 c 0 0 "[]" nm bb']) simp_all
    with n(3,4) have "length (dotted ls) \<le> MAXDNAME" "ls \<noteq> []" by auto
    with n show ?thesis by blast
  qed
qed

lemma spelled_name_flat: "spelled_name m p j ls e r \<Longrightarrow> j \<le> 1 \<Longrightarrow> (if j = 0 then e else r) = e"
  by (induction rule: spelled_name.induct) auto

lemma spelled_name_root_ptr:
  "spelled_name m p j [] e r \<Longrightarrow> 0 < j \<Longrightarrow> p + 1 < length m \<and> m ! p \<noteq> 0"
  by (erule spelled_name_rootE) auto

lemma ReadLabel_loop_root:
  assumes "spelled_name m p j ls e r" and "ls = []" and "bb_wf bb" and "jumps + j < MAX_JUMPS"
    and "bb_pos bb = p + 1" and "m = message bb"
  shows "ReadLabel_loop bb (bb_buf bb ! p) jumps sv [] = Undef StorageUnderflow"
  using assms
proof (induction p j ls e r arbitrary: bb jumps sv rule: spelled_name.induct)
  case (name_root p)
  then show ?case by (simp add: ReadLabel_loop.simps [of bb])
next
  case (name_ptr p t j ls e r)
  have p: "p + 1 < bb_size bb" and wf: "bb_wf bb" and pos: "bb_pos bb = p + 1"
    and m: "m = message bb" using name_ptr by auto
  from name_ptr(2) p m have c: "bb_buf bb ! p AND 0xc0 = 0xc0" "bb_buf bb ! p \<noteq> 0" by auto
  from name_ptr(3) p m have t: "t = unat (be16 (bb_buf bb ! p XOR 0xc0) (bb_buf bb ! (p + 1)))" by simp
  from name_ptr(4) m have ts: "t < bb_size bb" by (auto elim: spelled_name.cases)
  let ?bb = "bb\<lparr>bb_pos := t + 1\<rparr>"
  have "ReadLabel_loop ?bb (bb_buf ?bb ! t) (jumps + 1) (p + 2) [] = Undef StorageUnderflow"
    using name_ptr by (intro name_ptr(5)) auto
  moreover have "VREAD_U8 bb = Ret (bb_buf bb ! (p + 1), bb\<lparr>bb_pos := p + 2\<rparr>)"
    using VREAD_U8_at [OF wf p pos] pos by simp
  moreover have "VREAD_U8 (bb\<lparr>bb_pos := t\<rparr>) = Ret (bb_buf bb ! t, ?bb)"
    using VREAD_U8_at [of "bb\<lparr>bb_pos := t\<rparr>" t] wf ts by simp
  ultimately show ?case
    using c ts name_ptr.prems(3) by (simp add: ReadLabel_loop.simps [of bb] t Let_def)
qed simp

section \<open>A sample message\<close>

text \<open>
  Offset 0: the name \<open>a\<close>; offset 3: \<open>b\<close> and a pointer to 0; offset 7: a pointer to 3; offset 9: a
  pointer to the root at 2; two spare bytes.
\<close>

definition sample :: "nat \<Rightarrow> PacketBuffer" where
  "sample p = \<lparr>bb_buf = [1, 97, 0, 1, 98, 0xc0, 0, 0xc0, 3, 0xc0, 2, 0, 0], bb_pos = p,
     bb_size = 11, bb_udp = 0\<rparr>"

lemma sample_sel [simp]:
  "message (sample p) = [1, 97, 0, 1, 98, 0xc0, 0, 0xc0, 3, 0xc0, 2]" "bb_wf (sample p)"
  "bb_pos (sample p) = p"
  by (simp_all add: sample_def bb_wf_def)

lemma spelled_sample:
  shows "spelled_name (message (sample p)) 0 0 [[97]] 3 3"
    and "spelled_name (message (sample p)) 3 1 [[98], [97]] 7 7"
    and "spelled_name (message (sample p)) 7 2 [[98], [97]] 9 7"
    and "spelled_name (message (sample p)) 9 1 [] 11 11"
proof -
  let ?m = "[1, 97, 0, 1, 98, 0xc0, 0, 0xc0, 3, 0xc0, 2] :: byte list"
  have t: "unat (be16 0 0) = 0" "unat (be16 0 2) = 2" "unat (be16 0 3) = 3"
    by code_simp+
  have root: "spelled_name ?m 2 0 [] 3 3" using name_root [of 2 ?m] by simp
  have a: "spelled_name ?m 0 0 [[97]] 3 3"
    by (rule name_label [of 0 ?m "[97]" 0 "[]" 3 3]) (use root in \<open>simp_all flip: numeral_2_eq_2\<close>)
  have ab: "spelled_name ?m 5 1 [[97]] 7 7"
    using name_ptr [of 5 ?m 0 0 "[[97]]" 3 3] a t by simp
  have b: "spelled_name ?m 3 1 [[98], [97]] 7 7"
    by (rule name_label [of 3 ?m "[98]" 1 "[[97]]" 7 7]) (use ab in simp_all)
  have "spelled_name ?m 7 (Suc 1) [[98], [97]] (7 + 2) (if (1::nat) = 0 then 7 + 2 else 7)"
    by (rule name_ptr [OF _ _ _ b]) (use t in simp_all)
  then have "spelled_name ?m 7 2 [[98], [97]] 9 7" by (simp add: Suc_1 [unfolded One_nat_def])
  moreover have "spelled_name ?m 9 (Suc 0) [] (9 + 2) (if (0::nat) = 0 then 9 + 2 else 3)"
    by (rule name_ptr [OF _ _ _ root]) (use t in simp_all)
  then have "spelled_name ?m 9 1 [] 11 11" by simp
  ultimately show "spelled_name (message (sample p)) 0 0 [[97]] 3 3"
    "spelled_name (message (sample p)) 3 1 [[98], [97]] 7 7"
    "spelled_name (message (sample p)) 7 2 [[98], [97]] 9 7" "spelled_name (message (sample p)) 9 1 [] 11 11"
    unfolding sample_sel using a b by -
qed

section \<open>Properties\<close>

text \<open>
  Reading a name. Where the message spells a name with at least one label at the read position,
  through at most one compression pointer, and its dotted form fits the storage, \<open>ReadLabel\<close> returns
  that dotted form and leaves the position behind the name.
\<close>

theorem ReadLabel_decodes_name:
  assumes "spelled_name (message bb) (bb_pos bb) j ls e r" and "j \<le> 1" and "bb_wf bb"
    and "ls \<noteq> []" and "length (dotted ls) \<le> MAXDNAME"
  shows "ReadLabel bb = Ret (butlast (dotted ls), bb\<lparr>bb_pos := e\<rparr>)"
  using ReadLabel_spelled [OF assms(1,3)] spelled_name_flat [OF assms(1,2)] assms(2,4,5) by simp

theorem ReadLabel_decodes_name_witness:
  "ReadLabel (sample 3) = Ret ([98, 46, 97], (sample 3)\<lparr>bb_pos := 7\<rparr>)"
  using ReadLabel_decodes_name [of "sample 3" 1 "[[98], [97]]" 7 7] spelled_sample(2) [of 3]
  by (simp add: dotted_def)

text \<open>
  C25: exactly which names \<open>ReadLabel\<close> reads. It succeeds with a name if and only if the labels and compression
  pointers at the read position spell that name through fewer than five pointers, its dotted form fits the
  storage of 1025 bytes, and it is not the root name behind a pointer. The position left is the end of the name
  when there was no pointer, and otherwise the one after the last pointer followed.
\<close>

theorem ReadLabel_reads_iff:
  assumes "bb_wf bb"
  shows "ReadLabel bb = Ret (nm, bb') \<longleftrightarrow>
     (\<exists>j ls e r. spelled_name (message bb) (bb_pos bb) j ls e r \<and> j < MAX_JUMPS \<and> length (dotted ls) \<le> MAXDNAME \<and>
        (ls = [] \<longrightarrow> j = 0) \<and> nm = butlast (dotted ls) \<and> bb' = bb\<lparr>bb_pos := if j = 0 then e else r\<rparr>)"
proof
  show "ReadLabel bb = Ret (nm, bb')"
    if "\<exists>j ls e r. spelled_name (message bb) (bb_pos bb) j ls e r \<and> j < MAX_JUMPS \<and> length (dotted ls) \<le> MAXDNAME \<and>
        (ls = [] \<longrightarrow> j = 0) \<and> nm = butlast (dotted ls) \<and> bb' = bb\<lparr>bb_pos := if j = 0 then e else r\<rparr>"
  proof -
    from that obtain j ls e r where n: "spelled_name (message bb) (bb_pos bb) j ls e r" "j < MAX_JUMPS"
      "length (dotted ls) \<le> MAXDNAME" "ls = [] \<Longrightarrow> j = 0" "nm = butlast (dotted ls)"
      "bb' = bb\<lparr>bb_pos := if j = 0 then e else r\<rparr>" by blast
    show ?thesis
    proof (cases "ls = []")
      case True
      with n(1,4) have "spelled_name (message bb) (bb_pos bb) 0 [] e r" by simp
      then have "bb_pos bb < bb_size bb" "message bb ! bb_pos bb = 0" "e = bb_pos bb + 1"
        by (auto elim: spelled_name_rootE)
      with VREAD_U8_at [OF assms, of "bb_pos bb"] n(4-6) True show ?thesis by (simp add: ReadLabel_def)
    qed (use ReadLabel_spelled [OF n(1) assms n(2) _ n(3)] n(5,6) in simp)
  qed
qed (rule ReadLabel_sound [OF _ assms])

theorem ReadLabel_reads_iff_witness:
  "\<exists>j ls e r. spelled_name (message (sample 7)) (bb_pos (sample 7)) j ls e r \<and> j < MAX_JUMPS \<and> length (dotted ls) \<le> MAXDNAME \<and>
     (ls = [] \<longrightarrow> j = 0) \<and> [98, 46, 97] = butlast (dotted ls) \<and>
     (sample 7)\<lparr>bb_pos := 7\<rparr> = (sample 7)\<lparr>bb_pos := if j = 0 then e else r\<rparr>"
proof -
  have "ReadLabel (sample 7) = Ret ([98, 46, 97], (sample 7)\<lparr>bb_pos := 7\<rparr>)" by code_simp
  moreover have "bb_wf (sample 7)" by simp
  ultimately show ?thesis by (simp only: ReadLabel_reads_iff)
qed

text \<open>
  Two rules of RFC 1035 that are not checked. A pointer forwards in the message is followed, and a name of more
  than 255 octets is read.
\<close>

theorem ReadLabel_beyond_rfc:
  "\<exists>bb nm bb'. bb_wf bb \<and> bb_pos bb < unat (bb_buf bb ! (bb_pos bb + 1)) \<and> bb_buf bb ! bb_pos bb = 0xc0 \<and> ReadLabel bb = Ret (nm, bb')"
  "\<exists>bb nm bb'. bb_wf bb \<and> ReadLabel bb = Ret (nm, bb') \<and> 255 < length nm"
proof -
  let ?bb = "\<lparr>bb_buf = [0xc0, 2, 1, 97, 0], bb_pos = 0, bb_size = 5, bb_udp = 0\<rparr>"
  have "ReadLabel ?bb = Ret ([97], ?bb\<lparr>bb_pos := 2\<rparr>)" by code_simp
  then show "\<exists>bb nm bb'. bb_wf bb \<and> bb_pos bb < unat (bb_buf bb ! (bb_pos bb + 1)) \<and> bb_buf bb ! bb_pos bb = 0xc0 \<and>
      ReadLabel bb = Ret (nm, bb')"
    by (intro exI [of _ ?bb] exI [of _ "[97]"] exI [of _ "?bb\<lparr>bb_pos := 2\<rparr>"]) (simp add: bb_wf_def)
  let ?l = "replicate 60 (97 :: byte)"
  let ?bs = "name_bytes [?l, ?l, ?l, ?l, ?l]"
  let ?bb = "\<lparr>bb_buf = ?bs, bb_pos = 0, bb_size = 306, bb_udp = 0\<rparr>"
  have len: "length ?bs = 306" by (simp add: name_bytes_def label_bytes_def)
  have ok: "list_all label_ok [?l, ?l, ?l, ?l, ?l]" by (simp add: label_ok_def)
  have "message ?bb = ?bs" using len by simp
  then have "spelled_name (message ?bb) (bb_pos ?bb) 0 [?l, ?l, ?l, ?l, ?l] 306 306"
    using spelled_name_of_bytes [OF ok, of 0 ?bs "[]"] len by simp
  from ReadLabel_spelled [OF this] len show "\<exists>bb nm bb'. bb_wf bb \<and> ReadLabel bb = Ret (nm, bb') \<and> 255 < length nm"
    by (intro exI [of _ ?bb] exI [of _ "butlast (dotted [?l, ?l, ?l, ?l, ?l])"] exI [of _ "?bb\<lparr>bb_pos := 306\<rparr>"])
      (simp add: bb_wf_def dotted_def)
qed

text \<open>
  A pointer that leads to the root name makes \<open>ReadLabel\<close> store one byte in front of its storage.
\<close>

theorem ReadLabel_pointer_to_root:
  assumes "spelled_name (message bb) (bb_pos bb) j [] e r" and "0 < j" and "j < MAX_JUMPS" and "bb_wf bb"
  shows "ReadLabel bb = Undef StorageUnderflow"
proof -
  from spelled_name_root_ptr [OF assms(1,2)] have p: "bb_pos bb < bb_size bb" and "message bb ! bb_pos bb \<noteq> 0"
    by auto
  then have c: "bb_buf bb ! bb_pos bb \<noteq> 0" by simp
  have "ReadLabel_loop (adv bb 1) (bb_buf (adv bb 1) ! bb_pos bb) 0 0 [] = Undef StorageUnderflow"
    using assms(3,4) by (intro ReadLabel_loop_root [OF assms(1) refl]) simp_all
  with VREAD_U8_at [OF assms(4) p refl] c show ?thesis by (simp add: ReadLabel_def)
qed

theorem ReadLabel_pointer_to_root_witness:
  "ReadLabel (sample 9) = Undef StorageUnderflow"
  using ReadLabel_pointer_to_root [of "sample 9" 1 11 11] spelled_sample(4) [of 9] by simp

text \<open>
  With nested pointers the position after the name is lost. There is a message in which a name
  ends at \<open>e\<close>, and \<open>ReadLabel\<close> returns the right name but leaves the position before \<open>e\<close>.
\<close>

theorem ReadLabel_nested_pointer_position:
  "\<exists>bb j ls e r. spelled_name (message bb) (bb_pos bb) j ls e r \<and>
     ReadLabel bb = Ret (butlast (dotted ls), bb\<lparr>bb_pos := r\<rparr>) \<and> r < e"
proof (intro exI conjI)
  show "spelled_name (message (sample 7)) (bb_pos (sample 7)) 2 [[98], [97]] 9 7"
    using spelled_sample(3) [of 7] by simp
  then show "ReadLabel (sample 7) = Ret (butlast (dotted [[98], [97]]), (sample 7)\<lparr>bb_pos := 7\<rparr>)"
    using ReadLabel_spelled [of "sample 7" 2 "[[98], [97]]" 9 7] by (simp add: dotted_def)
qed simp

text \<open>
  Writing a name. \<open>WriteLabel\<close> on a zeroed buffer with room appends, for every dot-separated part
  of the C string, its length byte and its bytes, and then a zero byte. For the empty name this is two
  zero bytes, where RFC 1035 has one.
\<close>

theorem WriteLabel_appends_wire_name:
  assumes "length (c_str nm) + 3 \<le> k"
  shows "WriteLabel nm (wbuf xs k) =
     Ret (wbuf (xs @ name_bytes (split_dots (c_str nm))) (k - (length (c_str nm) + 2)))"
  using WriteLabel_wbuf [OF assms] by (simp add: name_bytes_wire)

theorem WriteLabel_appends_wire_name_witness:
  "WriteLabel [98, 46, 97] (wbuf [] 20) = Ret (wbuf [1, 98, 1, 97, 0] 15) \<and>
   WriteLabel [] (wbuf [] 20) = Ret (wbuf [0, 0] 18)"
  using WriteLabel_appends_wire_name [of "[98, 46, 97]" 20 "[]"]
    WriteLabel_appends_wire_name [of "[]" 20 "[]"]
  by (simp add: c_str_def name_bytes_def label_bytes_def)

end
