(* ===== verification/Dns_Record.thy ===== *)
theory Dns_Record
  imports Dns_Question
begin

text \<open>
  \<^verbatim>\<open>include/dns/dnsrecord.hpp\<close> and \<^verbatim>\<open>src/dns/dnsrecord.cpp\<close>: resource records.

  The anonymous union \<open>Address\<close> is a datatype that remembers which member was written last;
  \<open>AddrZero\<close> is the all-zero state of a value-initialised record. Reading another member than the
  one written is undefined, reading any member of the zeroed union gives zeros.
\<close>

datatype DnsRecordType = Answer | Authority | Additional

datatype Address =
    AddrZero
  | AddrIpv4 u32
  | AddrNS "byte list"
  | AddrCName "byte list"
  | AddrMX u16 "byte list"
  | AddrIpv6 u32 u32 u32 u32
  | AddrOpt "byte list option"

record DnsRecord = DnsQuestion +
  RecordType :: DnsRecordType
  TTL :: u32
  Len :: u16
  Addr :: Address

definition GetExtendedRcode :: "DnsRecord \<Rightarrow> byte" where
  "GetExtendedRcode r = ucast (drop_bit 24 (TTL r))"

definition GetDoBit :: "DnsRecord \<Rightarrow> bool" where
  "GetDoBit r \<longleftrightarrow> TTL r AND 0x8000 > 1"

definition GetAdBit :: "DnsRecord \<Rightarrow> bool" where
  "GetAdBit r \<longleftrightarrow> TTL r AND 0x2000 > 1"

definition UpdateFromQuestion :: "DnsQuestion \<Rightarrow> DnsRecord \<Rightarrow> DnsRecord" where
  "UpdateFromQuestion q r =
     r\<lparr>Start := Start q, Type := Type q, Class := Class q, Name := c_str (Name q)\<rparr>"

section \<open>Read\<close>

text \<open>The octets of a pseudo record, one \<open>VREAD_BYTE\<close> each.\<close>

fun read_octets :: "nat \<Rightarrow> PacketBuffer \<Rightarrow> (byte list \<times> PacketBuffer) outcome" where
  "read_octets 0 bb = Ret ([], bb)"
| "read_octets (Suc n) bb =
     obind (VREAD_U8 bb) (\<lambda>(b, bb). obind (read_octets n bb) (\<lambda>(bs, bb). Ret (b # bs, bb)))"

definition read_address ::
  "u16 \<Rightarrow> DnsRecordType \<Rightarrow> u16 \<Rightarrow> PacketBuffer \<Rightarrow> (Address \<times> PacketBuffer) outcome" where
  "read_address ty rt len bb =
     (if ty = QT_A then obind (VREAD_U32 bb) (\<lambda>(n, bb). Ret (AddrIpv4 n, bb))
      else if ty = QT_NS then obind (ReadLabel bb) (\<lambda>(nm, bb). Ret (AddrNS nm, bb))
      else if ty = QT_CNAME then obind (ReadLabel bb) (\<lambda>(nm, bb). Ret (AddrCName nm, bb))
      else if ty = QT_MX then
        obind (VREAD_U16 bb) (\<lambda>(pr, bb).
        obind (ReadLabel bb) (\<lambda>(nm, bb). Ret (AddrMX pr nm, bb)))
      else if ty = QT_AAAA then
        obind (VREAD_U32 bb) (\<lambda>(n1, bb).
        obind (VREAD_U32 bb) (\<lambda>(n2, bb).
        obind (VREAD_U32 bb) (\<lambda>(n3, bb).
        obind (VREAD_U32 bb) (\<lambda>(n4, bb). Ret (AddrIpv6 n1 n2 n3 n4, bb)))))
      else if ty = QT_OPT then
        if rt \<noteq> Additional then Fail E_FORMERR
        else if len > 0 then
          obind (read_octets (unat len) bb) (\<lambda>(bs, bb). Ret (AddrOpt (Some bs), bb))
        else Ret (AddrOpt None, bb)
      else Fail E_SERVFAIL)"

text \<open>Each \<open>ReadLabel\<close> leaves the position it started from in \<open>Start\<close>, also one in the record data.\<close>

definition last_start :: "u16 \<Rightarrow> nat \<Rightarrow> nat \<Rightarrow> nat" where
  "last_start ty st pos =
     (if ty = QT_NS \<or> ty = QT_CNAME then pos else if ty = QT_MX then pos + 2 else st)"

definition DnsRecord_Read ::
  "DnsRecordType \<Rightarrow> PacketBuffer \<Rightarrow> (DnsRecord \<times> PacketBuffer) outcome" where
  "DnsRecord_Read rt bb =
     obind (DnsQuestion_Read bb) (\<lambda>(q, bb).
     obind (VREAD_U32 bb) (\<lambda>(ttl, bb).
     obind (VREAD_U16 bb) (\<lambda>(len, bb).
     obind (read_address (Type q) rt len bb) (\<lambda>(a, bb').
     Ret (\<lparr>Start = last_start (Type q) (Start q) (bb_pos bb), Name = Name q, Type = Type q, Class = Class q,
           RecordType = rt, TTL = ttl, Len = len, Addr = a\<rparr>, bb')))))"

section \<open>Validate\<close>

definition DnsRecord_Validate :: "PacketType \<Rightarrow> DnsRecord \<Rightarrow> nat" where
  "DnsRecord_Validate pt r =
     (let code = DnsQuestion_Validate pt r in
      if code \<noteq> E_NOERROR then code
      else if Type r = QT_A \<and> Len r \<noteq> 4 then E_FORMERR
      else if Type r = QT_AAAA \<and> Len r \<noteq> 16 then E_FORMERR
      else E_NOERROR)"

section \<open>Write\<close>

text \<open>Reading the members of the union.\<close>

definition get_Ipv4 :: "Address \<Rightarrow> u32 outcome" where
  "get_Ipv4 a = (case a of AddrIpv4 n \<Rightarrow> Ret n | AddrZero \<Rightarrow> Ret 0 | _ \<Rightarrow> Undef UnionMismatch)"

definition get_NS :: "Address \<Rightarrow> byte list outcome" where
  "get_NS a = (case a of AddrNS nm \<Rightarrow> Ret nm | AddrZero \<Rightarrow> Ret [] | _ \<Rightarrow> Undef UnionMismatch)"

definition get_CName :: "Address \<Rightarrow> byte list outcome" where
  "get_CName a = (case a of AddrCName nm \<Rightarrow> Ret nm | AddrZero \<Rightarrow> Ret [] | _ \<Rightarrow> Undef UnionMismatch)"

definition get_MX :: "Address \<Rightarrow> (u16 \<times> byte list) outcome" where
  "get_MX a = (case a of AddrMX pr nm \<Rightarrow> Ret (pr, nm) | AddrZero \<Rightarrow> Ret (0, []) | _ \<Rightarrow> Undef UnionMismatch)"

definition get_Ipv6 :: "Address \<Rightarrow> (u32 \<times> u32 \<times> u32 \<times> u32) outcome" where
  "get_Ipv6 a = (case a of AddrIpv6 n1 n2 n3 n4 \<Rightarrow> Ret (n1, n2, n3, n4) | AddrZero \<Rightarrow> Ret (0, 0, 0, 0)
     | _ \<Rightarrow> Undef UnionMismatch)"

definition write_address :: "u16 \<Rightarrow> Address \<Rightarrow> PacketBuffer \<Rightarrow> PacketBuffer outcome" where
  "write_address ty a bb =
     (if ty = QT_A then obind (get_Ipv4 a) (\<lambda>n. WRITE_U32 bb n)
      else if ty = QT_NS then obind (get_NS a) (\<lambda>nm. WriteLabel nm bb)
      else if ty = QT_CNAME then obind (get_CName a) (\<lambda>nm. WriteLabel nm bb)
      else if ty = QT_MX then
        obind (get_MX a) (\<lambda>(pr, nm). obind (WRITE_U16 bb pr) (\<lambda>bb. WriteLabel nm bb))
      else if ty = QT_AAAA then
        obind (get_Ipv6 a) (\<lambda>(n1, n2, n3, n4).
        obind (WRITE_U32 bb n1) (\<lambda>bb.
        obind (WRITE_U32 bb n2) (\<lambda>bb.
        obind (WRITE_U32 bb n3) (\<lambda>bb.
        WRITE_U32 bb n4))))
      else Ret bb)"

definition DnsRecord_Write :: "DnsRecord \<Rightarrow> PacketBuffer \<Rightarrow> PacketBuffer outcome" where
  "DnsRecord_Write r bb =
     obind (DnsQuestion_Write r bb) (\<lambda>bb.
     obind (WRITE_U32 bb (TTL r)) (\<lambda>bb.
     obind (WRITE_U16 bb (Len r)) (\<lambda>bb.
     write_address (Type r) (Addr r) bb)))"

section \<open>Wire format and well-formedness\<close>

text \<open>The record data of RFC 1035, section 3.2.1, for the types the code knows.\<close>

fun rdata :: "Address \<Rightarrow> byte list" where
  "rdata AddrZero = []"
| "rdata (AddrIpv4 n) = bytes32 n"
| "rdata (AddrNS nm) = wire_name nm"
| "rdata (AddrCName nm) = wire_name nm"
| "rdata (AddrMX pr nm) = bytes16 pr @ wire_name nm"
| "rdata (AddrIpv6 n1 n2 n3 n4) = bytes32 n1 @ bytes32 n2 @ bytes32 n3 @ bytes32 n4"
| "rdata (AddrOpt bs) = (case bs of None \<Rightarrow> [] | Some bs \<Rightarrow> bs)"

text \<open>The union member agrees with the record's type, with names that have a wire form.\<close>

fun addr_ok :: "u16 \<Rightarrow> Address \<Rightarrow> bool" where
  "addr_ok ty (AddrIpv4 n) = (ty = QT_A)"
| "addr_ok ty (AddrNS nm) = (ty = QT_NS \<and> name_valid nm)"
| "addr_ok ty (AddrCName nm) = (ty = QT_CNAME \<and> name_valid nm)"
| "addr_ok ty (AddrMX pr nm) = (ty = QT_MX \<and> name_valid nm)"
| "addr_ok ty (AddrIpv6 n1 n2 n3 n4) = (ty = QT_AAAA)"
| "addr_ok ty a = False"

definition record_ok :: "DnsRecord \<Rightarrow> bool" where
  "record_ok r \<longleftrightarrow> name_valid (Name r) \<and> addr_ok (Type r) (Addr r)"

definition record_bytes :: "DnsRecord \<Rightarrow> byte list" where
  "record_bytes r = question_bytes r @ bytes32 (TTL r) @ bytes16 (Len r) @ rdata (Addr r)"

text \<open>The resource record data length field counts the bytes that follow it.\<close>

definition rdlength_ok :: "DnsRecord \<Rightarrow> bool" where
  "rdlength_ok r \<longleftrightarrow> unat (Len r) = length (rdata (Addr r))"

section \<open>Lemmas\<close>

lemma length_record_bytes [simp]:
  "length (record_bytes r) = length (Name r) + 12 + length (rdata (Addr r))"
  by (simp add: record_bytes_def)

lemma write_address_wbuf [wbuf_simps]:
  assumes "addr_ok ty a" and "length (rdata a) < k"
  shows "write_address ty a (wbuf xs k) = Ret (wbuf (xs @ rdata a) (k - length (rdata a)))"
  using assms
  by (cases a)
    (auto simp: write_address_def get_Ipv4_def get_NS_def get_CName_def get_MX_def get_Ipv6_def
      WRITE_U32_wbuf WRITE_U16_wbuf WriteLabel_name)

lemma DnsRecord_Write_wbuf [wbuf_simps]:
  assumes "record_ok r" and "length (record_bytes r) < k"
  shows "DnsRecord_Write r (wbuf xs k) =
     Ret (wbuf (xs @ record_bytes r) (k - length (record_bytes r)))"
proof -
  let ?n = "length (Name r)"
  from assms have "name_valid (Name r)" and ok: "addr_ok (Type r) (Addr r)"
    by (simp_all add: record_ok_def)
  with assms(2) have "DnsQuestion_Write r (wbuf xs k) =
      Ret (wbuf (xs @ question_bytes r) (k - (?n + 6)))"
    by (simp add: DnsQuestion_Write_wbuf)
  moreover have "WRITE_U32 (wbuf ys (k - (?n + 6))) v = Ret (wbuf (ys @ bytes32 v) (k - (?n + 10)))"
    for ys v using assms(2) by (simp add: WRITE_U32_wbuf ac_simps)
  moreover have "WRITE_U16 (wbuf ys (k - (?n + 10))) v = Ret (wbuf (ys @ bytes16 v) (k - (?n + 12)))"
    for ys v using assms(2) by (simp add: WRITE_U16_wbuf ac_simps)
  moreover have "write_address (Type r) (Addr r) (wbuf ys (k - (?n + 12))) =
      Ret (wbuf (ys @ rdata (Addr r)) (k - length (record_bytes r)))" for ys
    using write_address_wbuf [OF ok, of "k - (?n + 12)" ys] assms(2) by simp
  ultimately show ?thesis by (simp add: DnsRecord_Write_def record_bytes_def)
qed

lemma read_address_MX:
  "read_address QT_MX rt len bb = obind (VREAD_U16 bb) (\<lambda>(pr, bb).
     obind (ReadLabel bb) (\<lambda>(nm, bb). Ret (AddrMX pr nm, bb)))"
  by (simp add: read_address_def)

lemma read_address_ahead [vread_simps]:
  assumes "ahead bb (rdata a @ rest)" and "addr_ok ty a"
  shows "read_address ty rt len bb = Ret (a, adv bb (length (rdata a)))"
proof (cases a)
  case (AddrMX pr nm)
  with assms have 0: "ahead bb (bytes16 pr @ wire_name nm @ rest)" and nm: "name_valid nm" by auto
  note 1 = ahead_step(2) [OF 0]
  from AddrMX assms VREAD_U16_ahead [OF 0] ReadLabel_ahead [OF 1 nm] show ?thesis
    by (simp add: read_address_MX ac_simps)
next
  case (AddrIpv6 n1 n2 n3 n4)
  with assms have 0: "ahead bb (bytes32 n1 @ bytes32 n2 @ bytes32 n3 @ bytes32 n4 @ rest)" by simp
  note 1 = ahead_step(3) [OF 0]
  note 2 = ahead_step(3) [OF 1]
  note 3 = ahead_step(3) [OF 2]
  from AddrIpv6 assms VREAD_U32_ahead [OF 0] VREAD_U32_ahead [OF 1] VREAD_U32_ahead [OF 2]
    VREAD_U32_ahead [OF 3] show ?thesis
    by (simp add: read_address_def)
qed (use assms in \<open>auto simp: read_address_def VREAD_U32_ahead ReadLabel_ahead\<close>)

lemma DnsRecord_Read_ahead [vread_simps]:
  assumes "ahead bb (record_bytes r @ rest)" and "record_ok r"
  shows "\<exists>st. DnsRecord_Read (RecordType r) bb =
     Ret (r\<lparr>Start := st\<rparr>, adv bb (length (record_bytes r)))"
proof -
  from assms(2) have nm: "name_valid (Name r)" and ok: "addr_ok (Type r) (Addr r)"
    by (simp_all add: record_ok_def)
  let ?d = "rdata (Addr r) @ rest" and ?n = "length (Name r)"
  from assms(1) have 0: "ahead bb (question_bytes r @ bytes32 (TTL r) @ bytes16 (Len r) @ ?d)"
    by (simp add: record_bytes_def)
  then have 1: "ahead (adv bb (?n + 6)) (bytes32 (TTL r) @ bytes16 (Len r) @ ?d)"
    by (simp add: ahead_append)
  note 2 = ahead_step(3) [OF 1]
  note 3 = ahead_step(2) [OF 2]
  show ?thesis
    using DnsQuestion_Read_ahead [OF 0 nm] VREAD_U32_ahead [OF 1] VREAD_U16_ahead [OF 2]
      read_address_ahead [OF 3 ok]
    by (cases r) (simp add: DnsRecord_Read_def eval_nat_numeral)
qed

lemma read_octets_reader [reader_intros]: "wire_reader (read_octets n)"
  by (induction n) (auto intro!: reader_intros)

lemma read_address_reader [reader_intros]: "wire_reader (read_address ty rt len)"
  unfolding read_address_def by (intro reader_intros)

lemma record_data_reader:
  "wire_reader (\<lambda>bb. obind (read_address ty rt len bb) (\<lambda>(a, bb'). Ret (f (bb_pos bb) a, bb')))"
  by (rule reader_pos [where r = "\<lambda>n bb. obind (read_address ty rt len bb) (\<lambda>(a, bb'). Ret (f n a, bb'))"])
    (intro reader_intros)

lemma DnsRecord_reader [reader_intros]: "wire_reader (DnsRecord_Read rt)"
proof -
  have "wire_reader (\<lambda>bb. obind (read_address (Type q) rt len bb) (\<lambda>(a, bb').
     Ret (\<lparr>Start = last_start (Type q) (Start q) (bb_pos bb), Name = Name q, Type = Type q, Class = Class q,
           RecordType = rt, TTL = ttl, Len = len, Addr = a\<rparr>, bb')))" for q :: DnsQuestion and ttl len
    by (rule record_data_reader [where f = "\<lambda>n a. \<lparr>Start = last_start (Type q) (Start q) n, Name = Name q,
          Type = Type q, Class = Class q, RecordType = rt, TTL = ttl, Len = len, Addr = a\<rparr>"])
  then show ?thesis unfolding DnsRecord_Read_def by (intro reader_intros) auto
qed

interpretation record_codec: wire_codec "DnsRecord_Read rt" DnsRecord_Write record_bytes
  "\<lambda>r. r\<lparr>Start := 0\<rparr>" "\<lambda>r. record_ok r \<and> RecordType r = rt" for rt
proof (intro wire_codec.intro wire_codec_axioms.intro DnsRecord_reader)
  fix r :: DnsRecord and bb rest
  assume "record_ok r \<and> RecordType r = rt" "ahead bb (record_bytes r @ rest)"
  then show "\<exists>y. DnsRecord_Read rt bb = Ret (y, adv bb (length (record_bytes r))) \<and>
      y\<lparr>Start := 0\<rparr> = r\<lparr>Start := 0\<rparr>"
    using DnsRecord_Read_ahead [of bb r rest] by auto
qed (use DnsRecord_Write_wbuf in blast)

end
