(* ===== verification/Sha256.thy ===== *)
theory Sha256
  imports Prelude
begin

text \<open>
  \<^verbatim>\<open>include/tp/sha256.hpp\<close> and \<^verbatim>\<open>src/tp/sha256.cpp\<close>: the streaming SHA-256 that
  \<open>DnsPacket::Hash\<close> uses to recognise a question. The context is the C struct; \<open>data\<close> is not
  initialised by \<open>sha256_init\<close>, so its old contents are an argument. \<open>datalen\<close> is at most 64 and is
  a natural number; \<open>bitlen\<close> keeps its 64 bits, and the state words and all round arithmetic their 32.

  The reference is the one-shot definition of FIPS 180-4: pad, cut into blocks, compress each.
\<close>

section \<open>The code\<close>

record SHA256_CTX =
  ctx_data :: "byte list"
  datalen :: nat
  bitlen :: u64
  ctx_state :: "u32 list"

definition ROTRIGHT :: "u32 \<Rightarrow> nat \<Rightarrow> u32" where
  "ROTRIGHT a b = drop_bit b a OR push_bit (32 - b) a"

definition CH :: "u32 \<Rightarrow> u32 \<Rightarrow> u32 \<Rightarrow> u32" where
  "CH x y z = (x AND y) XOR (NOT x AND z)"

definition MAJ :: "u32 \<Rightarrow> u32 \<Rightarrow> u32 \<Rightarrow> u32" where
  "MAJ x y z = (x AND y) XOR (x AND z) XOR (y AND z)"

definition EP0 :: "u32 \<Rightarrow> u32" where
  "EP0 x = ROTRIGHT x 2 XOR ROTRIGHT x 13 XOR ROTRIGHT x 22"

definition EP1 :: "u32 \<Rightarrow> u32" where
  "EP1 x = ROTRIGHT x 6 XOR ROTRIGHT x 11 XOR ROTRIGHT x 25"

definition SIG0 :: "u32 \<Rightarrow> u32" where
  "SIG0 x = ROTRIGHT x 7 XOR ROTRIGHT x 18 XOR drop_bit 3 x"

definition SIG1 :: "u32 \<Rightarrow> u32" where
  "SIG1 x = ROTRIGHT x 17 XOR ROTRIGHT x 19 XOR drop_bit 10 x"

definition sha256_k :: "u32 list" where
  "sha256_k =
     [0x428a2f98, 0x71374491, 0xb5c0fbcf, 0xe9b5dba5, 0x3956c25b, 0x59f111f1] @
     [0x923f82a4, 0xab1c5ed5, 0xd807aa98, 0x12835b01, 0x243185be, 0x550c7dc3] @
     [0x72be5d74, 0x80deb1fe, 0x9bdc06a7, 0xc19bf174, 0xe49b69c1, 0xefbe4786] @
     [0x0fc19dc6, 0x240ca1cc, 0x2de92c6f, 0x4a7484aa, 0x5cb0a9dc, 0x76f988da] @
     [0x983e5152, 0xa831c66d, 0xb00327c8, 0xbf597fc7, 0xc6e00bf3, 0xd5a79147] @
     [0x06ca6351, 0x14292967, 0x27b70a85, 0x2e1b2138, 0x4d2c6dfc, 0x53380d13] @
     [0x650a7354, 0x766a0abb, 0x81c2c92e, 0x92722c85, 0xa2bfe8a1, 0xa81a664b] @
     [0xc24b8b70, 0xc76c51a3, 0xd192e819, 0xd6990624, 0xf40e3585, 0x106aa070] @
     [0x19a4c116, 0x1e376c08, 0x2748774c, 0x34b0bcb5, 0x391c0cb3, 0x4ed8aa4a] @
     [0x5b9cca4f, 0x682e6ff3, 0x748f82ee, 0x78a5636f, 0x84c87814, 0x8cc70208] @
     [0x90befffa, 0xa4506ceb, 0xbef9a3f7, 0xc67178f2]"

text \<open>The first loop fills \<open>m[0..15]\<close> from the block, the second extends it to 64 words.\<close>

definition load_block :: "byte list \<Rightarrow> u32 list" where
  "load_block d = map (\<lambda>i. be32 (d ! (4 * i)) (d ! (4 * i + 1)) (d ! (4 * i + 2)) (d ! (4 * i + 3))) [0..<16]"

definition extend :: "u32 list \<Rightarrow> nat \<Rightarrow> u32 list" where
  "extend m i = m @ [SIG1 (m ! (i - 2)) + m ! (i - 7) + SIG0 (m ! (i - 15)) + m ! (i - 16)]"

definition schedule :: "byte list \<Rightarrow> u32 list" where
  "schedule d = foldl extend (load_block d) [16..<64]"

type_synonym regs = "u32 \<times> u32 \<times> u32 \<times> u32 \<times> u32 \<times> u32 \<times> u32 \<times> u32"

definition round_step :: "u32 list \<Rightarrow> regs \<Rightarrow> nat \<Rightarrow> regs" where
  "round_step m r i = (case r of (a, b, c, d, e, f, g, h) \<Rightarrow>
     let t1 = h + EP1 e + CH e f g + sha256_k ! i + m ! i;
         t2 = EP0 a + MAJ a b c
     in (t1 + t2, a, b, c, d + t1, e, f, g))"

definition sha256_transform :: "SHA256_CTX \<Rightarrow> byte list \<Rightarrow> SHA256_CTX" where
  "sha256_transform ctx d =
     (let m = schedule d; s = ctx_state ctx;
          (a, b, c, d, e, f, g, h) = foldl (round_step m)
            (s ! 0, s ! 1, s ! 2, s ! 3, s ! 4, s ! 5, s ! 6, s ! 7) [0..<64]
      in ctx\<lparr>ctx_state := [s ! 0 + a, s ! 1 + b, s ! 2 + c, s ! 3 + d,
                       s ! 4 + e, s ! 5 + f, s ! 6 + g, s ! 7 + h]\<rparr>)"

definition sha256_init :: "SHA256_CTX \<Rightarrow> SHA256_CTX" where
  "sha256_init ctx = ctx\<lparr>datalen := 0, bitlen := 0,
     ctx_state := [0x6a09e667, 0xbb67ae85, 0x3c6ef372, 0xa54ff53a,
               0x510e527f, 0x9b05688c, 0x1f83d9ab, 0x5be0cd19]\<rparr>"

definition sha256_update_byte :: "SHA256_CTX \<Rightarrow> byte \<Rightarrow> SHA256_CTX" where
  "sha256_update_byte ctx b =
     (let ctx = ctx\<lparr>ctx_data := (ctx_data ctx)[datalen ctx := b], datalen := datalen ctx + 1\<rparr> in
      if datalen ctx = 64
      then (sha256_transform ctx (ctx_data ctx))\<lparr>bitlen := bitlen ctx + 512, datalen := 0\<rparr>
      else ctx)"

definition sha256_update :: "SHA256_CTX \<Rightarrow> byte list \<Rightarrow> SHA256_CTX" where
  "sha256_update ctx bs = foldl sha256_update_byte ctx bs"

text \<open>
  Padding: \<open>0x80\<close> and zeros up to byte 56, or up to the end of the block followed by a fresh one.
\<close>

definition sha256_pad :: "SHA256_CTX \<Rightarrow> SHA256_CTX" where
  "sha256_pad ctx =
     (let i = datalen ctx in
      if i < 56
      then ctx\<lparr>ctx_data := take i (ctx_data ctx) @ 0x80 # replicate (55 - i) 0 @ drop 56 (ctx_data ctx)\<rparr>
      else
        let ctx = ctx\<lparr>ctx_data := take i (ctx_data ctx) @ 0x80 # replicate (63 - i) 0 @ drop 64 (ctx_data ctx)\<rparr>;
            ctx = sha256_transform ctx (ctx_data ctx)
        in ctx\<lparr>ctx_data := replicate 56 0 @ drop 56 (ctx_data ctx)\<rparr>)"

text \<open>\<open>data[63 - j] = (_BYTE)(bitlen >> 8 j)\<close> for \<open>j = 0..7\<close>, written from byte 56 up.\<close>

definition length_bytes :: "u64 \<Rightarrow> byte list" where
  "length_bytes n = map (\<lambda>j. ucast (drop_bit (56 - 8 * j) n)) [0..<8]"

definition digest_bytes :: "u32 list \<Rightarrow> byte list" where
  "digest_bytes s = concat (map (\<lambda>w. map (\<lambda>i. ucast (drop_bit (24 - 8 * i) w AND 0xff)) [0..<4]) (take 8 s))"

definition sha256_final :: "SHA256_CTX \<Rightarrow> byte list" where
  "sha256_final ctx =
     (let n = ucast (of_nat (datalen ctx) :: byte) * 8;
          ctx = sha256_pad ctx;
          ctx = ctx\<lparr>bitlen := bitlen ctx + n\<rparr>;
          ctx = ctx\<lparr>ctx_data := take 56 (ctx_data ctx) @ length_bytes (bitlen ctx)\<rparr>
      in digest_bytes (ctx_state (sha256_transform ctx (ctx_data ctx))))"

section \<open>FIPS 180-4\<close>

text \<open>
  The constants of the standard: the first 32 bits of the fractional parts of the square roots of the
  first eight primes and of the cube roots of the first 64. \<open>int_root e b n\<close> is the greatest integer
  below \<open>2 ^ b\<close> whose \<open>e\<close>-th power is at most \<open>n\<close>, found bit by bit.
\<close>

fun int_root :: "nat \<Rightarrow> nat \<Rightarrow> int \<Rightarrow> int \<Rightarrow> int" where
  "int_root e 0 n c = c"
| "int_root e (Suc b) n c = int_root e b n (if (c + 2 ^ b) ^ e \<le> n then c + 2 ^ b else c)"

definition root_bits :: "nat \<Rightarrow> int \<Rightarrow> u32" where
  "root_bits e p = word_of_int (int_root e 37 (p * 2 ^ (32 * e)) 0)"

definition first_primes :: "int list" where
  "first_primes = [
    2, 3, 5, 7, 11, 13, 17, 19, 23, 29, 31, 37, 41, 43, 47, 53, 59, 61, 67, 71, 73, 79,
    83, 89, 97, 101, 103, 107, 109, 113, 127, 131, 137, 139, 149, 151, 157, 163, 167, 173, 179, 181, 191, 193,
    197, 199, 211, 223, 227, 229, 233, 239, 241, 251, 257, 263, 269, 271, 277, 281, 283, 293, 307, 311]"

definition fips_H0 :: "u32 list" where
  "fips_H0 = map (root_bits 2) (take 8 first_primes)"

definition fips_K :: "u32 list" where
  "fips_K = map (root_bits 3) first_primes"

fun fips_W :: "byte list \<Rightarrow> nat \<Rightarrow> u32" where
  "fips_W M t =
     (if t < 16 then be32 (M ! (4 * t)) (M ! (4 * t + 1)) (M ! (4 * t + 2)) (M ! (4 * t + 3))
      else
        (let x = fips_W M (t - 2); y = fips_W M (t - 15) in
         (word_rotr 17 x XOR word_rotr 19 x XOR drop_bit 10 x) + fips_W M (t - 7) +
         (word_rotr 7 y XOR word_rotr 18 y XOR drop_bit 3 y) + fips_W M (t - 16)))"

declare fips_W.simps [simp del]

definition fips_round :: "byte list \<Rightarrow> regs \<Rightarrow> nat \<Rightarrow> regs" where
  "fips_round M r t = (case r of (a, b, c, d, e, f, g, h) \<Rightarrow>
     let T1 = h + (word_rotr 6 e XOR word_rotr 11 e XOR word_rotr 25 e) +
              ((e AND f) XOR (NOT e AND g)) + fips_K ! t + fips_W M t;
         T2 = (word_rotr 2 a XOR word_rotr 13 a XOR word_rotr 22 a) +
              ((a AND b) XOR (a AND c) XOR (b AND c))
     in (T1 + T2, a, b, c, d + T1, e, f, g))"

definition fips_compress :: "u32 list \<Rightarrow> byte list \<Rightarrow> u32 list" where
  "fips_compress H M =
     (case foldl (fips_round M) (H ! 0, H ! 1, H ! 2, H ! 3, H ! 4, H ! 5, H ! 6, H ! 7) [0..<64] of
        (a, b, c, d, e, f, g, h) \<Rightarrow>
          [H ! 0 + a, H ! 1 + b, H ! 2 + c, H ! 3 + d, H ! 4 + e, H ! 5 + f, H ! 6 + g, H ! 7 + h])"

text \<open>\<open>1\<close>, the smallest number of zeros that leaves eight bytes of the last block, the bit length.\<close>

definition fips_pad :: "byte list \<Rightarrow> byte list" where
  "fips_pad M = M @ 0x80 # replicate ((119 - length M mod 64) mod 64) 0 @
     length_bytes (of_nat (8 * length M))"

fun blocks :: "byte list \<Rightarrow> byte list list" where
  "blocks [] = []"
| "blocks (x # xs) = take 64 (x # xs) # blocks (drop 63 xs)"

definition fips_sha256 :: "byte list \<Rightarrow> byte list" where
  "fips_sha256 M = digest_bytes (foldl fips_compress fips_H0 (blocks (fips_pad M)))"

section \<open>Lemmas\<close>

lemma ROTRIGHT_rotr: "0 < b \<Longrightarrow> b < 32 \<Longrightarrow> ROTRIGHT a b = word_rotr b a"
proof (rule bit_word_eqI)
  fix n
  assume b: "0 < b" "b < 32" and n: "n < LENGTH(32)"
  show "bit (ROTRIGHT a b) n = bit (word_rotr b a) n"
  proof (cases "n + b < 32")
    case True
    with b n show ?thesis
      by (auto simp: ROTRIGHT_def bit_simps bit_word_rotr_iff add.commute)
  next
    case False
    then have "(n + b) mod 32 = n - (32 - b)" using b n by (simp add: mod_if)
    with False b n show ?thesis
      by (auto simp: ROTRIGHT_def bit_simps bit_word_rotr_iff add.commute dest: bit_imp_le_length)
  qed
qed

lemma int_root_bounds:
  assumes "0 \<le> c" and "c ^ e \<le> n" and "n < (c + 2 ^ b) ^ e"
  shows "int_root e b n c ^ e \<le> n \<and> n < (int_root e b n c + 1) ^ e"
  using assms by (induction b arbitrary: c) (auto simp: algebra_simps)

text \<open>A candidate for the root with integer part \<open>q\<close> and 32 fractional bits \<open>k\<close>.\<close>

definition root_check :: "nat \<Rightarrow> int \<Rightarrow> int \<Rightarrow> u32 \<Rightarrow> bool" where
  "root_check e p q k \<longleftrightarrow> 0 \<le> q \<and> 0 \<le> p \<and> p < 2 ^ (5 * e) \<and>
     (q * 2 ^ 32 + uint k) ^ e \<le> p * 2 ^ (32 * e) \<and> p * 2 ^ (32 * e) < (q * 2 ^ 32 + uint k + 1) ^ e"

lemma root_unique:
  fixes c d n :: int
  assumes "0 \<le> c" and "0 \<le> d" and "c ^ e \<le> n" and "n < (d + 1) ^ e"
  shows "c \<le> d"
  using assms power_mono [of "d + 1" c e] by force

lemma int_root_nonneg: "0 \<le> c \<Longrightarrow> 0 \<le> int_root e b n c"
  by (induction b arbitrary: c) simp_all

lemma root_bits_check:
  assumes "root_check e p q k" and "0 < e"
  shows "root_bits e p = k"
proof -
  let ?n = "p * 2 ^ (32 * e)" and ?c = "q * 2 ^ 32 + uint k"
  let ?r = "int_root e 37 ?n 0"
  have "?n < 2 ^ (5 * e) * 2 ^ (32 * e)" using assms by (simp add: root_check_def)
  also have "\<dots> = (0 + 2 ^ 37) ^ e" by (simp add: power_mult power_mult_distrib [symmetric])
  finally have "?r ^ e \<le> ?n \<and> ?n < (?r + 1) ^ e"
    using assms by (intro int_root_bounds) (simp_all add: root_check_def power_0_left)
  moreover have "0 \<le> ?c" "?c ^ e \<le> ?n" "?n < (?c + 1) ^ e" using assms by (simp_all add: root_check_def)
  ultimately have "?r = ?c" using root_unique [of ?r ?c e ?n] root_unique [of ?c ?r e ?n] int_root_nonneg [of 0 e 37 ?n] by simp
  then have "root_bits e p = word_of_int q * 4294967296 + k" by (simp add: root_bits_def)
  also have "(4294967296 :: u32) = 0" by simp
  finally show ?thesis by simp
qed

fun root_checks :: "nat \<Rightarrow> int list \<Rightarrow> int list \<Rightarrow> u32 list \<Rightarrow> bool" where
  "root_checks e (p # ps) (q # qs) (k # ks) \<longleftrightarrow> root_check e p q k \<and> root_checks e ps qs ks"
| "root_checks e ps qs ks \<longleftrightarrow> ps = [] \<and> ks = []"

lemma root_checks_bits: "root_checks e ps qs ks \<Longrightarrow> 0 < e \<Longrightarrow> map (root_bits e) ps = ks"
  by (induction e ps qs ks rule: root_checks.induct) (auto simp: root_bits_check)

lemma sha256_k_fips: "sha256_k = fips_K"
proof -
  have "root_checks 3 first_primes [1, 1, 1, 1, 2, 2, 2, 2, 2, 3, 3, 3, 3, 3, 3, 3, 3, 3, 4, 4, 4, 4, 4, 4, 4, 4, 4, 4, 4, 4, 5, 5,
      5, 5, 5, 5, 5, 5, 5, 5, 5, 5, 5, 5, 5, 5, 5, 6, 6, 6, 6, 6, 6, 6, 6, 6, 6, 6, 6, 6, 6, 6, 6, 6] sha256_k"
    by (simp add: first_primes_def sha256_k_def root_check_def)
  then show ?thesis unfolding fips_K_def by (simp add: root_checks_bits)
qed

lemma sha256_H0_fips: "fips_H0 = [0x6a09e667, 0xbb67ae85, 0x3c6ef372, 0xa54ff53a,
     0x510e527f, 0x9b05688c, 0x1f83d9ab, 0x5be0cd19]"
proof -
  have "root_checks 2 (take 8 first_primes) [1, 1, 2, 2, 3, 3, 4, 4] [0x6a09e667, 0xbb67ae85, 0x3c6ef372,
      0xa54ff53a, 0x510e527f, 0x9b05688c, 0x1f83d9ab, 0x5be0cd19]"
    by (simp add: first_primes_def root_check_def)
  then show ?thesis unfolding fips_H0_def by (simp add: root_checks_bits)
qed

lemma schedule_W:
  assumes "16 \<le> n" and "n \<le> 64"
  shows "length (foldl extend (load_block d) [16..<n]) = n \<and>
     (\<forall>t<n. foldl extend (load_block d) [16..<n] ! t = fips_W d t)"
  using assms
proof (induction n rule: dec_induct)
  case base
  show ?case by (auto simp: load_block_def fips_W.simps)
next
  case (step n)
  let ?m = "foldl extend (load_block d) [16..<n]"
  from step have len: "length ?m = n" and W: "\<And>t. t < n \<Longrightarrow> ?m ! t = fips_W d t" by auto
  have next_word: "SIG1 (?m ! (n - 2)) + ?m ! (n - 7) + SIG0 (?m ! (n - 15)) + ?m ! (n - 16) = fips_W d n"
    using step(1) W by (subst fips_W.simps [of d n])
      (simp add: SIG0_def SIG1_def ROTRIGHT_rotr Let_def)
  have "foldl extend (load_block d) [16..<Suc n] = ?m @ [fips_W d n]"
    using step(1) next_word by (simp add: extend_def)
  with len W show ?case by (auto simp: nth_append less_Suc_eq)
qed

lemma sha256_transform_fips:
  "sha256_transform ctx d = ctx\<lparr>ctx_state := fips_compress (ctx_state ctx) d\<rparr>"
proof -
  have step: "round_step (schedule d) r i = fips_round d r i" if "i \<in> set [0..<64]" for r i
    using that schedule_W [of 64 d]
    by (simp add: round_step_def fips_round_def schedule_def sha256_k_fips EP0_def EP1_def CH_def MAJ_def
        ROTRIGHT_rotr split: prod.splits)
  have "foldl (round_step (schedule d)) r [0..<64] = foldl (fips_round d) r [0..<64]" for r
    using step by (intro foldl_cong) auto
  then show ?thesis
    by (simp add: sha256_transform_def fips_compress_def Let_def split: prod.splits)
qed

lemma blocks_append: "length xs = 64 * n \<Longrightarrow> blocks (xs @ ys) = blocks xs @ blocks ys"
proof (induction n arbitrary: xs)
  case 0
  then show ?case by simp
next
  case (Suc n)
  then obtain x zs where xs: "xs = x # zs" and "63 \<le> length zs" by (cases xs) auto
  moreover from this Suc.prems have "length (drop 63 zs) = 64 * n" by simp
  ultimately show ?case using Suc.IH [of "drop 63 zs"] by simp
qed

lemma blocks_single: "length xs = 64 \<Longrightarrow> blocks xs = [xs]"
  by (cases xs) auto

definition absorbed :: "SHA256_CTX \<Rightarrow> byte list \<Rightarrow> bool" where
  "absorbed ctx M \<longleftrightarrow> length (ctx_data ctx) = 64 \<and>
     (\<exists>B r. M = B @ r \<and> length r < 64 \<and> (\<exists>n. length B = 64 * n \<and> bitlen ctx = of_nat (512 * n)) \<and>
        datalen ctx = length r \<and> take (length r) (ctx_data ctx) = r \<and>
        ctx_state ctx = foldl fips_compress fips_H0 (blocks B))"

lemma absorbedI:
  "length (ctx_data ctx) = 64 \<Longrightarrow> M = B @ r \<Longrightarrow> length r < 64 \<Longrightarrow> length B = 64 * n \<Longrightarrow>
     bitlen ctx = of_nat (512 * n) \<Longrightarrow> datalen ctx = length r \<Longrightarrow> take (length r) (ctx_data ctx) = r \<Longrightarrow>
     ctx_state ctx = foldl fips_compress fips_H0 (blocks B) \<Longrightarrow> absorbed ctx M"
  by (auto simp: absorbed_def)

lemma absorbed_init: "length (ctx_data ctx) = 64 \<Longrightarrow> absorbed (sha256_init ctx) []"
  by (auto simp: absorbed_def sha256_init_def sha256_H0_fips)

lemma absorbed_update_byte:
  assumes "absorbed ctx M"
  shows "absorbed (sha256_update_byte ctx b) (M @ [b])"
proof -
  from assms obtain B r n where len: "length (ctx_data ctx) = 64" and M: "M = B @ r"
    and r: "length r < 64" and B: "length B = 64 * n" "bitlen ctx = of_nat (512 * n)"
    and d: "datalen ctx = length r" "take (length r) (ctx_data ctx) = r"
    and st: "ctx_state ctx = foldl fips_compress fips_H0 (blocks B)"
    by (auto simp: absorbed_def)
  let ?d = "(ctx_data ctx)[length r := b]"
  have td: "take (Suc (length r)) ?d = r @ [b]"
    using r len d(2) by (simp add: take_Suc_conv_app_nth)
  show ?thesis
  proof (cases "length r + 1 = 64")
    case True
    then have "?d = r @ [b]" using td len by simp
    moreover from this True have "blocks (B @ r @ [b]) = blocks B @ [r @ [b]]"
      using blocks_append [OF B(1), of "r @ [b]"] by (simp add: blocks_single)
    moreover have "bitlen ctx + 512 = of_nat (512 * Suc n)"
      using B(2) by simp
    ultimately show ?thesis
      using True B(1) M d st len
      by (intro absorbedI [where B = "B @ r @ [b]" and r = "[]" and n = "Suc n"])
        (simp_all add: sha256_update_byte_def sha256_transform_fips Let_def)
  next
    case False
    with r td B M d st len show ?thesis
      by (intro absorbedI [where B = B and r = "r @ [b]" and n = n])
        (simp_all add: sha256_update_byte_def Let_def)
  qed
qed

lemma absorbed_update: "absorbed ctx M \<Longrightarrow> absorbed (sha256_update ctx bs) (M @ bs)"
proof (induction bs arbitrary: ctx M)
  case Nil
  then show ?case by (simp add: sha256_update_def)
next
  case (Cons b bs)
  from Cons.IH [OF absorbed_update_byte [OF Cons.prems, of b]] show ?case
    by (simp add: sha256_update_def)
qed

lemma length_length_bytes [simp]: "length (length_bytes n) = 8"
  by (simp add: length_bytes_def)

lemma byte_count: "n < 64 \<Longrightarrow> (ucast (of_nat n :: byte) :: u64) = of_nat n"
  by (simp add: unsigned_of_nat take_bit_nat_eq_self)

lemma sha256_final_fips:
  assumes "absorbed ctx M"
  shows "sha256_final ctx = fips_sha256 M"
proof -
  from assms obtain B r n where len: "length (ctx_data ctx) = 64" and M: "M = B @ r"
    and r: "length r < 64" and B: "length B = 64 * n" "bitlen ctx = of_nat (512 * n)"
    and d: "datalen ctx = length r" "take (length r) (ctx_data ctx) = r"
    and st: "ctx_state ctx = foldl fips_compress fips_H0 (blocks B)"
    by (auto simp: absorbed_def)
  let ?lb = "length_bytes (of_nat (8 * length M))"
  have "bitlen ctx + ucast (of_nat (datalen ctx) :: byte) * 8 = of_nat (8 * length M)"
    using r by (simp add: B M d byte_count algebra_simps)
  then have lb: "length_bytes (bitlen ctx + ucast (of_nat (datalen ctx) :: byte) * 8) = ?lb" by simp
  have rm: "length M mod 64 = length r" using r by (simp add: M B(1))
  show ?thesis
  proof (cases "length r < 56")
    case True
    let ?blk = "r @ 0x80 # replicate (55 - length r) 0 @ ?lb"
    have z: "(119 - length r) mod 64 = 55 - length r" using True by (simp add: mod_if)
    have "fips_pad M = B @ ?blk"
      unfolding fips_pad_def rm z by (subst (1) M) (simp only: append_assoc append_Cons)
    with blocks_append [OF B(1), of ?blk] True have "blocks (fips_pad M) = blocks B @ [?blk]"
      by (simp add: blocks_single)
    moreover have "take (56 - length r) (0x80 # replicate (55 - length r) 0 @ zs) =
        (0x80 :: byte) # replicate (55 - length r) 0" for zs
      using True by (cases "56 - length r") auto
    then have "sha256_final ctx = digest_bytes (fips_compress (ctx_state ctx) ?blk)"
      using True d lb by (simp add: sha256_final_def sha256_pad_def sha256_transform_fips Let_def)
    ultimately show ?thesis by (simp add: fips_sha256_def st)
  next
    case False
    let ?blk1 = "r @ 0x80 # replicate (63 - length r) 0" and ?blk2 = "replicate 56 0 @ ?lb"
    have z: "(119 - length r) mod 64 = 63 - length r + 56" using False r by simp
    have "replicate ((119 - length r) mod 64) (0::byte) = replicate (63 - length r) 0 @ replicate 56 0"
      unfolding z by (simp only: replicate_add)
    then have "fips_pad M = B @ ?blk1 @ ?blk2"
      unfolding fips_pad_def rm by (subst (1) M) (simp only: append_assoc append_Cons)
    moreover have "blocks (?blk1 @ ?blk2) = [?blk1, ?blk2]"
      using blocks_append [of ?blk1 1 ?blk2] r by (simp add: blocks_single del: append_assoc)
    ultimately have "blocks (fips_pad M) = blocks B @ [?blk1, ?blk2]"
      using blocks_append [OF B(1), of "?blk1 @ ?blk2"] by simp
    moreover have "sha256_final ctx =
        digest_bytes (fips_compress (fips_compress (ctx_state ctx) ?blk1) ?blk2)"
      using False d len lb
      by (simp add: sha256_final_def sha256_pad_def sha256_transform_fips Let_def)
    ultimately show ?thesis by (simp add: fips_sha256_def st)
  qed
qed

end
