(* ===== verification/Dns_Packet.thy ===== *)
theory Dns_Packet
  imports Dns_Header Dns_Record Sha256
begin

text \<open>
  \<^verbatim>\<open>include/dns/dnspacket.hpp\<close> and \<^verbatim>\<open>src/dns/dnspacket.cpp\<close>: the whole message.

  The \<open>unique_ptr\<close> to the header is an option, the record arrays are lists (empty for a null
  pointer); the loops run up to the counts of the header, and running past the end of an array is
  \<open>Undef NullDeref\<close>. The methods that dereference the header are outcomes for the same reason.
  Validation returns \<open>Ret ()\<close> for the code 0 and \<open>Fail c\<close> for any other code. The output of a packet
  that was read to the log is left out of \<open>DnsPacket_Read\<close>; what it writes is \<open>show_packet\<close> of \<open>Dns_Printer\<close>.
\<close>

record DnsPacket =
  header :: "DnsHeader option"
  questions :: "DnsQuestion list"
  answers :: "DnsRecord list"
  authorities :: "DnsRecord list"
  additionals :: "DnsRecord list"

definition header_of :: "DnsPacket \<Rightarrow> DnsHeader outcome" where
  "header_of p = (case header p of None \<Rightarrow> Undef NullDeref | Some h \<Rightarrow> Ret h)"

definition with_header :: "(DnsHeader \<Rightarrow> DnsHeader) \<Rightarrow> DnsPacket \<Rightarrow> DnsPacket outcome" where
  "with_header f p = obind (header_of p) (\<lambda>h. Ret (p\<lparr>header := Some (f h)\<rparr>))"

section \<open>Read\<close>

definition DnsPacket_Read :: "PacketBuffer \<Rightarrow> (DnsPacket \<times> PacketBuffer) outcome" where
  "DnsPacket_Read bb =
     obind (DnsHeader_Read bb) (\<lambda>(h, bb).
     obind (read_records DnsQuestion_Read (unat (QuestionCount h)) bb) (\<lambda>(qd, bb).
     obind (read_records (DnsRecord_Read Answer) (unat (AnswerCount h)) bb) (\<lambda>(an, bb).
     obind (read_records (DnsRecord_Read Authority) (unat (AuthorityCount h)) bb) (\<lambda>(ns, bb).
     obind (read_records (DnsRecord_Read Additional) (unat (AdditionalCount h)) bb) (\<lambda>(ar, bb).
     Ret (\<lparr>header = Some h, questions = qd, answers = an, authorities = ns, additionals = ar\<rparr>, bb))))))"

section \<open>Validate\<close>

text \<open>The macro \<open>VALIDATE_RECORD\<close>: \<open>code\<close> is overwritten by every record; a non-zero one is returned.\<close>

fun validate_records :: "('a \<Rightarrow> nat) \<Rightarrow> nat \<Rightarrow> 'a list \<Rightarrow> nat \<Rightarrow> nat outcome" where
  "validate_records v 0 xs code = Ret code"
| "validate_records v (Suc n) [] code = Undef NullDeref"
| "validate_records v (Suc n) (x # xs) code =
     (let code = v x in if code \<noteq> E_NOERROR then Fail code else validate_records v n xs code)"

fun count_opt :: "nat \<Rightarrow> DnsRecord list \<Rightarrow> nat outcome" where
  "count_opt 0 xs = Ret 0"
| "count_opt (Suc n) [] = Undef NullDeref"
| "count_opt (Suc n) (x # xs) =
     obind (count_opt n xs) (\<lambda>c. Ret (c + (if Type x = QT_OPT then 1 else 0)))"

text \<open>
  \<open>if (!(code = header->Validate(pt))) return code;\<close> leaves the function when the header is valid.
\<close>

definition DnsPacket_Validate :: "PacketType \<Rightarrow> DnsPacket \<Rightarrow> unit outcome" where
  "DnsPacket_Validate pt p =
     (case header p of
        None \<Rightarrow> Fail E_FORMERR
      | Some h \<Rightarrow>
          let code = DnsHeader_Validate pt h in
          if code = E_NOERROR then Ret ()
          else
            obind (if pt = IncomingRequest \<or> pt = IncomingResponse then
                obind (validate_records (DnsQuestion_Validate pt) (unat (QuestionCount h)) (questions p) code) (\<lambda>code.
                obind (validate_records (DnsRecord_Validate pt) (unat (AnswerCount h)) (answers p) code) (\<lambda>code.
                obind (validate_records (DnsRecord_Validate pt) (unat (AuthorityCount h)) (authorities p) code) (\<lambda>code.
                validate_records (DnsRecord_Validate pt) (unat (AdditionalCount h)) (additionals p) code)))
              else Ret code) (\<lambda>code.
            obind (count_opt (unat (AdditionalCount h)) (additionals p)) (\<lambda>psuedoHeaderCount.
            if psuedoHeaderCount > 1 then Fail E_FORMERR
            else if code = E_NOERROR then Ret () else Fail code)))"

section \<open>Write\<close>

definition DnsPacket_Write :: "DnsPacket \<Rightarrow> PacketBuffer \<Rightarrow> PacketBuffer outcome" where
  "DnsPacket_Write p bb =
     (case header p of
        None \<Rightarrow> Ret bb
      | Some h \<Rightarrow>
          obind (DnsHeader_Write h bb) (\<lambda>bb.
          obind (write_records DnsQuestion_Write (unat (QuestionCount h)) (questions p) bb) (\<lambda>bb.
          obind (write_records DnsRecord_Write (unat (AnswerCount h)) (answers p) bb) (\<lambda>bb.
          obind (write_records DnsRecord_Write (unat (AuthorityCount h)) (authorities p) bb) (\<lambda>bb.
          write_records DnsRecord_Write (unat (AdditionalCount h)) (additionals p) bb)))))"

section \<open>Hash\<close>

text \<open>
  \<open>DnsQuestion::UpdateDigest\<close>: the name up to its NUL, then the two bytes each of \<open>Type\<close> and \<open>Class\<close>
  as they lie in memory, low byte first.
\<close>

definition UpdateDigest :: "SHA256_CTX \<Rightarrow> DnsQuestion \<Rightarrow> SHA256_CTX" where
  "UpdateDigest ctx q =
     sha256_update (sha256_update (sha256_update ctx (c_str (Name q))) (rev (bytes16 (Type q))))
       (rev (bytes16 (Class q)))"

fun hash_questions :: "nat \<Rightarrow> DnsQuestion list \<Rightarrow> SHA256_CTX \<Rightarrow> SHA256_CTX outcome" where
  "hash_questions 0 qs ctx = Ret ctx"
| "hash_questions (Suc n) [] ctx = Undef NullDeref"
| "hash_questions (Suc n) (q # qs) ctx = hash_questions n qs (UpdateDigest ctx q)"

text \<open>The context lives on the stack: \<open>junk\<close> is what \<open>ctx.data\<close> holds before it is written.\<close>

definition DnsPacket_Hash :: "byte list \<Rightarrow> DnsPacket \<Rightarrow> byte list outcome" where
  "DnsPacket_Hash junk p =
     obind (header_of p) (\<lambda>h.
     obind (hash_questions (unat (QuestionCount h)) (questions p)
       (sha256_init \<lparr>ctx_data = junk, datalen = 0, bitlen = 0, ctx_state = []\<rparr>)) (\<lambda>ctx.
     Ret (sha256_final ctx)))"

section \<open>Accessors\<close>

definition IsRequest :: "DnsPacket \<Rightarrow> bool outcome" where
  "IsRequest p = obind (header_of p) (\<lambda>h. Ret (\<not> GetQueryResponse h))"

definition IsResponse :: "DnsPacket \<Rightarrow> bool outcome" where
  "IsResponse p = obind (header_of p) (\<lambda>h. Ret (GetQueryResponse h))"

definition GetId :: "DnsPacket \<Rightarrow> u16 outcome" where
  "GetId p = obind (header_of p) (\<lambda>h. Ret (ID h))"

definition IsTrucated :: "DnsPacket \<Rightarrow> bool outcome" where
  "IsTrucated p = obind (header_of p) (\<lambda>h. Ret (GetTruncatedMessage h))"

definition HasCheckingDisabled :: "DnsPacket \<Rightarrow> bool outcome" where
  "HasCheckingDisabled p = obind (header_of p) (\<lambda>h. Ret (GetCheckingDisabled h))"

definition GetQuestionCount :: "DnsPacket \<Rightarrow> u16 outcome" where
  "GetQuestionCount p = obind (header_of p) (\<lambda>h. Ret (QuestionCount h))"

definition GetAnswerCount :: "DnsPacket \<Rightarrow> u16 outcome" where
  "GetAnswerCount p = obind (header_of p) (\<lambda>h. Ret (AnswerCount h))"

definition GetPacketResponseCode :: "DnsPacket \<Rightarrow> byte outcome" where
  "GetPacketResponseCode p = obind (header_of p) (\<lambda>h. Ret (GetResponseCode h))"

definition SetAsQueryRequest :: "DnsPacket \<Rightarrow> DnsPacket outcome" where
  "SetAsQueryRequest = with_header (SetQueryResponse False)"

definition SetAsQueryResponse :: "DnsPacket \<Rightarrow> DnsPacket outcome" where
  "SetAsQueryResponse = with_header (SetQueryResponse True)"

definition SetId :: "u16 \<Rightarrow> DnsPacket \<Rightarrow> DnsPacket outcome" where
  "SetId i = with_header (\<lambda>h. h\<lparr>ID := i\<rparr>)"

definition SetAsAuthoritativeAnswer :: "bool \<Rightarrow> DnsPacket \<Rightarrow> DnsPacket outcome" where
  "SetAsAuthoritativeAnswer v = with_header (SetAuthoritativeAnswer v)"

definition SetPacketRecursionAvailable :: "bool \<Rightarrow> DnsPacket \<Rightarrow> DnsPacket outcome" where
  "SetPacketRecursionAvailable v = with_header (SetRecursionAvailable v)"

definition SetPacketCheckingDisabled :: "bool \<Rightarrow> DnsPacket \<Rightarrow> DnsPacket outcome" where
  "SetPacketCheckingDisabled v = with_header (SetCheckingDisabled v)"

definition SetPacketResponseCode :: "byte \<Rightarrow> DnsPacket \<Rightarrow> DnsPacket outcome" where
  "SetPacketResponseCode c = with_header (SetResponseCode c)"

text \<open>\<open>std::make_unique<DnsRecord[]>\<close> value-initialises: every field is zero.\<close>

definition zero_record :: DnsRecord where
  "zero_record = \<lparr>Start = 0, Name = [], Type = 0, Class = 0,
     RecordType = Answer, TTL = 0, Len = 0, Addr = AddrZero\<rparr>"

fun write_answers ::
  "(DnsQuestion \<Rightarrow> DnsRecord \<Rightarrow> DnsRecord) \<Rightarrow> nat \<Rightarrow> DnsQuestion list \<Rightarrow> DnsRecord list outcome" where
  "write_answers w 0 qs = Ret []"
| "write_answers w (Suc n) [] = Undef NullDeref"
| "write_answers w (Suc n) (q # qs) =
     obind (write_answers w n qs) (\<lambda>rs. Ret (w q zero_record # rs))"

definition SetAnswers ::
  "(DnsQuestion \<Rightarrow> DnsRecord \<Rightarrow> DnsRecord) \<Rightarrow> DnsPacket \<Rightarrow> DnsPacket outcome" where
  "SetAnswers w p =
     obind (header_of p) (\<lambda>h.
     if QuestionCount h = 0 \<or> questions p = [] then Ret p
     else
       obind (write_answers w (unat (QuestionCount h)) (questions p)) (\<lambda>rs.
       Ret (p\<lparr>answers := rs, header := Some (h\<lparr>AnswerCount := QuestionCount h\<rparr>)\<rparr>)))"

section \<open>The pseudo header of EDNS\<close>

text \<open>
  \<open>_OPT_PROCESSOR\<close> copies each additional record into a local. The copy shares the octet pointer and
  its destructor deletes it, so a pseudo record with data is freed while the packet still owns it.
\<close>

fun find_opt :: "nat \<Rightarrow> DnsRecord list \<Rightarrow> DnsRecord option outcome" where
  "find_opt 0 xs = Ret None"
| "find_opt (Suc n) [] = Undef NullDeref"
| "find_opt (Suc n) (x # xs) =
     (if Type x = QT_OPT then
        (case Addr x of AddrOpt (Some _) \<Rightarrow> Undef UseAfterFree | _ \<Rightarrow> Ret (Some x))
      else find_opt n xs)"

definition OPT_GET :: "(DnsRecord \<Rightarrow> 'a) \<Rightarrow> 'a \<Rightarrow> DnsPacket \<Rightarrow> 'a outcome" where
  "OPT_GET match nomatch p =
     obind (header_of p) (\<lambda>h.
     obind (find_opt (unat (AdditionalCount h)) (additionals p)) (\<lambda>r.
     Ret (case r of None \<Rightarrow> nomatch | Some x \<Rightarrow> match x)))"

definition HasPsuedoHeader :: "DnsPacket \<Rightarrow> bool outcome" where
  "HasPsuedoHeader p = OPT_GET (\<lambda>_. True) False p"

definition GetUdpPayloadSize :: "DnsPacket \<Rightarrow> u16 outcome" where
  "GetUdpPayloadSize p = OPT_GET Class 0 p"

definition GetExtendedResponseCode :: "DnsPacket \<Rightarrow> u16 outcome" where
  "GetExtendedResponseCode p =
     obind (header_of p) (\<lambda>h.
     OPT_GET (\<lambda>x. ucast (GetResponseCode h) OR push_bit 4 (ucast (GetExtendedRcode x)))
       (ucast (GetResponseCode h)) p)"

definition HasDoBit :: "DnsPacket \<Rightarrow> bool outcome" where
  "HasDoBit p = OPT_GET GetDoBit False p"

definition HasAdBit :: "DnsPacket \<Rightarrow> bool outcome" where
  "HasAdBit p = OPT_GET GetAdBit False p"

text \<open>
  \<open>UdpSize\<close> is a reference to \<open>Class\<close>. A copied record keeps the reference of the original, so the
  assignment through the copy reaches the packet; the loop has no return and visits every record.
\<close>

fun set_opt_class :: "u16 \<Rightarrow> nat \<Rightarrow> DnsRecord list \<Rightarrow> DnsRecord list outcome" where
  "set_opt_class sz 0 xs = Ret xs"
| "set_opt_class sz (Suc n) [] = Undef NullDeref"
| "set_opt_class sz (Suc n) (x # xs) =
     (if Type x = QT_OPT \<and> (\<exists>bs. Addr x = AddrOpt (Some bs)) then Undef UseAfterFree
      else obind (set_opt_class sz n xs) (\<lambda>xs.
             Ret ((if Type x = QT_OPT then x\<lparr>Class := sz\<rparr> else x) # xs)))"

definition SetUdpPayloadSize :: "u16 \<Rightarrow> DnsPacket \<Rightarrow> DnsPacket outcome" where
  "SetUdpPayloadSize sz p =
     obind (header_of p) (\<lambda>h.
     obind (set_opt_class sz (unat (AdditionalCount h)) (additionals p)) (\<lambda>ar.
     Ret (p\<lparr>additionals := ar\<rparr>)))"

section \<open>Well-formed packets and their wire form\<close>

text \<open>The counts of the header are the lengths of the arrays.\<close>

definition packet_wf :: "DnsPacket \<Rightarrow> bool" where
  "packet_wf p \<longleftrightarrow> (\<exists>h. header p = Some h \<and>
     length (questions p) = unat (QuestionCount h) \<and> length (answers p) = unat (AnswerCount h) \<and>
     length (authorities p) = unat (AuthorityCount h) \<and>
     length (additionals p) = unat (AdditionalCount h))"

text \<open>Every name has a wire form and every record the data of its type.\<close>

definition packet_ok :: "DnsPacket \<Rightarrow> bool" where
  "packet_ok p \<longleftrightarrow> packet_wf p \<and> list_all (\<lambda>q. name_valid (Name q)) (questions p) \<and>
     list_all (\<lambda>r. record_ok r \<and> RecordType r = Answer) (answers p) \<and>
     list_all (\<lambda>r. record_ok r \<and> RecordType r = Authority) (authorities p) \<and>
     list_all (\<lambda>r. record_ok r \<and> RecordType r = Additional) (additionals p)"

definition packet_bytes :: "DnsPacket \<Rightarrow> byte list" where
  "packet_bytes p =
     (case header p of None \<Rightarrow> [] | Some h \<Rightarrow> header_bytes h) @
     concat (map question_bytes (questions p)) @ concat (map record_bytes (answers p)) @
     concat (map record_bytes (authorities p)) @ concat (map record_bytes (additionals p))"

text \<open>What \<open>UpdateDigest\<close> adds to the hashed message for one question.\<close>

definition digest_input :: "DnsQuestion \<Rightarrow> byte list" where
  "digest_input q = c_str (Name q) @ rev (bytes16 (Type q)) @ rev (bytes16 (Class q))"

text \<open>A packet without the buffer offsets its names were read from.\<close>

definition packet_core :: "DnsPacket \<Rightarrow> DnsPacket" where
  "packet_core p = p\<lparr>
     questions := map (\<lambda>q. q\<lparr>Start := 0\<rparr>) (questions p),
     answers := map (\<lambda>r. r\<lparr>Start := 0\<rparr>) (answers p),
     authorities := map (\<lambda>r. r\<lparr>Start := 0\<rparr>) (authorities p),
     additionals := map (\<lambda>r. r\<lparr>Start := 0\<rparr>) (additionals p)\<rparr>"

section \<open>Reading and writing\<close>

lemma packet_reader: "wire_reader DnsPacket_Read"
  unfolding DnsPacket_Read_def by (intro reader_intros)

lemma packet_okD:
  assumes "packet_ok p"
  shows "list_all (\<lambda>q. name_valid (Name q)) (questions p)"
    and "list_all (\<lambda>r. record_ok r \<and> RecordType r = Answer) (answers p)"
    and "list_all (\<lambda>r. record_ok r \<and> RecordType r = Authority) (authorities p)"
    and "list_all (\<lambda>r. record_ok r \<and> RecordType r = Additional) (additionals p)"
    and "packet_wf p"
  using assms by (auto simp: packet_ok_def)

lemma packet_wfD:
  assumes "packet_wf p" and "header p = Some h"
  shows "unat (QuestionCount h) = length (questions p)" and "unat (AnswerCount h) = length (answers p)"
    and "unat (AuthorityCount h) = length (authorities p)"
    and "unat (AdditionalCount h) = length (additionals p)"
  using assms by (auto simp: packet_wf_def)

lemma packet_bytes_header:
  "header p = Some h \<Longrightarrow> packet_bytes p = header_bytes h @
     concat (map question_bytes (questions p)) @ concat (map record_bytes (answers p)) @
     concat (map record_bytes (authorities p)) @ concat (map record_bytes (additionals p))"
  by (simp add: packet_bytes_def)

lemma DnsPacket_Write_wbuf:
  assumes "packet_ok p" and "length (packet_bytes p) < k"
  shows "DnsPacket_Write p (wbuf xs k) =
     Ret (wbuf (xs @ packet_bytes p) (k - length (packet_bytes p)))"
proof -
  note ok = packet_okD [OF assms(1)]
  obtain h where h: "header p = Some h" using assms by (auto simp: packet_ok_def packet_wf_def)
  from assms(2) show ?thesis
    by (simp add: DnsPacket_Write_def h packet_wfD [OF ok(5) h] packet_bytes_header [OF h]
        DnsHeader_Write_wbuf question_codec.records_wbuf [OF ok(1)]
        record_codec.records_wbuf [OF ok(2)] record_codec.records_wbuf [OF ok(3)]
        record_codec.records_wbuf [OF ok(4)] add.assoc)
qed

lemma DnsPacket_Read_reads:
  assumes "packet_ok p"
  shows "reads DnsPacket_Read (packet_bytes p) (\<lambda>q. packet_core q = packet_core p)"
proof -
  note ok = packet_okD [OF assms]
  obtain h where h: "header p = Some h" using assms by (auto simp: packet_ok_def packet_wf_def)
  have hdr: "reads DnsHeader_Read (header_bytes h) (\<lambda>x. x = h)"
    by (auto simp: reads_def DnsHeader_Read_ahead)
  note sections = question_codec.reads_records [OF ok(1)] record_codec.reads_records [OF ok(2)]
    record_codec.reads_records [OF ok(3)] record_codec.reads_records [OF ok(4)]
  have nil: "concat (map record_bytes (additionals p)) =
      concat (map record_bytes (additionals p)) @ []" by simp
  show ?thesis
    unfolding packet_bytes_header [OF h] DnsPacket_Read_def
    by (subst nil, rule reads_bind [OF hdr], rule reads_bind [OF sections(1)],
        use packet_wfD [OF ok(5) h] in simp, rule reads_bind [OF sections(2)],
        use packet_wfD [OF ok(5) h] in simp, rule reads_bind [OF sections(3)],
        use packet_wfD [OF ok(5) h] in simp, rule reads_bind [OF sections(4)],
        use packet_wfD [OF ok(5) h] in simp, rule reads_return)
      (use h in \<open>simp add: packet_core_def\<close>)
qed

interpretation packet_codec: wire_codec DnsPacket_Read DnsPacket_Write packet_bytes packet_core packet_ok
proof (intro wire_codec.intro wire_codec_axioms.intro packet_reader)
  fix p :: DnsPacket and bb rest
  assume "packet_ok p" "ahead bb (packet_bytes p @ rest)"
  then show "\<exists>q. DnsPacket_Read bb = Ret (q, adv bb (length (packet_bytes p))) \<and>
      packet_core q = packet_core p"
    using DnsPacket_Read_reads by (auto simp: reads_def)
qed (rule DnsPacket_Write_wbuf)

lemma DnsPacket_Read_wf:
  assumes "bb_wf bb" and "DnsPacket_Read bb = Ret (p, bb')"
  shows "packet_wf p"
proof -
  from assms(2) obtain h b1 qd b2 an b3 ns b4 ar where
    h: "DnsHeader_Read bb = Ret (h, b1)"
    and qd: "read_records DnsQuestion_Read (unat (QuestionCount h)) b1 = Ret (qd, b2)"
    and an: "read_records (DnsRecord_Read Answer) (unat (AnswerCount h)) b2 = Ret (an, b3)"
    and ns: "read_records (DnsRecord_Read Authority) (unat (AuthorityCount h)) b3 = Ret (ns, b4)"
    and ar: "read_records (DnsRecord_Read Additional) (unat (AdditionalCount h)) b4 = Ret (ar, bb')"
    and p: "p = \<lparr>header = Some h, questions = qd, answers = an, authorities = ns, additionals = ar\<rparr>"
    by (auto simp: DnsPacket_Read_def outcome_simps)
  from DnsHeader_Read_Ret(1) [OF h] assms(1) have r1: "bb_wf b1" by simp
  from question_codec.records_frame [OF r1 qd] r1 have r2: "bb_wf b2" and l1: "length qd = unat (QuestionCount h)"
    by auto
  from record_codec.records_frame [OF r2 an] r2 have r3: "bb_wf b3" and l2: "length an = unat (AnswerCount h)"
    by auto
  from record_codec.records_frame [OF r3 ns] r3 have r4: "bb_wf b4" and l3: "length ns = unat (AuthorityCount h)"
    by auto
  from record_codec.records_frame [OF r4 ar] have "length ar = unat (AdditionalCount h)" by auto
  with p l1 l2 l3 show ?thesis by (simp add: packet_wf_def)
qed

section \<open>The digest of the questions\<close>

lemma absorbed_UpdateDigest:
  "absorbed ctx M \<Longrightarrow> absorbed (UpdateDigest ctx q) (M @ digest_input q)"
  unfolding UpdateDigest_def digest_input_def append_assoc [symmetric]
  by (intro absorbed_update)

lemma hash_questions_absorbed:
  "absorbed ctx M \<Longrightarrow> n = length qs \<Longrightarrow>
     \<exists>c. hash_questions n qs ctx = Ret c \<and> absorbed c (M @ concat (map digest_input qs))"
proof (induction qs arbitrary: ctx M n)
  case Nil
  then show ?case by simp
next
  case (Cons q qs)
  from Cons.IH [OF absorbed_UpdateDigest [OF Cons.prems(1)] refl] Cons.prems(2) show ?case
    by simp
qed

lemma DnsPacket_Hash_fips:
  assumes "packet_wf p" and "length junk = 64"
  shows "DnsPacket_Hash junk p = Ret (fips_sha256 (concat (map digest_input (questions p))))"
proof -
  from assms(1) obtain h where h: "header p = Some h"
    and n: "unat (QuestionCount h) = length (questions p)" by (auto simp: packet_wf_def)
  let ?ctx = "sha256_init \<lparr>ctx_data = junk, datalen = 0, bitlen = 0, ctx_state = []\<rparr>"
  have "absorbed ?ctx []" using assms(2) by (intro absorbed_init) simp
  from hash_questions_absorbed [OF this n] obtain c where
    c: "hash_questions (unat (QuestionCount h)) (questions p) ?ctx = Ret c"
      "absorbed c (concat (map digest_input (questions p)))" by auto
  show ?thesis
    by (simp add: DnsPacket_Hash_def header_of_def h c(1) sha256_final_fips [OF c(2)])
qed

section \<open>Validation\<close>

lemma validate_records_Ret:
  "validate_records v n xs code = Ret c \<longleftrightarrow>
     n \<le> length xs \<and> list_all (\<lambda>x. v x = 0) (take n xs) \<and> c = (if n = 0 then code else 0)"
  by (induction v n xs code rule: validate_records.induct) (auto simp: Let_def)

lemma count_opt_Ret:
  "count_opt n xs = Ret c \<longleftrightarrow>
     n \<le> length xs \<and> c = length (filter (\<lambda>x. Type x = QT_OPT) (take n xs))"
  by (induction n xs arbitrary: c rule: count_opt.induct) (auto simp: outcome_simps)

lemma validate_records_defined: "n \<le> length xs \<Longrightarrow> defined (validate_records v n xs code)"
  by (induction v n xs code rule: validate_records.induct) (auto simp: Let_def)

lemma count_opt_defined: "n \<le> length xs \<Longrightarrow> defined (count_opt n xs)"
  by (induction n xs rule: count_opt.induct) (auto simp: defined_obind)

lemma DnsPacket_Validate_defined:
  assumes "packet_wf p"
  shows "defined (DnsPacket_Validate pt p)"
proof -
  from assms obtain h where h: "header p = Some h" by (auto simp: packet_wf_def)
  show ?thesis
    by (auto simp: DnsPacket_Validate_def h defined_obind Let_def packet_wfD [OF assms h]
        validate_records_defined count_opt_defined)
qed

section \<open>A sample packet\<close>

definition sample_question :: DnsQuestion where
  "sample_question = \<lparr>Start = 12, Name = [98, 46, 97], Type = 1, Class = 1\<rparr>"

definition sample_record :: DnsRecord where
  "sample_record = \<lparr>Start = 21, Name = [98, 46, 97], Type = 1, Class = 1,
     RecordType = Answer, TTL = 300, Len = 4, Addr = AddrIpv4 0x0a000001\<rparr>"

definition sample_request :: DnsPacket where
  "sample_request = \<lparr>header = Some \<lparr>ID = 7, hb3 = 1, hb4 = 0, QuestionCount = 1, AnswerCount = 0,
     AuthorityCount = 0, AdditionalCount = 0\<rparr>,
     questions = [sample_question], answers = [], authorities = [], additionals = []\<rparr>"

definition sample_response :: DnsPacket where
  "sample_response = \<lparr>header = Some \<lparr>ID = 7, hb3 = 0x81, hb4 = 0x80, QuestionCount = 1, AnswerCount = 1,
     AuthorityCount = 0, AdditionalCount = 0\<rparr>,
     questions = [sample_question], answers = [sample_record], authorities = [], additionals = []\<rparr>"

text \<open>The bytes of the request, with two spare bytes behind them.\<close>

definition sample_input :: PacketBuffer where
  "sample_input = \<lparr>bb_buf = [0, 7, 1, 0, 0, 1, 0, 0, 0, 0, 0, 0, 1, 98, 1, 97, 0, 0, 1, 0, 1, 0, 0],
     bb_pos = 0, bb_size = 21, bb_udp = 0\<rparr>"

text \<open>A request whose question's name is a pointer to a zero byte.\<close>

definition sample_underflow :: PacketBuffer where
  "sample_underflow = \<lparr>bb_buf = [0, 7, 1, 0, 0, 1, 0, 0, 0, 0, 0, 0, 0xc0, 3, 0, 1, 0, 1, 0, 0],
     bb_pos = 0, bb_size = 18, bb_udp = 0\<rparr>"

text \<open>A response that fills its buffer and ends after two of the four bytes of a record's TTL.\<close>

definition sample_overrun :: PacketBuffer where
  "sample_overrun = \<lparr>bb_buf = [0, 7, 0x81, 0x80, 0, 0, 0, 1, 0, 0, 0, 0, 1, 97, 0, 0, 1, 0, 1, 0, 0],
     bb_pos = 0, bb_size = 21, bb_udp = 0\<rparr>"

lemma sample_packets_ok: "packet_ok sample_request" "packet_ok sample_response"
  by (auto simp: packet_ok_def packet_wf_def sample_request_def sample_response_def
      sample_question_def sample_record_def record_ok_def name_valid_def name_ok_def label_ok_def
      dotted_def)

lemma length_sample_response: "length (packet_bytes sample_response) = 40"
  by (simp add: packet_bytes_def sample_response_def sample_question_def sample_record_def)

section \<open>Properties\<close>

text \<open>
  C5: round trip of a message. A well-formed packet whose wire form fits in the buffer is written as
  that wire form, and reading it back succeeds, consumes exactly the written bytes and gives the same
  packet up to the offsets remembered for the names.
\<close>

theorem packet_write_read:
  assumes "packet_ok p" and "length (packet_bytes p) < MAX_PACKET_SZ"
  shows "\<exists>bb q. DnsPacket_Write p (wbuf [] MAX_PACKET_SZ) = Ret bb \<and>
     take (bb_pos bb) (bb_buf bb) = packet_bytes p \<and>
     DnsPacket_Read (bb\<lparr>bb_pos := 0, bb_size := bb_pos bb\<rparr>) =
       Ret (q, bb\<lparr>bb_pos := bb_pos bb, bb_size := bb_pos bb\<rparr>) \<and>
     packet_core q = packet_core p"
proof -
  let ?bs = "packet_bytes p"
  let ?bb = "wbuf ?bs (MAX_PACKET_SZ - length ?bs)"
  have "ahead (?bb\<lparr>bb_pos := 0, bb_size := bb_pos ?bb\<rparr>) (?bs @ [])"
    by (simp add: ahead_def bb_wf_def wbuf_def)
  from packet_codec.rd_ahead [OF assms(1) this] obtain q where
    "DnsPacket_Read (?bb\<lparr>bb_pos := 0, bb_size := bb_pos ?bb\<rparr>) =
       Ret (q, ?bb\<lparr>bb_pos := bb_pos ?bb, bb_size := bb_pos ?bb\<rparr>)" "packet_core q = packet_core p"
    by (auto simp: wbuf_def)
  moreover have "DnsPacket_Write p (wbuf [] MAX_PACKET_SZ) = Ret ?bb"
    using packet_codec.wr_wbuf [OF assms, of "[]"] by simp
  moreover have "take (bb_pos ?bb) (bb_buf ?bb) = ?bs" by (simp add: wbuf_def)
  ultimately show ?thesis by blast
qed

theorem packet_write_read_witness:
  "\<exists>bb q. DnsPacket_Write sample_response (wbuf [] MAX_PACKET_SZ) = Ret bb \<and>
     take (bb_pos bb) (bb_buf bb) = packet_bytes sample_response \<and>
     DnsPacket_Read (bb\<lparr>bb_pos := 0, bb_size := bb_pos bb\<rparr>) =
       Ret (q, bb\<lparr>bb_pos := bb_pos bb, bb_size := bb_pos bb\<rparr>) \<and>
     packet_core q = packet_core sample_response"
  by (rule packet_write_read) (simp_all add: sample_packets_ok length_sample_response)

text \<open>
  C14: memory safety of the parser. For any bytes and any size of packet that the array holds, the only
  undefined behaviour of \<open>DnsPacket::Read\<close> is: a store in front of the storage of a name; a store past its
  end, and then only for packets over 205 bytes; and a read past the array of the buffer by \<open>VREAD_U32\<close>, and
  then only when fewer than two bytes are free behind the packet. So no packet of at most \<open>MAX_PACKET_SZ - 2\<close>
  bytes in the receive buffer is read past the array, while one of 2266 or 2267 bytes may be.
\<close>

theorem packet_read_memory_safe:
  assumes "bb_size bb \<le> length (bb_buf bb)" and "DnsPacket_Read bb = Undef u"
  shows "u = StorageUnderflow \<or> (u = StorageOverflow \<and> 205 < bb_size bb) \<or>
     (u = BufferOverrun \<and> length (bb_buf bb) < bb_size bb + 2)"
  using packet_codec.rd_safe [of bb u] assms by (simp add: bb_wf_def reader_ub_def)

theorem packet_read_memory_safe_witness:
  "DnsPacket_Read sample_underflow = Undef StorageUnderflow \<and>
   DnsPacket_Read sample_overrun = Undef BufferOverrun \<and> length (bb_buf sample_overrun) < bb_size sample_overrun + 2"
proof -
  have u: "DnsPacket_Read sample_underflow = Undef StorageUnderflow" by code_simp
  have o: "DnsPacket_Read sample_overrun = Undef BufferOverrun" by code_simp
  have "bb_size sample_overrun \<le> length (bb_buf sample_overrun)" by (simp add: sample_overrun_def)
  from packet_read_memory_safe [OF this o] u o show ?thesis by simp
qed

text \<open>
  C26: what \<open>DnsPacket::Read\<close> accepts has as many questions and records as the counts of its header
  say, so that the loops of \<open>Write\<close>, \<open>Validate\<close> and \<open>Hash\<close> stay inside the arrays; reading moves
  nothing but the position of the buffer.
\<close>

theorem packet_read_well_formed:
  assumes "bb_size bb \<le> length (bb_buf bb)" and "DnsPacket_Read bb = Ret (p, bb')"
  shows "packet_wf p \<and> (\<exists>pos. bb' = bb\<lparr>bb_pos := pos\<rparr>) \<and> defined (DnsPacket_Validate pt p)"
proof -
  from assms(1) have r: "bb_wf bb" by (simp add: bb_wf_def)
  from packet_codec.rd_frame [OF r assms(2)] DnsPacket_Read_wf [OF r assms(2)]
    DnsPacket_Validate_defined show ?thesis by blast
qed

theorem packet_read_well_formed_witness:
  "packet_wf sample_request \<and> (\<exists>pos. sample_input\<lparr>bb_pos := 21\<rparr> = sample_input\<lparr>bb_pos := pos\<rparr>) \<and>
   defined (DnsPacket_Validate IncomingRequest sample_request)"
proof (rule packet_read_well_formed)
  show "DnsPacket_Read sample_input = Ret (sample_request, sample_input\<lparr>bb_pos := 21\<rparr>)" by code_simp
qed (simp add: sample_input_def)

text \<open>
  C13: the key of a query. The digest that \<open>DnsPacket::Hash\<close> computes with the streaming code is the
  SHA-256 of FIPS 180-4 of the concatenated questions (name, then type and class low byte first),
  whatever the uninitialised context holds.
\<close>

theorem packet_hash_is_sha256:
  assumes "packet_wf p" and "length junk = 64"
  shows "DnsPacket_Hash junk p = Ret (fips_sha256 (concat (map digest_input (questions p))))"
  by (rule DnsPacket_Hash_fips [OF assms])

theorem packet_hash_is_sha256_witness:
  "DnsPacket_Hash (replicate 64 0xff) sample_request = Ret (fips_sha256 [98, 46, 97, 1, 0, 1, 0])"
  using packet_hash_is_sha256 [of sample_request "replicate 64 0xff"] sample_packets_ok(1)
  by (simp add: packet_ok_def digest_input_def c_str_def sample_request_def sample_question_def bytes16_def)

text \<open>
  C30: what \<open>DnsPacket::Validate\<close> accepts. A packet with a valid header is accepted whatever its
  records are; one whose header is rejected is accepted when it has at least one record, all of them
  are valid and it has at most one pseudo record. The inverted test of the header's code does this.
\<close>

theorem packet_validate_accepts_iff:
  assumes "packet_wf p" and "header p = Some h" and "pt = IncomingRequest \<or> pt = IncomingResponse"
  shows "DnsPacket_Validate pt p = Ret () \<longleftrightarrow>
     DnsHeader_Validate pt h = E_NOERROR \<or>
     (questions p \<noteq> [] \<or> answers p @ authorities p @ additionals p \<noteq> []) \<and>
     list_all (\<lambda>q. DnsQuestion_Validate pt q = E_NOERROR) (questions p) \<and>
     list_all (\<lambda>r. DnsRecord_Validate pt r = E_NOERROR) (answers p @ authorities p @ additionals p) \<and>
     length (filter (\<lambda>r. Type r = QT_OPT) (additionals p)) \<le> 1"
  using assms(3)
  by (auto simp: DnsPacket_Validate_def assms(2) packet_wfD [OF assms(1,2)] outcome_simps
      validate_records_Ret count_opt_Ret Let_def split: if_splits)

theorem packet_validate_accepts_iff_witness:
  "DnsPacket_Validate IncomingRequest sample_response = Ret ()"
  using packet_validate_accepts_iff [of sample_response _ IncomingRequest] sample_packets_ok(2)
  by (simp add: packet_ok_def sample_response_def sample_question_def sample_record_def
      DnsQuestion_Validate_def DnsRecord_Validate_def)

end
