(* ===== verification/Eth_Mappings.thy ===== *)
theory Eth_Mappings
  imports Net_Common
begin

text \<open>
  \<^verbatim>\<open>include/bookkeeping/ethmappings.hpp\<close> and \<^verbatim>\<open>src/bookkeeping/ethmappings.cpp\<close>: the table of
  hardware addresses learned from raw frames. The array of \<open>MAX_MAC_IP_MAPPINGS\<close> records is a list of
  that length, of which the first \<open>count\<close> are in use; what the others hold is arbitrary. Pointers to
  records are indices. \<open>GetNow()\<close> is the argument \<open>now\<close>.
\<close>

abbreviation (input) MAX_MAC_IP_MAPPINGS :: nat where "MAX_MAC_IP_MAPPINGS \<equiv> 100"
abbreviation (input) MAPPING_TIMEOUT :: int where "MAPPING_TIMEOUT \<equiv> 5"

record MacMappingRecord =
  ethaddress :: EthAddress
  mac_ipv4 :: bool
  ipaddress :: IpAddress
  mac_time :: int

record EthMappings =
  mac_count :: nat
  mac_records :: "MacMappingRecord list"

text \<open>The records that the loops \<open>for (i = 0; i < count; i++)\<close> visit.\<close>

definition used_records :: "EthMappings \<Rightarrow> MacMappingRecord list" where
  "used_records m = take (mac_count m) (mac_records m)"

section \<open>Add\<close>

text \<open>
  The loop of \<open>Add\<close>, with the index of the current record and the locals \<open>target\<close> and \<open>oldest\<close>. The
  comparison is the one of the code, \<open>oldest->time < r.time\<close>.
\<close>

fun Add_scan ::
  "EthAddress \<Rightarrow> MacMappingRecord list \<Rightarrow> nat \<Rightarrow> (nat \<times> MacMappingRecord) option \<Rightarrow>
     nat option \<times> (nat \<times> MacMappingRecord) option" where
  "Add_scan e [] i oldest = (None, oldest)"
| "Add_scan e (r # rs) i oldest =
     (if ethaddress r = e then (Some i, oldest)
      else Add_scan e rs (i + 1)
        (case oldest of None \<Rightarrow> Some (i, r)
         | Some (j, ro) \<Rightarrow> if mac_time ro < mac_time r then Some (i, r) else oldest))"

text \<open>Filling the target: an IPv4 address overwrites only the first word of the union.\<close>

definition fill_record ::
  "int \<Rightarrow> EthAddress \<Rightarrow> bool \<Rightarrow> IpAddress \<Rightarrow> MacMappingRecord \<Rightarrow> MacMappingRecord" where
  "fill_record now e v4 ip r = r\<lparr>mac_ipv4 := v4, ethaddress := e,
     ipaddress := (if v4 then set_ip_word (ipaddress r) 0 (Ipv4 ip) else ip), mac_time := now\<rparr>"

definition EthMappings_Add ::
  "int \<Rightarrow> EthAddress \<Rightarrow> bool \<Rightarrow> IpAddress \<Rightarrow> EthMappings \<Rightarrow> bool \<times> EthMappings" where
  "EthMappings_Add now e v4 ip m =
     (let (target, oldest) = Add_scan e (used_records m) 0 None;
          (target, n) =
            (if target = None \<and> mac_count m < MAX_MAC_IP_MAPPINGS then (Some (mac_count m), mac_count m + 1)
             else (target, mac_count m));
          target =
            (if target = None then
               (case oldest of None \<Rightarrow> None
                | Some (j, ro) \<Rightarrow> if now - mac_time ro > MAPPING_TIMEOUT then Some j else None)
             else target)
      in case target of
           Some t \<Rightarrow> (True, m\<lparr>mac_count := n,
             mac_records := (mac_records m)[t := fill_record now e v4 ip (mac_records m ! t)]\<rparr>)
         | None \<Rightarrow> (False, m\<lparr>mac_count := n\<rparr>))"

section \<open>LookUp\<close>

definition EthMappings_LookUp :: "IpAddress \<Rightarrow> bool \<Rightarrow> EthMappings \<Rightarrow> MacMappingRecord option" where
  "EthMappings_LookUp ip v4 m =
     find (\<lambda>r. mac_ipv4 r = v4 \<and>
         (v4 \<and> Ipv4 ip = Ipv4 (ipaddress r) \<or>
          \<not> v4 \<and> map (ip_word ip) [0, 1, 2, 3] = map (ip_word (ipaddress r)) [0, 1, 2, 3]))
       (used_records m)"

section \<open>Invariant and abstraction\<close>

definition record_wf :: "MacMappingRecord \<Rightarrow> bool" where
  "record_wf r \<longleftrightarrow> ip_ok (ipaddress r)"

text \<open>The array is full size, and no hardware address occupies two records.\<close>

definition mappings_inv :: "EthMappings \<Rightarrow> bool" where
  "mappings_inv m \<longleftrightarrow> length (mac_records m) = MAX_MAC_IP_MAPPINGS \<and> mac_count m \<le> MAX_MAC_IP_MAPPINGS \<and>
     list_all record_wf (mac_records m) \<and>
     distinct (map ethaddress (take (mac_count m) (mac_records m)))"

text \<open>The part of an address that the table compares.\<close>

definition ip_key :: "bool \<Rightarrow> IpAddress \<Rightarrow> u32 list" where
  "ip_key v4 ip = map (ip_word ip) (if v4 then [0] else [0, 1, 2, 3])"

definition mapping_of :: "MacMappingRecord \<Rightarrow> EthAddress \<times> bool \<times> u32 list" where
  "mapping_of r = (ethaddress r, mac_ipv4 r, ip_key (mac_ipv4 r) (ipaddress r))"

section \<open>Lemmas\<close>

lemma Add_scan_None: "fst (Add_scan e rs i ro) = None \<longleftrightarrow> e \<notin> ethaddress ` set rs"
  by (induction e rs i ro rule: Add_scan.induct) auto

lemma Add_scan_Some:
  "fst (Add_scan e rs i ro) = Some t \<Longrightarrow> i \<le> t \<and> t < i + length rs \<and> ethaddress (rs ! (t - i)) = e"
  by (induction e rs i ro rule: Add_scan.induct) (force split: if_splits simp: nth_Cons')+

text \<open>What the loop calls \<open>oldest\<close>: a record with the largest time stamp.\<close>

lemma Add_scan_oldest:
  assumes "fst (Add_scan e rs i ro) = None"
  shows "snd (Add_scan e rs i ro) = None \<longleftrightarrow> rs = [] \<and> ro = None"
    and "snd (Add_scan e rs i ro) = Some (j, r) \<Longrightarrow>
      (ro = Some (j, r) \<or> (i \<le> j \<and> j < i + length rs \<and> r = rs ! (j - i))) \<and>
      (\<forall>s \<in> set rs \<union> (case ro of None \<Rightarrow> {} | Some (k, s) \<Rightarrow> {s}). mac_time s \<le> mac_time r)"
  using assms
  by (induction e rs i ro rule: Add_scan.induct)
    (auto split: if_splits option.splits simp: nth_Cons' less_Suc_eq_le Suc_le_eq)


text \<open>The four ways \<open>Add\<close> can end.\<close>

lemma Add_cases:
  assumes "mappings_inv m"
  obtains (update) t where "t < mac_count m" "ethaddress (mac_records m ! t) = e"
      "EthMappings_Add now e v4 ip m =
        (True, m\<lparr>mac_records := (mac_records m)[t := fill_record now e v4 ip (mac_records m ! t)]\<rparr>)"
  | (insert) "e \<notin> ethaddress ` set (used_records m)" "mac_count m < MAX_MAC_IP_MAPPINGS"
      "EthMappings_Add now e v4 ip m = (True, m\<lparr>mac_count := mac_count m + 1,
         mac_records := (mac_records m)[mac_count m := fill_record now e v4 ip (mac_records m ! mac_count m)]\<rparr>)"
  | (evict) t where "e \<notin> ethaddress ` set (used_records m)" "mac_count m = MAX_MAC_IP_MAPPINGS" "t < mac_count m"
      "\<forall>s \<in> set (used_records m). mac_time s \<le> mac_time (mac_records m ! t)"
      "now - mac_time (mac_records m ! t) > MAPPING_TIMEOUT"
      "EthMappings_Add now e v4 ip m =
        (True, m\<lparr>mac_records := (mac_records m)[t := fill_record now e v4 ip (mac_records m ! t)]\<rparr>)"
  | (refuse) t where "e \<notin> ethaddress ` set (used_records m)" "mac_count m = MAX_MAC_IP_MAPPINGS" "t < mac_count m"
      "\<forall>s \<in> set (used_records m). mac_time s \<le> mac_time (mac_records m ! t)"
      "now - mac_time (mac_records m ! t) \<le> MAPPING_TIMEOUT"
      "EthMappings_Add now e v4 ip m = (False, m)"
proof -
  obtain target oldest where scan: "Add_scan e (used_records m) 0 None = (target, oldest)" by fastforce
  have same: "mac_count m = n \<Longrightarrow> m\<lparr>mac_count := n\<rparr> = m" "mac_count m = n \<Longrightarrow> m\<lparr>mac_count := n, mac_records := rs\<rparr> = m\<lparr>mac_records := rs\<rparr>"
    for n rs by (cases m; simp)+
  note defs = EthMappings_Add_def scan same
  from assms have len: "length (used_records m) = mac_count m" "mac_count m \<le> MAX_MAC_IP_MAPPINGS"
    "length (mac_records m) = MAX_MAC_IP_MAPPINGS" by (auto simp: mappings_inv_def used_records_def)
  have nth: "j < mac_count m \<Longrightarrow> used_records m ! j = mac_records m ! j" for j by (simp add: used_records_def)
  show ?thesis
  proof (cases target)
    case (Some t)
    with Add_scan_Some [of e "used_records m" 0 None t] scan len nth have "t < mac_count m" "ethaddress (mac_records m ! t) = e"
      by auto
    with Some show ?thesis by (intro update) (auto simp: defs)
  next
    case None
    with scan Add_scan_None [of e "used_records m" 0 None] have new: "e \<notin> ethaddress ` set (used_records m)" by simp
    show ?thesis
    proof (cases "mac_count m < MAX_MAC_IP_MAPPINGS")
      case True
      with None new show ?thesis by (intro insert) (auto simp: defs)
    next
      case False
      with len have full: "mac_count m = MAX_MAC_IP_MAPPINGS" by simp
      with len have "used_records m \<noteq> []" by auto
      with Add_scan_oldest(1) [of e "used_records m" 0 None] scan None obtain j r where o: "oldest = Some (j, r)"
        by auto
      with Add_scan_oldest(2) [of e "used_records m" 0 None j r] scan None len nth
      have j: "j < mac_count m" "r = mac_records m ! j" "\<forall>s \<in> set (used_records m). mac_time s \<le> mac_time (mac_records m ! j)"
        by auto
      show ?thesis
      proof (cases "now - mac_time r > MAPPING_TIMEOUT")
        case True
        with None o j new full show ?thesis by (intro evict [of j]) (auto simp: defs)
      next
        case False
        with None o j new full show ?thesis by (intro refuse [of j]) (auto simp: defs)
      qed
    qed
  qed
qed

lemma set_ip_word_0:
  assumes "ip_ok a"
  shows "ip_ok (set_ip_word a 0 w)" and "ip_word (set_ip_word a 0 w) 0 = w"
  using assms
  by (simp_all add: ip_ok_def ip_word_def set_ip_word_def le32_def bytes32_def)
    (simp add: byte_simps)

lemma fill_record_sel [simp]:
  "ethaddress (fill_record now e v4 ip r) = e" "mac_time (fill_record now e v4 ip r) = now"
  "mac_ipv4 (fill_record now e v4 ip r) = v4"
  by (simp_all add: fill_record_def)

lemma fill_record_wf:
  assumes "record_wf r" and "ip_ok ip"
  shows "record_wf (fill_record now e v4 ip r)" and "mapping_of (fill_record now e v4 ip r) = (e, v4, ip_key v4 ip)"
  using assms
  by (auto simp: record_wf_def fill_record_def set_ip_word_0 mapping_of_def ip_key_def)

lemma LookUp_find:
  "EthMappings_LookUp ip v4 m = find (\<lambda>r. (mac_ipv4 r, ip_key (mac_ipv4 r) (ipaddress r)) = (v4, ip_key v4 ip)) (used_records m)"
proof -
  have "(mac_ipv4 r = v4 \<and> (v4 \<and> Ipv4 ip = Ipv4 (ipaddress r) \<or>
      \<not> v4 \<and> map (ip_word ip) [0, 1, 2, 3] = map (ip_word (ipaddress r)) [0, 1, 2, 3])) =
      ((mac_ipv4 r, ip_key (mac_ipv4 r) (ipaddress r)) = (v4, ip_key v4 ip))" for r
    by (cases v4) (auto simp: ip_key_def)
  then show ?thesis unfolding EthMappings_LookUp_def by (intro find_cong refl)
qed

lemma mappings_inv_update:
  assumes "mappings_inv m" and "t < mac_count m" and "record_wf r"
    and "ethaddress r = ethaddress (mac_records m ! t) \<or> ethaddress r \<notin> ethaddress ` set (used_records m)"
  shows "mappings_inv (m\<lparr>mac_records := (mac_records m)[t := r]\<rparr>)"
proof -
  let ?es = "map ethaddress (take (mac_count m) (mac_records m))"
  have "map ethaddress (take (mac_count m) ((mac_records m)[t := r])) = ?es[t := ethaddress r]"
    by (simp add: take_update_swap map_update)
  moreover from assms(4) have "distinct (?es[t := ethaddress r])"
  proof
    assume "ethaddress r = ethaddress (mac_records m ! t)"
    then have "?es[t := ethaddress r] = ?es"
      using assms(1,2) by (intro nth_equalityI) (auto simp: nth_list_update mappings_inv_def)
    with assms(1) show ?thesis by (simp add: mappings_inv_def)
  next
    assume "ethaddress r \<notin> ethaddress ` set (used_records m)"
    with assms(1) show ?thesis by (intro distinct_list_update) (auto simp: mappings_inv_def used_records_def)
  qed
  ultimately show ?thesis
    using assms(1,3) by (auto simp: mappings_inv_def list_all_iff dest: set_update_subset_insert [THEN subsetD])
qed

lemma mappings_inv_insert:
  assumes "mappings_inv m" and "mac_count m < MAX_MAC_IP_MAPPINGS" and "record_wf r"
    and "ethaddress r \<notin> ethaddress ` set (used_records m)"
  shows "mappings_inv (m\<lparr>mac_count := mac_count m + 1, mac_records := (mac_records m)[mac_count m := r]\<rparr>)"
  using assms
  by (auto simp: mappings_inv_def used_records_def take_Suc_conv_app_nth list_all_iff
      dest: set_update_subset_insert [THEN subsetD])

lemma Add_inv:
  assumes "mappings_inv m" and "ip_ok ip"
  shows "mappings_inv (snd (EthMappings_Add now e v4 ip m))"
proof -
  have wf: "t < MAX_MAC_IP_MAPPINGS \<Longrightarrow> record_wf (fill_record now e v4 ip (mac_records m ! t))" for t
    using assms by (intro fill_record_wf) (auto simp: mappings_inv_def list_all_length)
  have le: "mac_count m \<le> MAX_MAC_IP_MAPPINGS" using assms(1) by (simp add: mappings_inv_def)
  from assms(1) show ?thesis
    by (cases rule: Add_cases [where e = e and now = now and ?v4.0 = v4 and ip = ip])
      (use assms(1) wf le mappings_inv_update mappings_inv_insert in auto)
qed

section \<open>Directories of learned addresses\<close>

text \<open>
  What the server relies on: learning a sighting adds at most the pair it shows, a lookup answers with
  a pair that is stored, and a stored pair is found by some record. \<open>pairs\<close> is the abstract content.
\<close>

locale directory =
  fixes learn :: "'a \<Rightarrow> 's \<Rightarrow> 's"
    and lookup :: "'k \<Rightarrow> 's \<Rightarrow> 'e option"
    and inv :: "'s \<Rightarrow> bool"
    and pairs :: "'s \<Rightarrow> ('e \<times> 'k) set"
    and ok :: "'a \<Rightarrow> bool"
    and pair_of :: "'a \<Rightarrow> 'e \<times> 'k"
  assumes learn_inv: "inv s \<Longrightarrow> ok a \<Longrightarrow> inv (learn a s)"
    and learn_pairs: "inv s \<Longrightarrow> ok a \<Longrightarrow> pairs (learn a s) \<subseteq> insert (pair_of a) (pairs s)"
    and lookup_pairs: "lookup k s = Some e \<Longrightarrow> (e, k) \<in> pairs s"
    and lookup_total: "(e, k) \<in> pairs s \<Longrightarrow> lookup k s \<noteq> None"
begin

lemma learn_all:
  "inv s \<Longrightarrow> list_all ok xs \<Longrightarrow>
     inv (fold learn xs s) \<and> pairs (fold learn xs s) \<subseteq> pair_of ` set xs \<union> pairs s"
proof (induction xs arbitrary: s)
  case Nil
  then show ?case by simp
next
  case (Cons a xs)
  with Cons.IH [of "learn a s"] learn_inv [of s a] learn_pairs [of s a] show ?case by auto
qed

lemma lookup_learned:
  assumes "inv s" and "pairs s = {}" and "list_all ok xs" and "lookup k (fold learn xs s) = Some e"
  shows "(e, k) \<in> pair_of ` set xs"
  using learn_all [OF assms(1,3)] lookup_pairs [OF assms(4)] assms(2) by auto

end

text \<open>The interface as the model provides it; a sighting is the time, the frame's source and its address.\<close>

definition learn_eth :: "int \<times> EthAddress \<times> bool \<times> IpAddress \<Rightarrow> EthMappings \<Rightarrow> EthMappings" where
  "learn_eth = (\<lambda>(now, e, v4, ip). snd \<circ> EthMappings_Add now e v4 ip)"

definition lookup_key :: "bool \<times> u32 list \<Rightarrow> EthMappings \<Rightarrow> EthAddress option" where
  "lookup_key k m = map_option ethaddress (find (\<lambda>r. (mac_ipv4 r, ip_key (mac_ipv4 r) (ipaddress r)) = k) (used_records m))"

lemma LookUp_lookup_key:
  "map_option ethaddress (EthMappings_LookUp ip v4 m) = lookup_key (v4, ip_key v4 ip) m"
  by (simp add: LookUp_find lookup_key_def)

lemma used_update: "t < mac_count m \<Longrightarrow> set (used_records (m\<lparr>mac_records := (mac_records m)[t := r]\<rparr>)) \<subseteq> insert r (set (used_records m))"
  by (auto simp: used_records_def take_update_swap dest: set_update_subset_insert [THEN subsetD])

lemma used_insert:
  "mac_count m < length (mac_records m) \<Longrightarrow>
     used_records (m\<lparr>mac_count := mac_count m + 1, mac_records := (mac_records m)[mac_count m := r]\<rparr>) = used_records m @ [r]"
  by (simp add: used_records_def take_Suc_conv_app_nth)

lemma records_used: "mappings_inv m \<Longrightarrow> t < mac_count m \<Longrightarrow> mac_records m ! t \<in> set (used_records m)"
  by (auto simp: used_records_def in_set_conv_nth mappings_inv_def)

lemma records_wf: "mappings_inv m \<Longrightarrow> t < MAX_MAC_IP_MAPPINGS \<Longrightarrow> record_wf (mac_records m ! t)"
  by (auto simp: mappings_inv_def list_all_length)

lemma Add_success:
  assumes "mappings_inv m" and "fst (EthMappings_Add now e v4 ip m)"
  obtains s where "record_wf s"
    "fill_record now e v4 ip s \<in> set (used_records (snd (EthMappings_Add now e v4 ip m)))"
    "set (used_records (snd (EthMappings_Add now e v4 ip m))) \<subseteq> insert (fill_record now e v4 ip s) (set (used_records m))"
proof -
  note found = that
  have le: "mac_count m \<le> MAX_MAC_IP_MAPPINGS" "length (mac_records m) = MAX_MAC_IP_MAPPINGS"
    using assms(1) by (auto simp: mappings_inv_def)
  have upd: thesis if "t < mac_count m" "snd (EthMappings_Add now e v4 ip m) =
      m\<lparr>mac_records := (mac_records m)[t := fill_record now e v4 ip (mac_records m ! t)]\<rparr>" for t
    using that le records_wf [OF assms(1), of t] used_update [of t m]
    by (intro found [of "mac_records m ! t"]) (auto simp: used_records_def take_update_swap set_update_memI)
  from assms(1) show thesis
  proof (cases rule: Add_cases [where e = e and now = now and ?v4.0 = v4 and ip = ip])
    case insert
    with le records_wf [OF assms(1), of "mac_count m"] used_insert [of m] show ?thesis
      by (intro found [of "mac_records m ! mac_count m"]) auto
  qed (use upd assms(2) in auto)
qed

lemma Add_failure: "mappings_inv m \<Longrightarrow> \<not> fst (EthMappings_Add now e v4 ip m) \<Longrightarrow> snd (EthMappings_Add now e v4 ip m) = m"
  by (cases rule: Add_cases [where e = e and now = now and ?v4.0 = v4 and ip = ip]) auto

lemma Add_used:
  assumes "mappings_inv m" and "ip_ok ip"
  shows "mapping_of ` set (used_records (snd (EthMappings_Add now e v4 ip m))) \<subseteq>
     insert (e, v4, ip_key v4 ip) (mapping_of ` set (used_records m))"
proof (cases "fst (EthMappings_Add now e v4 ip m)")
  case True
  from Add_success [OF assms(1) True] fill_record_wf(2) [OF _ assms(2)] show ?thesis
    by (metis (no_types, lifting) image_insert image_mono)
qed (use Add_failure [OF assms(1)] in auto)

interpretation eth: directory learn_eth lookup_key mappings_inv
  "\<lambda>m. mapping_of ` set (used_records m)" "\<lambda>(now, e, v4, ip). ip_ok ip" "\<lambda>(now, e, v4, ip). (e, v4, ip_key v4 ip)"
proof
  fix a :: "int \<times> EthAddress \<times> bool \<times> IpAddress" and m
  assume m: "mappings_inv m" and a: "case a of (now, e, v4, ip) \<Rightarrow> ip_ok ip"
  show "mappings_inv (learn_eth a m)" using m a Add_inv by (cases a) (simp add: learn_eth_def)
  from m a Add_used show "mapping_of ` set (used_records (learn_eth a m)) \<subseteq>
      insert (case a of (now, e, v4, ip) \<Rightarrow> (e, v4, ip_key v4 ip)) (mapping_of ` set (used_records m))"
    by (cases a) (auto simp: learn_eth_def)
next
  fix k e m
  assume "lookup_key k m = Some e"
  then show "(e, k) \<in> mapping_of ` set (used_records m)"
    by (auto simp: lookup_key_def mapping_of_def find_Some_iff image_iff)
next
  fix e k m
  assume "(e, k) \<in> mapping_of ` set (used_records m)"
  then show "lookup_key k m \<noteq> None"
    by (auto simp: lookup_key_def mapping_of_def find_None_iff)
qed

subsection \<open>Looking up what was added\<close>

lemma LookUp_after_Add:
  assumes "mappings_inv m" and "ip_ok ip" and "fst (EthMappings_Add now e v4 ip m)"
    and "\<forall>r \<in> set (used_records m). ethaddress r \<noteq> e \<longrightarrow> (mac_ipv4 r, ip_key (mac_ipv4 r) (ipaddress r)) \<noteq> (v4, ip_key v4 ip)"
  shows "\<exists>r. EthMappings_LookUp ip v4 (snd (EthMappings_Add now e v4 ip m)) = Some r \<and>
     ethaddress r = e \<and> mac_time r = now \<and> mac_ipv4 r = v4"
proof -
  let ?m = "snd (EthMappings_Add now e v4 ip m)"
  obtain s where s: "record_wf s" "fill_record now e v4 ip s \<in> set (used_records ?m)"
    "set (used_records ?m) \<subseteq> insert (fill_record now e v4 ip s) (set (used_records m))"
    using Add_success [OF assms(1,3)] by blast
  let ?F = "fill_record now e v4 ip s"
  let ?P = "\<lambda>r. (mac_ipv4 r, ip_key (mac_ipv4 r) (ipaddress r)) = (v4, ip_key v4 ip)"
  have "?P ?F" using fill_record_wf(2) [OF s(1) assms(2)] by (simp add: mapping_of_def)
  with s(2) obtain r where r: "find ?P (used_records ?m) = Some r"
    by (metis (mono_tags, lifting) find_None_iff not_None_eq)
  then have rP: "?P r" "r \<in> set (used_records ?m)" by (auto simp: find_Some_iff in_set_conv_nth)
  have "r = ?F"
  proof (rule ccontr)
    assume "r \<noteq> ?F"
    with rP s(3) assms(4) have "ethaddress r = e" by auto
    moreover have "inj_on ethaddress (set (used_records ?m))"
      using Add_inv [OF assms(1,2)] by (auto simp: mappings_inv_def used_records_def distinct_map)
    ultimately show False using s(2) rP(2) \<open>r \<noteq> ?F\<close> inj_onD [of ethaddress _ r ?F] by simp
  qed
  with r show ?thesis by (simp add: LookUp_find)
qed

section \<open>A sample table\<close>

definition sample_table :: EthMappings where
  "sample_table = \<lparr>mac_count = 0, mac_records = replicate MAX_MAC_IP_MAPPINGS
     \<lparr>ethaddress = [0, 0, 0, 0, 0, 0], mac_ipv4 = False, ipaddress = replicate 16 0, mac_time = 0\<rparr>\<rparr>"

lemma sample_table_inv [simp]: "mappings_inv sample_table" "used_records sample_table = []" "mac_count sample_table = 0"
  by (simp_all add: sample_table_def mappings_inv_def record_wf_def ip_ok_def used_records_def list_all_iff)

text \<open>A hundred stations, the first seen at time 1000 and the others at time 0.\<close>

definition full_table :: EthMappings where
  "full_table = \<lparr>mac_count = MAX_MAC_IP_MAPPINGS, mac_records =
     map (\<lambda>i. \<lparr>ethaddress = [of_nat i, 0, 0, 0, 0, 0], mac_ipv4 = True, ipaddress = replicate 16 0,
       mac_time = (if i = 0 then 1000 else 0)\<rparr>) [0..<MAX_MAC_IP_MAPPINGS]\<rparr>"

lemma full_table_inv: "mappings_inv full_table" "[1, 2, 3, 4, 5, 6] \<notin> ethaddress ` set (used_records full_table)"
proof -
  have "inj_on (\<lambda>i. [of_nat i, 0, 0, 0, 0, 0] :: EthAddress) {0..<MAX_MAC_IP_MAPPINGS}"
    by (auto simp: inj_on_def word_of_nat_eq_iff take_bit_nat_eq_self)
  then show "mappings_inv full_table"
    by (auto simp: mappings_inv_def full_table_def list_all_iff record_wf_def ip_ok_def distinct_map comp_def)
qed (auto simp: full_table_def used_records_def)

section \<open>Properties\<close>

text \<open>
  The table invariant. Adding a sighting keeps the table within its hundred records, with no
  hardware address stored twice, for every branch of \<open>Add\<close>.
\<close>

theorem eth_add_keeps_invariant:
  assumes "mappings_inv m" and "ip_ok ip"
  shows "mappings_inv (snd (EthMappings_Add now e v4 ip m))"
  by (rule Add_inv [OF assms])

theorem eth_add_keeps_invariant_witness:
  "mappings_inv (snd (EthMappings_Add 9 [1, 2, 3, 4, 5, 6] True (replicate 16 7) sample_table))"
  by (rule eth_add_keeps_invariant) (simp_all add: ip_ok_def)

text \<open>
  Provenance. Whatever sequence of frames was seen since the table was empty, a hardware address
  that \<open>LookUp\<close> reports for an IP address was the source of a frame with that IP address.
\<close>

theorem eth_lookup_was_seen:
  assumes "mappings_inv m" and "mac_count m = 0" and "list_all (\<lambda>(now, e, v4, ip). ip_ok ip) xs"
    and "EthMappings_LookUp ip v4 (fold learn_eth xs m) = Some r"
  shows "\<exists>now ip'. (now, ethaddress r, v4, ip') \<in> set xs \<and> ip_key v4 ip' = ip_key v4 ip"
proof -
  have "lookup_key (v4, ip_key v4 ip) (fold learn_eth xs m) = Some (ethaddress r)"
    using assms(4) LookUp_lookup_key [of ip v4 "fold learn_eth xs m"] by simp
  from eth.lookup_learned [OF assms(1) _ assms(3) this] assms(2) show ?thesis
    by (force simp: used_records_def)
qed

theorem eth_lookup_was_seen_witness:
  "\<exists>now ip'. (now, [1, 2, 3, 4, 5, 6], True, ip') \<in> set [(9, [1, 2, 3, 4, 5, 6], True, replicate 16 7)] \<and>
     ip_key True ip' = ip_key True (replicate 16 7)"
proof -
  let ?xs = "[(9, [1, 2, 3, 4, 5, 6], True, replicate 16 7)] :: (int \<times> EthAddress \<times> bool \<times> IpAddress) list"
  have "map_option ethaddress (EthMappings_LookUp (replicate 16 7) True (fold learn_eth ?xs sample_table)) =
      Some [1, 2, 3, 4, 5, 6]" by code_simp
  then obtain r where "EthMappings_LookUp (replicate 16 7) True (fold learn_eth ?xs sample_table) = Some r"
    "ethaddress r = [1, 2, 3, 4, 5, 6]" by blast
  with eth_lookup_was_seen [of sample_table ?xs "replicate 16 7" True r] show ?thesis
    by (simp add: ip_ok_def)
qed

text \<open>
  A sighting whose IP address no other station holds is found again: when \<open>Add\<close> succeeds,
  \<open>LookUp\<close> of its IP address reports its hardware address, the time and the family.
\<close>

theorem eth_lookup_after_add:
  assumes "mappings_inv m" and "ip_ok ip" and "fst (EthMappings_Add now e v4 ip m)"
    and "\<forall>r \<in> set (used_records m). ethaddress r \<noteq> e \<longrightarrow> (mac_ipv4 r, ip_key (mac_ipv4 r) (ipaddress r)) \<noteq> (v4, ip_key v4 ip)"
  shows "\<exists>r. EthMappings_LookUp ip v4 (snd (EthMappings_Add now e v4 ip m)) = Some r \<and>
     ethaddress r = e \<and> mac_time r = now \<and> mac_ipv4 r = v4"
  by (rule LookUp_after_Add [OF assms])

theorem eth_lookup_after_add_witness:
  "\<exists>r. EthMappings_LookUp (replicate 16 7) True
      (snd (EthMappings_Add 9 [1, 2, 3, 4, 5, 6] True (replicate 16 7) sample_table)) = Some r \<and>
     ethaddress r = [1, 2, 3, 4, 5, 6] \<and> mac_time r = 9 \<and> mac_ipv4 r = True"
proof (rule eth_lookup_after_add)
  show "fst (EthMappings_Add 9 [1, 2, 3, 4, 5, 6] True (replicate 16 7) sample_table)" by code_simp
qed (simp_all add: ip_ok_def)

text \<open>
  A full table. When all records are taken by other stations, \<open>Add\<close> looks only at the record with
  the latest time stamp: it refuses the new station if that record is at most \<open>TIMEOUT\<close> old, however
  old the others are, and otherwise overwrites it.
\<close>

theorem eth_full_table_replaces_newest:
  assumes "mappings_inv m" and "mac_count m = MAX_MAC_IP_MAPPINGS" and "e \<notin> ethaddress ` set (used_records m)"
  shows "\<exists>t < mac_count m. (\<forall>r \<in> set (used_records m). mac_time r \<le> mac_time (mac_records m ! t)) \<and>
     EthMappings_Add now e v4 ip m =
       (if now - mac_time (mac_records m ! t) > MAPPING_TIMEOUT
        then (True, m\<lparr>mac_records := (mac_records m)[t := fill_record now e v4 ip (mac_records m ! t)]\<rparr>)
        else (False, m))"
  using assms(1)
proof (cases rule: Add_cases [where e = e and now = now and ?v4.0 = v4 and ip = ip])
  case (update t)
  with assms(3) records_used [OF assms(1)] show ?thesis by blast
next
  case insert
  with assms show ?thesis by simp
next
  case (evict t)
  then show ?thesis by auto
next
  case (refuse t)
  then show ?thesis by (intro exI [of _ t]) auto
qed

theorem eth_full_table_replaces_newest_witness:
  "\<exists>t < mac_count full_table. (\<forall>r \<in> set (used_records full_table). mac_time r \<le> mac_time (mac_records full_table ! t)) \<and>
     EthMappings_Add 1001 [1, 2, 3, 4, 5, 6] True (replicate 16 7) full_table =
       (if 1001 - mac_time (mac_records full_table ! t) > MAPPING_TIMEOUT
        then (True, full_table\<lparr>mac_records := (mac_records full_table)[t :=
          fill_record 1001 [1, 2, 3, 4, 5, 6] True (replicate 16 7) (mac_records full_table ! t)]\<rparr>)
        else (False, full_table))"
  by (rule eth_full_table_replaces_newest) (simp_all add: full_table_inv, simp add: full_table_def)

end
