(* ===== verification/Peer_Requests.thy ===== *)
theory Peer_Requests
  imports Net_Common "HOL-Library.Sublist"
begin

text \<open>
  \<^verbatim>\<open>include/bookkeeping/peer.hpp\<close> and \<^verbatim>\<open>src/bookkeeping/peer.cpp\<close>: the table of queries forwarded to
  the upstream servers.

  The singly linked list of records is a list and a pointer to a record is its index. A record embeds
  its first source and owns a chain of further ones (\<open>source_next\<close>). A network end point is a value of
  the type parameter \<open>'ep\<close>. \<open>sentTo\<close> is the index of an upstream server, \<open>None\<close> for a free record.
  Times are \<open>time_t\<close> values as integers, and \<open>difftime\<close> is their difference. The random number
  generator is a stream of draws, \<open>draw i\<close> being the \<open>i\<close>-th value of \<open>distribute(rng)\<close>. What a new
  record holds before it is assigned comes from the argument \<open>fresh\<close>.
\<close>

abbreviation (input) MAX_FWD_QUERIES :: nat where "MAX_FWD_QUERIES \<equiv> 150"
abbreviation (input) TIMEOUT :: int where "TIMEOUT \<equiv> 10"
abbreviation (input) HASH_SIZE :: nat where "HASH_SIZE \<equiv> 32"

record 'ep PeerSource =
  src_endpoint :: 'ep
  src_ipv4 :: bool
  originalId :: u16

record 'ep PeerRequestRecord =
  source :: "'ep PeerSource"
  source_next :: "'ep PeerSource list"
  sentTo :: "nat option"
  newId :: u16
  flags :: u32
  req_time :: int
  forwardTimestamp :: int
  req_hash :: "byte list"
  fromTimedOut :: bool

text \<open>\<open>lastLog\<close> and \<open>skipCount\<close> are the static variables of \<open>handleMaxFwdQueries\<close>.\<close>

record 'ep PeerRequests =
  requests :: "'ep PeerRequestRecord list"
  sources :: "'ep PeerSource list"
  sourceCount :: u16
  rng_pos :: nat
  lastLog :: int
  skipCount :: u32

section \<open>Operations\<close>

definition HasTimedOut :: "'ep PeerRequestRecord \<Rightarrow> bool" where
  "HasTimedOut r \<longleftrightarrow> req_time r > TIMEOUT"

definition handleMaxFwdQueries :: "int \<Rightarrow> 'ep PeerRequests \<Rightarrow> 'ep PeerRequests" where
  "handleMaxFwdQueries now s =
     (if now - lastLog s > 5 then s\<lparr>lastLog := now\<rparr> else s\<lparr>skipCount := skipCount s + 1\<rparr>)"

text \<open>The chain of further sources goes in front of the free list; the record is reset.\<close>

definition free_record :: "'ep PeerRequestRecord \<Rightarrow> 'ep PeerRequestRecord" where
  "free_record r = r\<lparr>source_next := [], sentTo := None, flags := 0\<rparr>"

definition FreePeerRequestRecord :: "nat \<Rightarrow> 'ep PeerRequests \<Rightarrow> 'ep PeerRequests" where
  "FreePeerRequestRecord i s =
     s\<lparr>sources := source_next (requests s ! i) @ sources s,
       requests := (requests s)[i := free_record (requests s ! i)]\<rparr>"

text \<open>The locals of the loop of \<open>GetNewRecord\<close>; \<open>sc_sources\<close> is the member it changes on the way.\<close>

record 'ep scan =
  sc_sources :: "'ep PeerSource list"
  sc_target :: "nat option"
  sc_oldest :: "(nat \<times> int) option"
  sc_count :: nat

text \<open>One pass of the loop on the record at index \<open>i\<close>.\<close>

definition scan_step ::
  "int \<Rightarrow> nat \<Rightarrow> 'ep PeerRequestRecord \<Rightarrow> 'ep scan \<Rightarrow> 'ep PeerRequestRecord \<times> 'ep scan" where
  "scan_step now i r sc =
     (let (r, sc) =
        (if sentTo r = None then (r, sc\<lparr>sc_target := Some i\<rparr>)
         else if now - req_time r \<ge> 4 * TIMEOUT then
           ((free_record r)\<lparr>fromTimedOut := True\<rparr>,
            sc\<lparr>sc_sources := source_next r @ sc_sources sc, sc_target := Some i\<rparr>)
         else if (case sc_oldest sc of None \<Rightarrow> True | Some (j, t) \<Rightarrow> req_time r - t \<le> 0) then
           (r, sc\<lparr>sc_oldest := Some (i, req_time r)\<rparr>)
         else (r, sc))
      in (r, if sentTo r \<noteq> None \<and> now - req_time r < TIMEOUT
             then sc\<lparr>sc_count := sc_count sc + 1\<rparr> else sc))"

fun scan_records ::
  "int \<Rightarrow> nat \<Rightarrow> 'ep PeerRequestRecord list \<Rightarrow> 'ep scan \<Rightarrow> 'ep PeerRequestRecord list \<times> 'ep scan" where
  "scan_records now i [] sc = ([], sc)"
| "scan_records now i (r # rs) sc =
     (let (r, sc) = scan_step now i r sc;
          (rs, sc) = scan_records now (i + 1) rs sc
      in (r # rs, sc))"

definition GetNewRecord ::
  "'ep PeerRequestRecord \<Rightarrow> int \<Rightarrow> bool \<Rightarrow> 'ep PeerRequests \<Rightarrow> nat option \<times> 'ep PeerRequests" where
  "GetNewRecord fresh now force s =
     (let (rs, sc) = scan_records now 0 (requests s)
            \<lparr>sc_sources = sources s, sc_target = None, sc_oldest = None, sc_count = 0\<rparr>;
          s = s\<lparr>requests := rs, sources := sc_sources sc\<rparr>
      in if \<not> force \<and> sc_count sc \<ge> MAX_FWD_QUERIES then (None, handleMaxFwdQueries now s)
      else
        let (target, s) =
          (case sc_target sc of
             Some t \<Rightarrow> (t, s)
           | None \<Rightarrow>
               (case sc_oldest sc of
                  Some (j, t) \<Rightarrow>
                    if now - t \<ge> TIMEOUT then
                      (let s = FreePeerRequestRecord j s
                       in (j, s\<lparr>requests := (requests s)[j := (requests s ! j)\<lparr>fromTimedOut := True\<rparr>]\<rparr>))
                    else (0, s\<lparr>requests :=
                      fresh\<lparr>fromTimedOut := False, source_next := [], sentTo := None\<rparr> # requests s\<rparr>)
                | None \<Rightarrow> (0, s\<lparr>requests :=
                    fresh\<lparr>fromTimedOut := False, source_next := [], sentTo := None\<rparr> # requests s\<rparr>)))
        in (Some target,
            s\<lparr>requests := (requests s)[target := (requests s ! target)\<lparr>req_time := now\<rparr>]\<rparr>))"

definition Lookup :: "u16 \<Rightarrow> byte list \<Rightarrow> 'ep PeerRequests \<Rightarrow> nat option" where
  "Lookup i h s = find_index (\<lambda>r. sentTo r \<noteq> None \<and> newId r = i \<and> h = req_hash r) (requests s)"

definition LookupByQuery :: "byte list \<Rightarrow> u32 \<Rightarrow> u32 \<Rightarrow> 'ep PeerRequests \<Rightarrow> nat option" where
  "LookupByQuery h fl flagmask s =
     find_index (\<lambda>r. sentTo r \<noteq> None \<and> flags r AND flagmask = fl \<and> h = req_hash r) (requests s)"

text \<open>
  \<open>sources = std::move(sources->next)\<close> deletes the node that \<open>s\<close> still points to, and \<open>s->next\<close> is
  then written: whenever there is a node to hand out, the behaviour is undefined.
\<close>

definition GetNewPeerSource ::
  "'ep PeerSource \<Rightarrow> int \<Rightarrow> 'ep PeerRequests \<Rightarrow> ('ep PeerSource option \<times> 'ep PeerRequests) outcome" where
  "GetNewPeerSource fresh now s =
     (let s = (if sources s = [] \<and> sourceCount s < of_nat MAX_FWD_QUERIES
               then s\<lparr>sources := [fresh], sourceCount := sourceCount s + 1\<rparr>
               else handleMaxFwdQueries now s)
      in if sources s \<noteq> [] then Undef UseAfterFree else Ret (None, s))"

definition id_in_use :: "u16 \<Rightarrow> 'ep PeerRequestRecord list \<Rightarrow> bool" where
  "id_in_use i rs \<longleftrightarrow> list_ex (\<lambda>r. sentTo r \<noteq> None \<and> newId r = i) rs"

text \<open>The endless loop of \<open>GetNewId\<close>, from the \<open>i\<close>-th draw on.\<close>

partial_function (option) GetNewId_loop ::
  "(nat \<Rightarrow> u16) \<Rightarrow> 'ep PeerRequestRecord list \<Rightarrow> nat \<Rightarrow> (u16 \<times> nat) option" where
  [code]: "GetNewId_loop draw rs i =
     (if id_in_use (draw i) rs then GetNewId_loop draw rs (i + 1) else Some (draw i, i + 1))"

definition GetNewId :: "(nat \<Rightarrow> u16) \<Rightarrow> 'ep PeerRequests \<Rightarrow> (u16 \<times> 'ep PeerRequests) option" where
  "GetNewId draw s =
     map_option (\<lambda>(r, i). (r, s\<lparr>rng_pos := i\<rparr>)) (GetNewId_loop draw (requests s) (rng_pos s))"

section \<open>Queries in flight\<close>

definition inflight :: "'ep PeerRequestRecord list \<Rightarrow> 'ep PeerRequestRecord list" where
  "inflight rs = filter (\<lambda>r. sentTo r \<noteq> None) rs"

text \<open>No two queries in flight share the identifier or the question; the code sets no flags.\<close>

definition requests_inv :: "'ep PeerRequests \<Rightarrow> bool" where
  "requests_inv s \<longleftrightarrow> distinct (map newId (inflight (requests s))) \<and>
     distinct (map req_hash (inflight (requests s))) \<and> list_all (\<lambda>r. flags r = 0) (inflight (requests s))"

text \<open>The table as a map from identifier and digest to the record.\<close>

definition request_key :: "'ep PeerRequestRecord \<Rightarrow> u16 \<times> byte list" where
  "request_key r = (newId r, req_hash r)"

definition content :: "'ep PeerRequests \<Rightarrow> u16 \<times> byte list \<rightharpoonup> 'ep PeerRequestRecord" where
  "content s = map_of (map (\<lambda>r. (request_key r, r)) (inflight (requests s)))"

definition put_record :: "nat \<Rightarrow> 'ep PeerRequestRecord \<Rightarrow> 'ep PeerRequests \<Rightarrow> 'ep PeerRequests" where
  "put_record i r s = s\<lparr>requests := (requests s)[i := r]\<rparr>"

definition free_slot :: "'ep PeerRequests \<Rightarrow> nat \<Rightarrow> bool" where
  "free_slot s i \<longleftrightarrow> i < length (requests s) \<and> sentTo (requests s ! i) = None"

text \<open>A record that may be put in flight beside those that are.\<close>

definition admissible :: "'ep PeerRequests \<Rightarrow> 'ep PeerRequestRecord \<Rightarrow> bool" where
  "admissible s r \<longleftrightarrow> sentTo r \<noteq> None \<and> flags r = 0 \<and>
     newId r \<notin> newId ` set (inflight (requests s)) \<and> req_hash r \<notin> req_hash ` set (inflight (requests s))"

section \<open>Lemmas\<close>

subsection \<open>Records in flight\<close>

lemma subseqD: "subseq xs ys \<Longrightarrow> x \<in> set xs \<Longrightarrow> x \<in> set ys"
  by (auto dest: list_emb_set)

lemma subseq_distinct: "subseq xs ys \<Longrightarrow> distinct ys \<Longrightarrow> distinct xs"
  by (induction rule: list_emb.induct) (auto dest: subseqD)

lemma inflight_simps [simp]:
  "inflight [] = []" "inflight (r # rs) = (if sentTo r = None then inflight rs else r # inflight rs)"
  "inflight (rs @ rs') = inflight rs @ inflight rs'"
  by (auto simp: inflight_def)

lemma set_inflight: "set (inflight rs) = {r \<in> set rs. sentTo r \<noteq> None}"
  by (auto simp: inflight_def)

lemma inflight_free: "sentTo r = None \<Longrightarrow> subseq (inflight (rs[i := r])) (inflight rs)"
  by (induction rs arbitrary: i) (auto split: nat.splits)

lemma inflight_same: "i < length rs \<Longrightarrow> sentTo (rs ! i) = None \<Longrightarrow> sentTo r = None \<Longrightarrow>
    inflight (rs[i := r]) = inflight rs"
  by (induction rs arbitrary: i) (auto split: nat.splits)

lemma inflight_put:
  assumes "i < length rs" and "sentTo (rs ! i) = None" and "sentTo r \<noteq> None"
  obtains xs ys where "inflight rs = xs @ ys" and "inflight (rs[i := r]) = xs @ r # ys"
proof -
  from assms(1) have "rs = take i rs @ rs ! i # drop (Suc i) rs" by (simp add: id_take_nth_drop)
  with assms that [of "inflight (take i rs)" "inflight (drop (Suc i) rs)"] show thesis
    by (metis inflight_simps(2,3) upd_conv_take_nth_drop)
qed

lemma inflight_remove:
  assumes "i < length rs" and "sentTo (rs ! i) \<noteq> None" and "sentTo r = None"
  obtains xs ys where "inflight rs = xs @ rs ! i # ys" and "inflight (rs[i := r]) = xs @ ys"
proof -
  from assms(1) have "rs = take i rs @ rs ! i # drop (Suc i) rs" by (simp add: id_take_nth_drop)
  with assms that [of "inflight (take i rs)" "inflight (drop (Suc i) rs)"] show thesis
    by (metis inflight_simps(2,3) upd_conv_take_nth_drop)
qed

lemma requests_inv_subseq:
  assumes "requests_inv s" and "subseq (inflight (requests t)) (inflight (requests s))"
  shows "requests_inv t"
proof -
  from assms(2) have "subseq (map newId (inflight (requests t))) (map newId (inflight (requests s)))"
    "subseq (map req_hash (inflight (requests t))) (map req_hash (inflight (requests s)))"
    by (auto intro: subseq_map)
  with assms show ?thesis
    by (auto simp: requests_inv_def list_all_iff dest: subseq_distinct subseqD)
qed

lemma content_Some:
  assumes "requests_inv s"
  shows "content s k = Some r \<longleftrightarrow> r \<in> set (inflight (requests s)) \<and> request_key r = k"
proof -
  have "distinct (map request_key (inflight (requests s)))"
    using assms by (auto simp: requests_inv_def request_key_def distinct_map inj_on_def)
  then have "distinct (map fst (map (\<lambda>r. (request_key r, r)) (inflight (requests s))))"
    by (simp add: comp_def)
  from map_of_eq_Some_iff [OF this] show ?thesis by (auto simp: content_def)
qed

lemma content_subseq:
  assumes "requests_inv s" and "subseq (inflight (requests t)) (inflight (requests s))"
  shows "content t \<subseteq>\<^sub>m content s"
proof -
  have "content s k = Some r" if "content t k = Some r" for k r
    using that content_Some [OF assms(1)] content_Some [OF requests_inv_subseq [OF assms]]
      subseqD [OF assms(2)] by auto
  then show ?thesis by (auto simp: map_le_def)
qed

lemma content_None: "content s k = None \<longleftrightarrow> (\<forall>r \<in> set (inflight (requests s)). request_key r \<noteq> k)"
  by (auto simp: content_def map_of_eq_None_iff image_iff)

subsection \<open>The loop of GetNewRecord\<close>

definition expire :: "int \<Rightarrow> 'ep PeerRequestRecord \<Rightarrow> 'ep PeerRequestRecord" where
  "expire now r = (if sentTo r \<noteq> None \<and> now - req_time r \<ge> 4 * TIMEOUT
     then (free_record r)\<lparr>fromTimedOut := True\<rparr> else r)"

definition recent :: "int \<Rightarrow> 'ep PeerRequestRecord list \<Rightarrow> 'ep PeerRequestRecord list" where
  "recent now rs = filter (\<lambda>r. now - req_time r < TIMEOUT) (inflight rs)"

lemma free_record_sel [simp]: "sentTo (free_record r) = None" "source_next (free_record r) = []"
  "req_time (free_record r) = req_time r" "newId (free_record r) = newId r" "req_hash (free_record r) = req_hash r"
  by (simp_all add: free_record_def)

lemma scan_step_fst: "fst (scan_step now i r sc) = expire now r"
  by (simp add: scan_step_def expire_def Let_def)

lemma scan_step_count:
  "sc_count (snd (scan_step now i r sc)) = sc_count sc + length (recent now [r])"
  by (simp add: scan_step_def recent_def Let_def)

lemma scan_step_target:
  "sc_target (snd (scan_step now i r sc)) = (if sentTo (expire now r) = None then Some i else sc_target sc)"
  by (simp add: scan_step_def expire_def Let_def)

lemma scan_step_oldest:
  "sc_oldest (snd (scan_step now i r sc)) =
     (if sentTo (expire now r) \<noteq> None \<and> (case sc_oldest sc of None \<Rightarrow> True | Some (j, t) \<Rightarrow> req_time r \<le> t)
      then Some (i, req_time r) else sc_oldest sc)"
  by (simp add: scan_step_def expire_def Let_def split: option.splits)

lemma scan_step_sources:
  "sc_sources (snd (scan_step now i r sc)) =
     (if sentTo r \<noteq> None \<and> sentTo (expire now r) = None then source_next r else []) @ sc_sources sc"
  by (auto simp: scan_step_def expire_def Let_def)

lemma scan_records_Cons:
  "scan_records now i (r # rs) sc =
     (let sc' = snd (scan_step now i r sc)
      in (expire now r # fst (scan_records now (i + 1) rs sc'), snd (scan_records now (i + 1) rs sc')))"
  by (simp add: Let_def case_prod_unfold scan_step_fst)

lemma scan_records_map: "fst (scan_records now i rs sc) = map (expire now) rs"
  by (induction rs arbitrary: i sc) (simp_all add: scan_records_Cons Let_def del: scan_records.simps(2))

lemma scan_records_count:
  "sc_count (snd (scan_records now i rs sc)) = sc_count sc + length (recent now rs)"
  by (induction rs arbitrary: i sc)
    (simp_all add: scan_records_Cons Let_def scan_step_count recent_def del: scan_records.simps(2))

lemma scan_records_target:
  "sc_target (snd (scan_records now i rs sc)) = Some t \<Longrightarrow> sc_target sc = Some t \<or>
     (i \<le> t \<and> t < i + length rs \<and> sentTo (expire now (rs ! (t - i))) = None)"
  by (induction rs arbitrary: i sc)
    (fastforce simp: scan_records_Cons Let_def scan_step_target nth_Cons'
      simp del: scan_records.simps(2) split: if_splits)+

lemma scan_records_no_target:
  "sc_target (snd (scan_records now i rs sc)) = None \<longleftrightarrow>
     sc_target sc = None \<and> (\<forall>r \<in> set rs. sentTo (expire now r) \<noteq> None)"
  by (induction rs arbitrary: i sc)
    (auto simp: scan_records_Cons Let_def scan_step_target simp del: scan_records.simps(2))

lemma scan_records_oldest:
  "sc_oldest (snd (scan_records now i rs sc)) = Some (j, t) \<Longrightarrow> sc_oldest sc = Some (j, t) \<or>
     (i \<le> j \<and> j < i + length rs \<and> sentTo (expire now (rs ! (j - i))) \<noteq> None \<and> req_time (rs ! (j - i)) = t)"
  by (induction rs arbitrary: i sc)
    (fastforce simp: scan_records_Cons Let_def scan_step_oldest nth_Cons'
      simp del: scan_records.simps(2) split: if_splits)+

subsection \<open>GetNewRecord\<close>

lemma inflight_expire: "subseq (inflight (map (expire now) rs)) (inflight rs)"
  by (induction rs) (auto simp: expire_def)

definition fresh_record :: "'ep PeerRequestRecord \<Rightarrow> 'ep PeerRequestRecord" where
  "fresh_record fresh = fresh\<lparr>fromTimedOut := False, source_next := [], sentTo := None\<rparr>"

text \<open>
  The record handed out is the target of the loop, the oldest one in flight, or a new one in front;
  it is marked with the time. Everything else is what the loop left.
\<close>

lemma GetNewRecord_cases:
  assumes "GetNewRecord fresh now force s = (Some i, s')"
  obtains (target) "i < length (requests s)" "sentTo (expire now (requests s ! i)) = None"
      "requests s' = (map (expire now) (requests s))[i := (expire now (requests s ! i))\<lparr>req_time := now\<rparr>]"
  | (oldest) "i < length (requests s)" "sentTo (requests s ! i) \<noteq> None" "now - req_time (requests s ! i) \<ge> TIMEOUT"
      "requests s' = (map (expire now) (requests s))
         [i := (free_record (requests s ! i))\<lparr>fromTimedOut := True, req_time := now\<rparr>]"
  | (new) "i = 0" "requests s' = (fresh_record fresh)\<lparr>req_time := now\<rparr> # map (expire now) (requests s)"
proof -
  let ?sc0 = "\<lparr>sc_sources = sources s, sc_target = None, sc_oldest = None, sc_count = 0\<rparr>"
  define sc where "sc = snd (scan_records now 0 (requests s) ?sc0)"
  have scan: "scan_records now 0 (requests s) ?sc0 = (map (expire now) (requests s), sc)"
    using scan_records_map [of now 0 "requests s" ?sc0] by (simp add: sc_def prod_eq_iff)
  note defs = GetNewRecord_def scan Let_def fresh_record_def FreePeerRequestRecord_def
  show thesis
  proof (cases "sc_target sc")
    case (Some t)
    from scan_records_target [OF Some [unfolded sc_def]] have "t < length (requests s)"
      "sentTo (expire now (requests s ! t)) = None" by simp_all
    with Some assms show thesis by (intro target) (auto simp: defs split: if_splits)
  next
    case None
    show thesis
    proof (cases "\<exists>j t. sc_oldest sc = Some (j, t) \<and> now - t \<ge> TIMEOUT")
      case True
      then obtain j t where o: "sc_oldest sc = Some (j, t)" "now - t \<ge> TIMEOUT" by blast
      from scan_records_oldest [OF o(1) [unfolded sc_def]] have j: "j < length (requests s)"
        "sentTo (expire now (requests s ! j)) \<noteq> None" "req_time (requests s ! j) = t" by simp_all
      then have "expire now (requests s ! j) = requests s ! j"
        by (auto simp: expire_def split: if_splits)
      with o j None assms show thesis by (intro oldest) (auto simp: defs split: if_splits)
    next
      case False
      with None assms show thesis by (intro new) (auto simp: defs split: if_splits option.splits)
    qed
  qed
qed

lemma GetNewRecord_Some:
  assumes "GetNewRecord fresh now force s = (Some i, s')"
  shows "free_slot s' i" and "req_time (requests s' ! i) = now"
    and "subseq (inflight (requests s')) (inflight (requests s))"
proof -
  have free: "subseq (inflight ((map (expire now) (requests s))[j := r])) (inflight (requests s))"
    if "sentTo r = None" for j r
    using inflight_free [OF that] inflight_expire subseq_order.order_trans by blast
  from assms show "free_slot s' i" and "req_time (requests s' ! i) = now"
    and "subseq (inflight (requests s')) (inflight (requests s))"
    by (cases rule: GetNewRecord_cases; use inflight_expire in \<open>auto simp: free_slot_def fresh_record_def intro!: free\<close>)+
qed

lemma GetNewRecord_None:
  assumes "GetNewRecord fresh now force s = (None, s')"
  shows "requests s' = map (expire now) (requests s)" and "\<not> force"
    and "length (recent now (requests s)) \<ge> MAX_FWD_QUERIES"
  using assms scan_records_map [of now 0 "requests s"] scan_records_count [of now 0 "requests s"]
  by (auto simp: GetNewRecord_def Let_def handleMaxFwdQueries_def case_prod_unfold split: if_splits)

lemma GetNewRecord_limit:
  assumes "GetNewRecord fresh now False s = (Some i, s')"
  shows "length (recent now (requests s)) < MAX_FWD_QUERIES"
  using assms scan_records_count [of now 0 "requests s"]
  by (auto simp: GetNewRecord_def Let_def case_prod_unfold split: if_splits)

subsection \<open>GetNewId\<close>

lemma id_in_use_iff: "id_in_use i rs \<longleftrightarrow> i \<in> newId ` set (inflight rs)"
  by (auto simp: id_in_use_def list_ex_iff set_inflight image_iff)

text \<open>The loop returns the first draw at or after \<open>i\<close> that no query in flight uses.\<close>

lemma GetNewId_loop_first:
  "\<not> id_in_use (draw (i + n)) rs \<Longrightarrow> \<exists>m \<le> n. GetNewId_loop draw rs i = Some (draw (i + m), i + m + 1) \<and>
     \<not> id_in_use (draw (i + m)) rs"
proof (induction n arbitrary: i)
  case 0
  then show ?case by (auto simp: GetNewId_loop.simps)
next
  case (Suc n)
  show ?case
  proof (cases "id_in_use (draw i) rs")
    case True
    with Suc.IH [of "i + 1"] Suc.prems obtain m where "m \<le> n"
      "GetNewId_loop draw rs (i + 1) = Some (draw (i + 1 + m), i + 1 + m + 1)"
      "\<not> id_in_use (draw (i + 1 + m)) rs" by auto
    with True show ?thesis by (intro exI [of _ "Suc m"]) (simp add: GetNewId_loop.simps [of draw rs i])
  next
    case False
    then show ?thesis by (intro exI [of _ 0]) (simp add: GetNewId_loop.simps [of draw rs i])
  qed
qed

lemma GetNewId_loop_Some:
  assumes "GetNewId_loop draw rs i = Some y"
  shows "fst y \<in> range draw \<and> \<not> id_in_use (fst y) rs"
  by (rule GetNewId_loop.raw_induct [OF _ assms,
        where P = "\<lambda>draw rs i y. fst y \<in> range draw \<and> \<not> id_in_use (fst y) rs"])
    (auto split: if_splits)

text \<open>The generator draws every identifier again and again.\<close>

definition fair :: "(nat \<Rightarrow> u16) \<Rightarrow> bool" where
  "fair draw \<longleftrightarrow> (\<forall>v i. v \<noteq> 0 \<longrightarrow> (\<exists>j \<ge> i. draw j = v))"

lemma GetNewId_total:
  assumes "fair draw" and "length (inflight (requests s)) < 65535"
  shows "\<exists>i t. GetNewId draw s = Some (i, t)"
proof -
  have "card (newId ` set (inflight (requests s))) < card (UNIV - {0 :: u16})"
    using assms(2) card_image_le [of "set (inflight (requests s))" newId]
      card_length [of "inflight (requests s)"] by (simp add: card_Diff_singleton card_word)
  then obtain v where v: "v \<noteq> 0" "v \<notin> newId ` set (inflight (requests s))"
    by (metis DiffD1 DiffE card_mono finite finite_imageI insertCI not_less subsetI)
  from assms(1) v(1) obtain j where j: "rng_pos s \<le> j" "draw j = v" by (auto simp: fair_def)
  then obtain n where "j = rng_pos s + n" using le_Suc_ex by blast
  with GetNewId_loop_first [of draw "rng_pos s" n "requests s"] j v show ?thesis
    by (auto simp: GetNewId_def id_in_use_iff)
qed

lemma GetNewId_Some:
  assumes "GetNewId draw s = Some (i, t)"
  shows "i \<notin> newId ` set (inflight (requests s))" and "requests t = requests s" and "i \<in> range draw"
  using assms by (auto simp: GetNewId_def id_in_use_iff dest!: GetNewId_loop_Some)

section \<open>The table as the server uses it\<close>

text \<open>
  The contract between the server and the table, over the abstract content, a map from keys to records:
  a lookup finds the record of the key, freeing it removes the key, a slot handed out is free and at
  most drops other keys, and storing an admissible record in a free slot adds its key.
\<close>

locale request_table =
  fixes lookup :: "'k \<Rightarrow> 's \<Rightarrow> nat option"
    and get :: "'s \<Rightarrow> nat \<Rightarrow> 'r"
    and alloc :: "'a \<Rightarrow> 's \<Rightarrow> nat option \<times> 's"
    and put :: "nat \<Rightarrow> 'r \<Rightarrow> 's \<Rightarrow> 's"
    and free :: "nat \<Rightarrow> 's \<Rightarrow> 's"
    and inv :: "'s \<Rightarrow> bool"
    and contents :: "'s \<Rightarrow> 'k \<rightharpoonup> 'r"
    and key :: "'r \<Rightarrow> 'k"
    and slot :: "'s \<Rightarrow> nat \<Rightarrow> bool"
    and adm :: "'s \<Rightarrow> 'r \<Rightarrow> bool"
  assumes lookup_contents: "inv s \<Longrightarrow> contents s k = map_option (get s) (lookup k s)"
    and free_inv: "inv s \<Longrightarrow> lookup k s = Some i \<Longrightarrow> inv (free i s)"
    and free_contents: "inv s \<Longrightarrow> lookup k s = Some i \<Longrightarrow> contents (free i s) = (contents s)(k := None)"
    and alloc_inv: "inv s \<Longrightarrow> alloc a s = (j, s') \<Longrightarrow> inv s' \<and> contents s' \<subseteq>\<^sub>m contents s"
    and alloc_slot: "inv s \<Longrightarrow> alloc a s = (Some i, s') \<Longrightarrow> slot s' i"
    and put_inv: "inv s \<Longrightarrow> slot s i \<Longrightarrow> adm s r \<Longrightarrow> inv (put i r s)"
    and put_contents: "inv s \<Longrightarrow> slot s i \<Longrightarrow> adm s r \<Longrightarrow> contents (put i r s) = (contents s)(key r \<mapsto> r)"
begin

lemma stored_is_found:
  assumes "inv s" and "alloc a s = (Some i, s')" and "adm s' r"
  shows "\<exists>j. lookup (key r) (put i r s') = Some j \<and> get (put i r s') j = r"
proof -
  from assms alloc_inv alloc_slot have s': "inv s'" "slot s' i" by blast+
  have "map_option (get (put i r s')) (lookup (key r) (put i r s')) = Some r"
    using lookup_contents [OF put_inv [OF s' assms(3)], of "key r"] put_contents [OF s' assms(3)]
    by simp
  then show ?thesis by blast
qed

lemma stored_keeps_others:
  assumes "inv s" and "alloc a s = (Some i, s')" and "adm s' r"
  shows "contents (put i r s') \<subseteq>\<^sub>m (contents s)(key r \<mapsto> r)"
proof -
  from assms alloc_inv alloc_slot have s': "inv s'" "slot s' i" "contents s' \<subseteq>\<^sub>m contents s" by blast+
  with put_contents [OF s'(1,2) assms(3)] show ?thesis by (auto simp: map_le_def split: if_splits)
qed

lemma freed_is_gone: "inv s \<Longrightarrow> lookup k s = Some i \<Longrightarrow> lookup k (free i s) = None"
  using free_contents [of s k i] lookup_contents [OF free_inv [of s k i], of k] by auto

lemma freed_keeps_others:
  "inv s \<Longrightarrow> lookup k s = Some i \<Longrightarrow> k' \<noteq> k \<Longrightarrow> contents (free i s) k' = contents s k'"
  by (simp add: free_contents)

end

lemma Lookup_content:
  assumes "requests_inv s"
  shows "content s k = map_option (nth (requests s)) (Lookup (fst k) (snd k) s)"
proof (cases "Lookup (fst k) (snd k) s")
  case None
  then have "content s k = None"
    by (auto simp: Lookup_def content_None set_inflight request_key_def prod_eq_iff)
  with None show ?thesis by simp
next
  case (Some i)
  then have "i < length (requests s)" "sentTo (requests s ! i) \<noteq> None" "request_key (requests s ! i) = k"
    by (auto simp: Lookup_def request_key_def prod_eq_iff dest!: find_index_Some)
  then have "content s k = Some (requests s ! i)"
    by (auto simp: content_Some [OF assms] set_inflight)
  with Some show ?thesis by simp
qed

lemma free_subseq: "subseq (inflight (requests (FreePeerRequestRecord i s))) (inflight (requests s))"
  by (simp add: FreePeerRequestRecord_def inflight_free)

lemma free_content:
  assumes "requests_inv s" and "Lookup (fst k) (snd k) s = Some i"
  shows "content (FreePeerRequestRecord i s) = (content s)(k := None)"
proof
  fix k'
  let ?t = "FreePeerRequestRecord i s"
  note t = requests_inv_subseq [OF assms(1) free_subseq]
  from assms(2) have i: "i < length (requests s)" "sentTo (requests s ! i) \<noteq> None"
    and k: "request_key (requests s ! i) = k"
    by (auto simp: Lookup_def request_key_def prod_eq_iff dest!: find_index_Some)
  from inflight_remove [OF i, of "free_record (requests s ! i)"] obtain xs ys where
    "inflight (requests s) = xs @ requests s ! i # ys" "inflight (requests ?t) = xs @ ys"
    by (auto simp: FreePeerRequestRecord_def)
  moreover from this assms(1) have "requests s ! i \<notin> set (xs @ ys)"
    by (auto simp: requests_inv_def)
  moreover have "request_key r \<noteq> k" if "r \<in> set (xs @ ys)" for r
  proof -
    have "newId r \<noteq> newId (requests s ! i)"
      using imageI [OF that, of newId] calculation(1) assms(1) by (auto simp: requests_inv_def)
    with k show ?thesis by (auto simp: request_key_def)
  qed
  ultimately have "content ?t k' = Some r \<longleftrightarrow> ((content s)(k := None)) k' = Some r" for r
    using k by (auto simp: content_Some [OF t] content_Some [OF assms(1)])
  then show "content ?t k' = ((content s)(k := None)) k'"
    by (metis option.exhaust)
qed

lemma put_record_inv:
  assumes "requests_inv s" and "free_slot s i" and "admissible s r"
  shows "requests_inv (put_record i r s)" and "content (put_record i r s) = (content s)(request_key r \<mapsto> r)"
proof -
  from assms(2,3) inflight_put [of i "requests s" r] obtain xs ys where
    xy: "inflight (requests s) = xs @ ys" "inflight (requests (put_record i r s)) = xs @ r # ys"
    by (auto simp: free_slot_def admissible_def put_record_def)
  then show inv: "requests_inv (put_record i r s)"
    using assms(1,3) by (auto simp: requests_inv_def admissible_def)
  have "newId q \<noteq> newId r" if "q \<in> set (xs @ ys)" for q
    using imageI [OF that, of newId] assms(3) by (auto simp: admissible_def xy(1))
  with xy have "content (put_record i r s) k = Some q \<longleftrightarrow> ((content s)(request_key r \<mapsto> r)) k = Some q" for k q
    by (auto simp: content_Some [OF inv] content_Some [OF assms(1)] request_key_def)
  then show "content (put_record i r s) = (content s)(request_key r \<mapsto> r)"
    by (metis (no_types, opaque_lifting) ext option.exhaust)
qed

interpretation peer: request_table "\<lambda>(i, h). Lookup i h" "\<lambda>s. nth (requests s)"
  "\<lambda>(fresh, now, force). GetNewRecord fresh now force" put_record FreePeerRequestRecord requests_inv
  content request_key free_slot admissible
proof (unfold_locales, goal_cases)
  case (1 s k)
  then show ?case using Lookup_content [of s k] by (simp add: case_prod_unfold)
next
  case (2 s k i)
  then show ?case using requests_inv_subseq [OF _ free_subseq] by blast
next
  case (3 s k i)
  then show ?case using free_content [of s k i] by (simp add: case_prod_unfold)
next
  case (4 s a j s')
  have "subseq (inflight (requests s')) (inflight (requests s))"
  proof (cases j)
    case None
    with 4 GetNewRecord_None(1) [of "fst a" "fst (snd a)" "snd (snd a)" s s'] show ?thesis
      by (simp add: case_prod_unfold inflight_expire)
  next
    case (Some i)
    with 4 GetNewRecord_Some(3) [of "fst a" "fst (snd a)" "snd (snd a)" s i s'] show ?thesis
      by (simp add: case_prod_unfold)
  qed
  with 4(1) show ?case using requests_inv_subseq content_subseq by blast
next
  case (5 s a i s')
  then show ?case by (cases a) (auto intro: GetNewRecord_Some(1))
next
  case (6 s i r)
  then show ?case by (rule put_record_inv)
next
  case (7 s i r)
  then show ?case by (rule put_record_inv)
qed

subsection \<open>Recent queries and source nodes\<close>

lemma recent_simps [simp]:
  "recent now [] = []"
  "recent now (r # rs) = (if sentTo r \<noteq> None \<and> now - req_time r < TIMEOUT then r # recent now rs else recent now rs)"
  by (simp_all add: recent_def)

lemma recent_expire [simp]: "recent now (map (expire now) rs) = recent now rs"
  by (induction rs) (auto simp: expire_def)

lemma recent_update:
  assumes "sentTo (rs ! i) = None \<or> now - req_time (rs ! i) \<ge> TIMEOUT" and "sentTo r = None"
  shows "recent now (rs[i := r]) = recent now rs"
  using assms by (induction rs arbitrary: i) (auto split: nat.splits)

lemma GetNewRecord_recent:
  assumes "GetNewRecord fresh now force s = (Some i, s')"
  shows "recent now (requests s') = recent now (requests s)"
  using assms
proof (cases rule: GetNewRecord_cases)
  case target
  then show ?thesis by (simp add: recent_update)
next
  case oldest
  then have "expire now (requests s ! i) = requests s ! i \<or> sentTo (expire now (requests s ! i)) = None"
    by (auto simp: expire_def)
  with oldest show ?thesis by (auto simp: recent_update)
qed (simp add: fresh_record_def)

text \<open>All nodes for further sources: those of the records and those on the free list.\<close>

definition source_nodes :: "'ep PeerRequests \<Rightarrow> nat" where
  "source_nodes s = length (sources s) + sum_list (map (\<lambda>r. length (source_next r)) (requests s))"

lemma free_source_nodes:
  assumes "i < length (requests s)"
  shows "source_nodes (FreePeerRequestRecord i s) = source_nodes s"
proof -
  have "requests s = take i (requests s) @ requests s ! i # drop (Suc i) (requests s)"
    using assms by (rule id_take_nth_drop)
  then have "sum_list (map (\<lambda>r. length (source_next r)) (requests s)) =
      sum_list (map (\<lambda>r. length (source_next r)) (take i (requests s))) + (length (source_next (requests s ! i)) +
      sum_list (map (\<lambda>r. length (source_next r)) (drop (Suc i) (requests s))))"
    by (metis list.simps(9) map_append sum_list.Cons sum_list_append)
  with assms show ?thesis
    by (simp add: source_nodes_def FreePeerRequestRecord_def upd_conv_take_nth_drop)
qed

lemma GetNewPeerSource_eq:
  "GetNewPeerSource fresh now s =
     (if sources s = [] \<and> sourceCount s \<ge> of_nat MAX_FWD_QUERIES
      then Ret (None, handleMaxFwdQueries now s) else Undef UseAfterFree)"
  by (auto simp: GetNewPeerSource_def handleMaxFwdQueries_def Let_def)

section \<open>A sample table\<close>

definition sample_peer :: "nat \<Rightarrow> u16 \<Rightarrow> nat PeerSource" where
  "sample_peer ep i = \<lparr>src_endpoint = ep, src_ipv4 = True, originalId = i\<rparr>"

definition sample_query :: "u16 \<Rightarrow> byte list \<Rightarrow> nat option \<Rightarrow> int \<Rightarrow> nat PeerRequestRecord" where
  "sample_query i h srv t = \<lparr>source = sample_peer 1 7, source_next = [], sentTo = srv, newId = i,
     flags = 0, req_time = t, forwardTimestamp = 0, req_hash = h, fromTimedOut = False\<rparr>"

text \<open>One query in flight since time 1000 and one left over from time 900.\<close>

definition sample_requests :: "nat PeerRequests" where
  "sample_requests = \<lparr>requests = [sample_query 5 [1] (Some 0) 1000, sample_query 6 [2] (Some 0) 900],
     sources = [], sourceCount = 0, rng_pos = 0, lastLog = 0, skipCount = 0\<rparr>"

lemma sample_requests_inv: "requests_inv sample_requests"
  by (simp add: requests_inv_def sample_requests_def sample_query_def)

definition sample_allocated :: "nat PeerRequests" where
  "sample_allocated = sample_requests\<lparr>requests := [sample_query 5 [1] (Some 0) 1000,
     (sample_query 6 [2] None 1001)\<lparr>fromTimedOut := True\<rparr>]\<rparr>"

lemma sample_alloc:
  "GetNewRecord (sample_query 0 [] None 0) 1001 False sample_requests = (Some 1, sample_allocated)"
  by code_simp

section \<open>Properties\<close>

text \<open>
  Allocation of a record. The record handed out by \<open>GetNewRecord\<close> is free and stamped with the
  time; of the queries in flight it drops none that is younger than \<open>TIMEOUT\<close> and adds none; and
  unless forced it hands out nothing while \<open>MAX_FWD_QUERIES\<close> of them are that young.
\<close>

theorem get_new_record_spares_recent:
  assumes "GetNewRecord fresh now force s = (Some i, s')"
  shows "free_slot s' i \<and> req_time (requests s' ! i) = now \<and>
     subseq (inflight (requests s')) (inflight (requests s)) \<and>
     recent now (requests s') = recent now (requests s) \<and>
     (force \<or> length (recent now (requests s)) < MAX_FWD_QUERIES)"
  using GetNewRecord_Some [OF assms] GetNewRecord_recent [OF assms] GetNewRecord_limit assms
  by (cases force) auto

theorem get_new_record_spares_recent_witness:
  "free_slot sample_allocated 1 \<and> req_time (requests sample_allocated ! 1) = 1001 \<and>
     subseq (inflight (requests sample_allocated)) (inflight (requests sample_requests)) \<and>
     recent 1001 (requests sample_allocated) = recent 1001 (requests sample_requests) \<and>
     (False \<or> length (recent 1001 (requests sample_requests)) < MAX_FWD_QUERIES)"
  by (rule get_new_record_spares_recent [OF sample_alloc])

text \<open>
  C28: identifiers for forwarded queries. As long as the generator keeps drawing every value and fewer
  than 65535 queries are in flight, the loop of \<open>GetNewId\<close> ends, and the identifier it returns is used
  by no query in flight.
\<close>

theorem get_new_id_terminates_fresh:
  assumes "fair draw" and "length (inflight (requests s)) < 65535"
  shows "\<exists>i t. GetNewId draw s = Some (i, t) \<and> i \<notin> newId ` set (inflight (requests s)) \<and>
     requests t = requests s"
  using GetNewId_total [OF assms] GetNewId_Some [of draw s] by blast

theorem get_new_id_terminates_fresh_witness:
  "\<exists>i t. GetNewId of_nat sample_requests = Some (i, t) \<and>
     i \<notin> newId ` set (inflight (requests sample_requests)) \<and> requests t = requests sample_requests"
proof (rule get_new_id_terminates_fresh)
  show "fair of_nat"
  proof (unfold fair_def, intro allI impI)
    fix v :: u16 and i :: nat
    have "of_nat (i * 65536) = (0 :: u16)" unfolding word_of_nat_eq_0_iff by simp
    then have "of_nat (unat v + i * 65536) = v" unfolding of_nat_add by simp
    moreover have "i \<le> unat v + i * 65536" by simp
    ultimately show "\<exists>j \<ge> i. of_nat j = v" by blast
  qed
qed (simp add: sample_requests_def sample_query_def)

text \<open>
  C27: registering a query. After a record has been handed out and filled with an identifier and a
  digest that no query in flight has, \<open>Lookup\<close> finds exactly that record under them, the invariant
  of distinct identifiers and questions holds, and every other query in flight is one that was before.
\<close>

theorem registered_query_is_found:
  assumes "requests_inv s" and "GetNewRecord fresh now force s = (Some i, s')" and "admissible s' r"
  shows "requests_inv (put_record i r s') \<and>
     (\<exists>j. Lookup (newId r) (req_hash r) (put_record i r s') = Some j \<and> requests (put_record i r s') ! j = r) \<and>
     content (put_record i r s') \<subseteq>\<^sub>m (content s)(request_key r \<mapsto> r)"
  using peer.stored_is_found [OF assms(1) _ assms(3), where a = "(fresh, now, force)"]
    peer.stored_keeps_others [OF assms(1) _ assms(3), where a = "(fresh, now, force)"]
    peer.alloc_inv [OF assms(1), where a = "(fresh, now, force)"] put_record_inv(1) [OF _ _ assms(3)]
    GetNewRecord_Some(1) [OF assms(2)] assms(2)
  by (auto simp: request_key_def)

theorem registered_query_is_found_witness:
  "\<exists>j. Lookup 9 [3] (put_record 1 (sample_query 9 [3] (Some 0) 1001) sample_allocated) = Some j"
  using registered_query_is_found [OF sample_requests_inv sample_alloc, of "sample_query 9 [3] (Some 0) 1001"]
  by (auto simp: admissible_def sample_allocated_def sample_query_def)

text \<open>
  Closing a query. Freeing the record that \<open>Lookup\<close> found removes it, so a second reply with the
  same identifier and question finds nothing; the other queries stay, and no source node is lost.
\<close>

theorem freed_query_is_gone:
  assumes "requests_inv s" and "Lookup i h s = Some n"
  shows "Lookup i h (FreePeerRequestRecord n s) = None \<and>
     content (FreePeerRequestRecord n s) = (content s)((i, h) := None) \<and>
     requests_inv (FreePeerRequestRecord n s) \<and> source_nodes (FreePeerRequestRecord n s) = source_nodes s"
  using peer.freed_is_gone [OF assms(1), of "(i, h)" n] peer.free_contents [OF assms(1), of "(i, h)" n]
    peer.free_inv [OF assms(1), of "(i, h)" n] free_source_nodes [of n s] assms(2)
  by (auto simp: Lookup_def dest: find_index_Some)

theorem freed_query_is_gone_witness:
  "Lookup 5 [1] (FreePeerRequestRecord 0 sample_requests) = None"
  using freed_query_is_gone [OF sample_requests_inv, of 5 "[1]" 0]
  by (simp add: Lookup_def sample_requests_def sample_query_def)

text \<open>
  \<open>HasTimedOut\<close> compares the time stamp itself with the timeout. A record stamped at any time
  after the first ten seconds of the epoch counts as timed out from the moment it is handed out.
\<close>

theorem new_record_has_timed_out:
  assumes "GetNewRecord fresh now force s = (Some i, s')" and "now > TIMEOUT"
  shows "HasTimedOut (requests s' ! i)"
  using GetNewRecord_Some(2) [OF assms(1)] assms(2) by (simp add: HasTimedOut_def)

theorem new_record_has_timed_out_witness: "HasTimedOut (requests sample_allocated ! 1)"
  by (rule new_record_has_timed_out [OF sample_alloc]) simp

text \<open>
  \<open>GetNewPeerSource\<close> never returns a usable node. It either returns null, with the pool empty and
  \<open>MAX_FWD_QUERIES\<close> nodes made, or writes through a pointer to the node it has just deleted.
\<close>

theorem get_new_peer_source_unusable:
  "GetNewPeerSource fresh now s =
     (if sources s = [] \<and> sourceCount s \<ge> of_nat MAX_FWD_QUERIES
      then Ret (None, handleMaxFwdQueries now s) else Undef UseAfterFree)"
  by (rule GetNewPeerSource_eq)

end
