(* ===== verification/Shm_Rules.thy ===== *)
theory Shm_Rules
  imports Net_Common
begin

text \<open>
  \<^verbatim>\<open>include/rule/shm.hpp\<close> and \<^verbatim>\<open>src/rule/shm.cpp\<close>: the rules and the policy in shared memory.

  The rules are packed one after the other in \<open>data\<close>, a list of \<open>DATA_SIZE\<close> bytes; a pointer into it
  is an offset, and an access at or past its end is \<open>Undef DataOverrun\<close>. The layout is the one of x86-64:
  enumerations are four bytes, low byte first; \<open>IpAddressData\<close> is the \<open>bool\<close>, three bytes of padding
  (kept, because \<open>memcpy\<close> copies them) and the sixteen bytes of the union. Each public operation holds
  the mutex for its whole duration, so it is one step here; \<open>Shm_Threads\<close> has its single steps and shows that this is
  enough. Values of an enumeration that no enumerator has
  are kept as they are.
\<close>

abbreviation (input) DATA_SIZE :: nat where "DATA_SIZE \<equiv> 8192"

datatype ActionType = Dns | Redirect | OtherAction u32

datatype RuleType = IpAddress | EthAddress | IpAndEthAddress | OtherRule u32

record RuleHeader =
  ruleType :: RuleType
  actionType :: ActionType

record IpAddressData =
  ipd_ipv4 :: bool
  ipd_pad :: "byte list"
  ipaddr :: IpAddress

record Rule =
  rule_header :: RuleHeader
  ipd :: "IpAddressData option"
  eth :: "EthAddress option"
  target :: "IpAddressData option"

record Policy =
  action :: ActionType
  targetIpv4 :: IpAddress
  targetIpv6 :: IpAddress

record RuleData =
  policy :: Policy
  rd_size :: nat
  rd_data :: "byte list"

record Input =
  in_ipv4 :: bool
  in_ethaddr :: EthAddress
  in_ipaddr :: IpAddress

section \<open>Memory layout\<close>

abbreviation (input) sizeof_RuleHeader :: nat where "sizeof_RuleHeader \<equiv> 8"
abbreviation (input) sizeof_IpAddressData :: nat where "sizeof_IpAddressData \<equiv> 20"
abbreviation (input) sizeof_EthAddress :: nat where "sizeof_EthAddress \<equiv> 6"

definition rule_type_of :: "u32 \<Rightarrow> RuleType" where
  "rule_type_of w = (if w = 0 then IpAddress else if w = 1 then EthAddress
     else if w = 2 then IpAndEthAddress else OtherRule w)"

definition action_type_of :: "u32 \<Rightarrow> ActionType" where
  "action_type_of w = (if w = 0 then Dns else if w = 1 then Redirect else OtherAction w)"

fun rule_type_code :: "RuleType \<Rightarrow> u32" where
  "rule_type_code IpAddress = 0"
| "rule_type_code EthAddress = 1"
| "rule_type_code IpAndEthAddress = 2"
| "rule_type_code (OtherRule w) = w"

fun action_type_code :: "ActionType \<Rightarrow> u32" where
  "action_type_code Dns = 0"
| "action_type_code Redirect = 1"
| "action_type_code (OtherAction w) = w"

definition header_mem :: "RuleHeader \<Rightarrow> byte list" where
  "header_mem h = rev (bytes32 (rule_type_code (ruleType h))) @ rev (bytes32 (action_type_code (actionType h)))"

definition ipd_mem :: "IpAddressData \<Rightarrow> byte list" where
  "ipd_mem d = of_bool (ipd_ipv4 d) # ipd_pad d @ ipaddr d"

definition load_le32 :: "byte list \<Rightarrow> nat \<Rightarrow> u32" where
  "load_le32 m p = le32 (m ! p) (m ! (p + 1)) (m ! (p + 2)) (m ! (p + 3))"

definition load_header :: "byte list \<Rightarrow> nat \<Rightarrow> RuleHeader outcome" where
  "load_header m p =
     (if p + sizeof_RuleHeader \<le> length m
      then Ret \<lparr>ruleType = rule_type_of (load_le32 m p), actionType = action_type_of (load_le32 m (p + 4))\<rparr>
      else Undef DataOverrun)"

definition load_ipd :: "byte list \<Rightarrow> nat \<Rightarrow> IpAddressData outcome" where
  "load_ipd m p =
     (if p + sizeof_IpAddressData \<le> length m
      then Ret \<lparr>ipd_ipv4 = (m ! p \<noteq> 0), ipd_pad = take 3 (drop (p + 1) m), ipaddr = take 16 (drop (p + 4) m)\<rparr>
      else Undef DataOverrun)"

definition load_eth :: "byte list \<Rightarrow> nat \<Rightarrow> EthAddress outcome" where
  "load_eth m p =
     (if p + sizeof_EthAddress \<le> length m then Ret (take 6 (drop p m)) else Undef DataOverrun)"

text \<open>\<open>std::memcpy(t, p, n)\<close> into the array.\<close>

definition store_bytes :: "byte list \<Rightarrow> nat \<Rightarrow> byte list \<Rightarrow> byte list outcome" where
  "store_bytes m p bs =
     (if p + length bs \<le> length m then Ret (take p m @ bs @ drop (p + length bs) m) else Undef DataOverrun)"

section \<open>Walking over the rules\<close>

definition has_ip :: "RuleHeader \<Rightarrow> bool" where
  "has_ip h \<longleftrightarrow> ruleType h = IpAddress \<or> ruleType h = IpAndEthAddress"

definition has_eth :: "RuleHeader \<Rightarrow> bool" where
  "has_eth h \<longleftrightarrow> ruleType h = EthAddress \<or> ruleType h = IpAndEthAddress"

definition load_if :: "bool \<Rightarrow> (nat \<Rightarrow> 'a outcome) \<Rightarrow> nat \<Rightarrow> nat \<Rightarrow> ('a option \<times> nat) outcome" where
  "load_if b f n p = (if b then obind (f p) (\<lambda>x. Ret (Some x, p + n)) else Ret (None, p))"

text \<open>
  The code forms pointers to the parts of a rule and leaves reading them to its callers. Here the parts are loaded
  at once, so that a part outside of the array is an overrun even when no caller would read it.
\<close>

definition nextRule :: "byte list \<Rightarrow> nat \<Rightarrow> (Rule \<times> nat) outcome" where
  "nextRule m loc =
     obind (load_header m loc) (\<lambda>rh.
     obind (load_if (has_ip rh) (load_ipd m) sizeof_IpAddressData (loc + sizeof_RuleHeader)) (\<lambda>(d, loc).
     obind (load_if (has_eth rh) (load_eth m) sizeof_EthAddress loc) (\<lambda>(e, loc).
     obind (load_if (actionType rh = Redirect) (load_ipd m) sizeof_IpAddressData loc) (\<lambda>(t, loc).
     Ret (\<lparr>rule_header = rh, ipd = d, eth = e, target = t\<rparr>, loc)))))"

text \<open>\<open>for (...; i < n; i++) nextRule(&t);\<close>\<close>

fun skip_rules :: "byte list \<Rightarrow> nat \<Rightarrow> nat \<Rightarrow> nat outcome" where
  "skip_rules m 0 t = Ret t"
| "skip_rules m (Suc n) t = obind (nextRule m t) (\<lambda>(r, t). skip_rules m n t)"

section \<open>Changing the rules\<close>

definition rule_size :: "Rule \<Rightarrow> nat" where
  "rule_size r = sizeof_RuleHeader + (if has_ip (rule_header r) then sizeof_IpAddressData else 0) +
     (if has_eth (rule_header r) then sizeof_EthAddress else 0) +
     (if actionType (rule_header r) = Redirect then sizeof_IpAddressData else 0)"

text \<open>
  \<open>for (t = end + bytes; t > insertionPoint + bytes; t--) *t = *(t - bytes);\<close> with \<open>stop\<close> the bound
  and \<open>n\<close> the passes left.
\<close>

fun shift_up :: "nat \<Rightarrow> nat \<Rightarrow> nat \<Rightarrow> byte list \<Rightarrow> byte list outcome" where
  "shift_up bytes stop 0 m = Ret m"
| "shift_up bytes stop (Suc n) m =
     (let t = stop + Suc n in
      if t < length m then shift_up bytes stop n (m[t := m ! (t - bytes)]) else Undef DataOverrun)"

text \<open>\<open>for (t = deletionPoint; t + bytes < end; t++) *t = *(t + bytes);\<close>\<close>

fun shift_down :: "nat \<Rightarrow> nat \<Rightarrow> nat \<Rightarrow> byte list \<Rightarrow> byte list" where
  "shift_down bytes t 0 m = m"
| "shift_down bytes t (Suc n) m = shift_down bytes (t + 1) n (m[t := m ! (t + bytes)])"

definition store_if :: "bool \<Rightarrow> 'a option \<Rightarrow> ('a \<Rightarrow> byte list) \<Rightarrow> byte list \<times> nat \<Rightarrow> (byte list \<times> nat) outcome" where
  "store_if b x f = (\<lambda>(m, t).
     if b then
       (case x of None \<Rightarrow> Undef NullDeref
        | Some x \<Rightarrow> obind (store_bytes m t (f x)) (\<lambda>m. Ret (m, t + length (f x))))
     else Ret (m, t))"

fun write_rules :: "Rule list \<Rightarrow> byte list \<Rightarrow> nat \<Rightarrow> byte list outcome" where
  "write_rules [] m t = Ret m"
| "write_rules (r # rs) m t =
     obind (store_bytes m t (header_mem (rule_header r))) (\<lambda>m.
     obind (store_if (has_ip (rule_header r)) (ipd r) ipd_mem (m, t + sizeof_RuleHeader)) (\<lambda>mt.
     obind (store_if (has_eth (rule_header r)) (eth r) id mt) (\<lambda>mt.
     obind (store_if (actionType (rule_header r) = Redirect) (target r) ipd_mem mt) (\<lambda>(m, t).
     write_rules rs m t))))"

definition insertRules :: "Rule list \<Rightarrow> nat \<Rightarrow> RuleData \<Rightarrow> (nat \<times> RuleData) outcome" where
  "insertRules rules index d =
     (if index > rd_size d then Ret (0, d)
      else
        let bytes = sum_list (map rule_size rules) in
        obind (skip_rules (rd_data d) index 0) (\<lambda>insertionPoint.
        obind (skip_rules (rd_data d) (rd_size d - index) insertionPoint) (\<lambda>last.
        if last + bytes > DATA_SIZE then Ret (0, d)
        else
          obind (shift_up bytes (insertionPoint + bytes) (last - insertionPoint) (rd_data d)) (\<lambda>m.
          obind (write_rules rules m insertionPoint) (\<lambda>m.
          Ret (length rules, d\<lparr>rd_data := m, rd_size := rd_size d + length rules\<rparr>))))))"

definition deleteRule :: "nat \<Rightarrow> RuleData \<Rightarrow> (bool \<times> RuleData) outcome" where
  "deleteRule index d =
     (if rd_size d = 0 \<or> index \<ge> rd_size d then Ret (False, d)
      else if index = rd_size d - 1 then Ret (True, d\<lparr>rd_size := rd_size d - 1\<rparr>)
      else
        obind (skip_rules (rd_data d) index 0) (\<lambda>deletionPoint.
        obind (nextRule (rd_data d) deletionPoint) (\<lambda>(r, t).
        let bytes = t - deletionPoint in
        obind (skip_rules (rd_data d) (rd_size d - (index + 1)) t) (\<lambda>last.
        Ret (True, d\<lparr>rd_data := shift_down bytes deletionPoint (last - bytes - deletionPoint) (rd_data d),
          rd_size := rd_size d - 1\<rparr>)))))"

definition clearRules :: "RuleData \<Rightarrow> bool \<times> RuleData" where
  "clearRules d = (True, d\<lparr>rd_size := 0\<rparr>)"

section \<open>Public operations\<close>

definition mk_rule ::
  "RuleType \<Rightarrow> ActionType \<Rightarrow> IpAddressData option \<Rightarrow> EthAddress option \<Rightarrow> IpAddressData option \<Rightarrow> Rule" where
  "mk_rule rt at d e t = \<lparr>rule_header = \<lparr>ruleType = rt, actionType = at\<rparr>, ipd = d, eth = e, target = t\<rparr>"

definition AppendRule :: "Rule \<Rightarrow> RuleData \<Rightarrow> (bool \<times> RuleData) outcome" where
  "AppendRule r d = obind (insertRules [r] (rd_size d) d) (\<lambda>(n, d). Ret (n \<noteq> 0, d))"

definition InsertRule :: "Rule \<Rightarrow> nat \<Rightarrow> RuleData \<Rightarrow> (bool \<times> RuleData) outcome" where
  "InsertRule r index d = obind (insertRules [r] index d) (\<lambda>(n, d). Ret (n \<noteq> 0, d))"

definition DeleteRule :: "nat \<Rightarrow> RuleData \<Rightarrow> (bool \<times> RuleData) outcome" where
  "DeleteRule index d = deleteRule index d"

definition ClearRules :: "RuleData \<Rightarrow> (bool \<times> RuleData) outcome" where
  "ClearRules d = Ret (clearRules d)"

definition SetPolicy :: "ActionType \<Rightarrow> IpAddress \<Rightarrow> IpAddress \<Rightarrow> RuleData \<Rightarrow> (bool \<times> RuleData) outcome" where
  "SetPolicy a t4 t6 d = Ret (True, d\<lparr>policy := \<lparr>action = a, targetIpv4 = t4, targetIpv6 = t6\<rparr>\<rparr>)"

text \<open>
  \<open>Evaluate\<close> calls back into the server; the call it makes is the result. The pointers of a rule are
  dereferenced only where the header says they are set.
\<close>

datatype decision = Do_Resolve | Do_Redirect "byte list"

definition deref :: "'a option \<Rightarrow> 'a outcome" where
  "deref x = (case x of None \<Rightarrow> Undef NullDeref | Some x \<Rightarrow> Ret x)"

definition ip_differs :: "Input \<Rightarrow> IpAddressData \<Rightarrow> bool" where
  "ip_differs inp d \<longleftrightarrow> ipd_ipv4 d \<noteq> in_ipv4 inp \<or>
     ipd_ipv4 d \<and> Ipv4 (ipaddr d) \<noteq> Ipv4 (in_ipaddr inp) \<or>
     \<not> ipd_ipv4 d \<and> map (ip_word (ipaddr d)) [0, 1, 2, 3] \<noteq> map (ip_word (in_ipaddr inp)) [0, 1, 2, 3]"

text \<open>Whether the body of the loop passes the three \<open>continue\<close>s.\<close>

definition rule_applies :: "Input \<Rightarrow> Rule \<Rightarrow> bool outcome" where
  "rule_applies inp r =
     obind (if has_ip (rule_header r) then obind (deref (ipd r)) (\<lambda>d. Ret (\<not> ip_differs inp d)) else Ret True) (\<lambda>ok.
     if \<not> ok then Ret False
     else
       obind (if has_eth (rule_header r) then obind (deref (eth r)) (\<lambda>e. Ret (e = in_ethaddr inp)) else Ret True) (\<lambda>ok.
       if \<not> ok then Ret False
       else if actionType (rule_header r) = Redirect then
         obind (deref (target r)) (\<lambda>t. Ret (in_ipv4 inp = ipd_ipv4 t))
       else Ret True))"

definition rule_decision :: "Rule \<Rightarrow> decision outcome" where
  "rule_decision r =
     (if actionType (rule_header r) = Dns then Ret Do_Resolve
      else obind (deref (target r)) (\<lambda>t. Ret (Do_Redirect (ipaddr t))))"

definition policy_decision :: "Input \<Rightarrow> Policy \<Rightarrow> decision" where
  "policy_decision inp p =
     (if action p = Dns then Do_Resolve
      else if in_ipv4 inp then Do_Redirect (targetIpv4 p) else Do_Redirect (targetIpv6 p))"

fun evaluate_rules :: "Input \<Rightarrow> byte list \<Rightarrow> nat \<Rightarrow> nat \<Rightarrow> decision option outcome" where
  "evaluate_rules inp m 0 t = Ret None"
| "evaluate_rules inp m (Suc n) t =
     obind (nextRule m t) (\<lambda>(r, t).
     obind (rule_applies inp r) (\<lambda>b.
     if b then obind (rule_decision r) (\<lambda>a. Ret (Some a)) else evaluate_rules inp m n t))"

definition Evaluate :: "Input \<Rightarrow> RuleData \<Rightarrow> decision outcome" where
  "Evaluate inp d =
     obind (evaluate_rules inp (rd_data d) (rd_size d) 0) (\<lambda>a.
     Ret (case a of Some a \<Rightarrow> a | None \<Rightarrow> policy_decision inp (policy d)))"

section \<open>What the memory represents\<close>

definition mem_at :: "byte list \<Rightarrow> nat \<Rightarrow> byte list \<Rightarrow> bool" where
  "mem_at m p bs \<longleftrightarrow> p + length bs \<le> length m \<and> take (length bs) (drop p m) = bs"

definition ipd_ok :: "IpAddressData \<Rightarrow> bool" where
  "ipd_ok d \<longleftrightarrow> length (ipd_pad d) = 3 \<and> ip_ok (ipaddr d)"

text \<open>The pointers that the header asks for are set, to data of the right size.\<close>

definition rule_args_ok :: "Rule \<Rightarrow> bool" where
  "rule_args_ok r \<longleftrightarrow>
     ruleType (rule_header r) \<in> {IpAddress, EthAddress, IpAndEthAddress} \<and>
     actionType (rule_header r) \<in> {Dns, Redirect} \<and>
     (has_ip (rule_header r) \<longrightarrow> (\<exists>d. ipd r = Some d \<and> ipd_ok d)) \<and>
     (has_eth (rule_header r) \<longrightarrow> (\<exists>e. eth r = Some e \<and> eth_ok e)) \<and>
     (actionType (rule_header r) = Redirect \<longrightarrow> (\<exists>t. target r = Some t \<and> ipd_ok t))"

text \<open>What is kept of a rule.\<close>

definition stored :: "Rule \<Rightarrow> Rule" where
  "stored r = r\<lparr>ipd := if has_ip (rule_header r) then ipd r else None,
     eth := if has_eth (rule_header r) then eth r else None,
     target := if actionType (rule_header r) = Redirect then target r else None\<rparr>"

definition rule_bytes :: "Rule \<Rightarrow> byte list" where
  "rule_bytes r = header_mem (rule_header r) @
     (if has_ip (rule_header r) then ipd_mem (the (ipd r)) else []) @
     (if has_eth (rule_header r) then the (eth r) else []) @
     (if actionType (rule_header r) = Redirect then ipd_mem (the (target r)) else [])"

definition rule_ok :: "Rule \<Rightarrow> bool" where
  "rule_ok r \<longleftrightarrow> rule_args_ok r \<and> stored r = r"

text \<open>The shared memory holds the list \<open>rs\<close> of rules.\<close>

definition holds :: "RuleData \<Rightarrow> Rule list \<Rightarrow> bool" where
  "holds d rs \<longleftrightarrow> length (rd_data d) = DATA_SIZE \<and> rd_size d = length rs \<and> list_all rule_ok rs \<and>
     mem_at (rd_data d) 0 (concat (map rule_bytes rs))"

text \<open>The decision as a specification on the list: the first rule that matches, or else the policy.\<close>

definition matches :: "Input \<Rightarrow> Rule \<Rightarrow> bool" where
  "matches inp r \<longleftrightarrow> (has_ip (rule_header r) \<longrightarrow> \<not> ip_differs inp (the (ipd r))) \<and>
     (has_eth (rule_header r) \<longrightarrow> the (eth r) = in_ethaddr inp) \<and>
     (actionType (rule_header r) = Redirect \<longrightarrow> ipd_ipv4 (the (target r)) = in_ipv4 inp)"

definition decide :: "Input \<Rightarrow> Rule list \<Rightarrow> Policy \<Rightarrow> decision" where
  "decide inp rs p =
     (case find (matches inp) rs of
        Some r \<Rightarrow> if actionType (rule_header r) = Dns then Do_Resolve else Do_Redirect (ipaddr (the (target r)))
      | None \<Rightarrow> policy_decision inp p)"

text \<open>The commands of the rule tool, and what they mean on a list with the policy.\<close>

datatype rule_cmd = CmdAppend Rule | CmdInsert Rule nat | CmdDelete nat | CmdClear
  | CmdPolicy ActionType IpAddress IpAddress

fun rule_step :: "rule_cmd \<Rightarrow> RuleData \<Rightarrow> (bool \<times> RuleData) outcome" where
  "rule_step (CmdAppend r) = AppendRule r"
| "rule_step (CmdInsert r i) = InsertRule r i"
| "rule_step (CmdDelete i) = DeleteRule i"
| "rule_step CmdClear = ClearRules"
| "rule_step (CmdPolicy a t4 t6) = SetPolicy a t4 t6"

definition rule_fits :: "Rule list \<Rightarrow> Rule \<Rightarrow> bool" where
  "rule_fits rs r \<longleftrightarrow> sum_list (map rule_size rs) + rule_size r \<le> DATA_SIZE"

fun rule_spec :: "rule_cmd \<Rightarrow> Rule list \<times> Policy \<Rightarrow> bool \<times> Rule list \<times> Policy" where
  "rule_spec (CmdAppend r) (rs, p) = (if rule_fits rs r then (True, rs @ [stored r], p) else (False, rs, p))"
| "rule_spec (CmdInsert r i) (rs, p) =
     (if i \<le> length rs \<and> rule_fits rs r then (True, take i rs @ stored r # drop i rs, p) else (False, rs, p))"
| "rule_spec (CmdDelete i) (rs, p) =
     (if i < length rs then (True, take i rs @ drop (Suc i) rs, p) else (False, rs, p))"
| "rule_spec CmdClear (rs, p) = (True, [], p)"
| "rule_spec (CmdPolicy a t4 t6) (rs, p) = (True, rs, \<lparr>action = a, targetIpv4 = t4, targetIpv6 = t6\<rparr>)"

text \<open>Commands with complete rules; insertion only behind the last rule.\<close>

fun rule_allowed :: "rule_cmd \<Rightarrow> Rule list \<times> Policy \<Rightarrow> bool" where
  "rule_allowed (CmdAppend r) (rs, p) = rule_args_ok r"
| "rule_allowed (CmdInsert r i) (rs, p) = (rule_args_ok r \<and> length rs \<le> i)"
| "rule_allowed c a = True"

definition represents :: "RuleData \<Rightarrow> Rule list \<times> Policy \<Rightarrow> bool" where
  "represents d a \<longleftrightarrow> holds d (fst a) \<and> policy d = snd a"

section \<open>Lemmas\<close>

lemma mem_at_append: "mem_at m p (xs @ ys) \<longleftrightarrow> mem_at m p xs \<and> mem_at m (p + length xs) ys"
  using take_append_iff [of xs ys "drop p m"] by (auto simp: mem_at_def add.commute add.left_commute)

lemma mem_at_nth: "mem_at m p bs \<Longrightarrow> i < length bs \<Longrightarrow> m ! (p + i) = bs ! i"
  unfolding mem_at_def by (metis length_take min_def nth_drop nth_take le_add1 order_trans)

lemma length_mems [simp]: "length (header_mem h) = 8" "ipd_ok d \<Longrightarrow> length (ipd_mem d) = 20"
  by (simp_all add: header_mem_def ipd_mem_def ipd_ok_def ip_ok_def)

lemma load_le32_at:
  assumes "mem_at m p (rev (bytes32 w))"
  shows "load_le32 m p = w"
proof -
  have len: "length (rev (bytes32 w)) = 4" by simp
  from mem_at_nth [OF assms, of 0] mem_at_nth [OF assms, of 1] mem_at_nth [OF assms, of 2]
    mem_at_nth [OF assms, of 3]
  have "m ! p = rev (bytes32 w) ! 0" "m ! (p + 1) = rev (bytes32 w) ! 1"
    "m ! (p + 2) = rev (bytes32 w) ! 2" "m ! (p + 3) = rev (bytes32 w) ! 3"
    by (simp_all only: len) simp_all
  then show ?thesis by (simp add: load_le32_def le32_def bytes32_def byte_simps)
qed

lemma load_header_at:
  assumes "mem_at m p (header_mem h)" and "rule_type_of (rule_type_code (ruleType h)) = ruleType h"
    and "action_type_of (action_type_code (actionType h)) = actionType h"
  shows "load_header m p = Ret h"
proof -
  from assms(1) have "mem_at m p (rev (bytes32 (rule_type_code (ruleType h))))"
    "mem_at m (p + 4) (rev (bytes32 (action_type_code (actionType h))))"
    by (simp_all add: header_mem_def mem_at_append)
  moreover have "p + 8 \<le> length m" using assms(1) by (simp add: mem_at_def)
  ultimately show ?thesis using assms(2,3) by (simp add: load_header_def load_le32_at)
qed

lemma load_ipd_at:
  assumes "mem_at m p (ipd_mem d)" and "ipd_ok d"
  shows "load_ipd m p = Ret d"
proof -
  from assms have "mem_at m p ([of_bool (ipd_ipv4 d)] @ ipd_pad d @ ipaddr d)" "p + 20 \<le> length m"
    by (auto simp: ipd_mem_def mem_at_def ipd_ok_def ip_ok_def)
  then have "mem_at m p [of_bool (ipd_ipv4 d)]" "mem_at m (p + 1) (ipd_pad d)" "mem_at m (p + 4) (ipaddr d)"
    using assms(2) unfolding mem_at_append by (simp_all add: ipd_ok_def eval_nat_numeral)
  moreover from this(1) have "m ! p = of_bool (ipd_ipv4 d)" using mem_at_nth [of m p _ 0] by force
  ultimately show ?thesis
    using \<open>p + 20 \<le> length m\<close> assms(2) by (simp add: load_ipd_def mem_at_def ipd_ok_def ip_ok_def)
qed

lemma load_eth_at: "mem_at m p e \<Longrightarrow> eth_ok e \<Longrightarrow> load_eth m p = Ret e"
  by (simp add: load_eth_def mem_at_def eth_ok_def)

lemma nextRule_at:
  assumes "mem_at m p (rule_bytes r)" and "rule_ok r"
  shows "nextRule m p = Ret (r, p + length (rule_bytes r))"
proof -
  let ?h = "rule_header r"
  let ?d = "if has_ip ?h then ipd_mem (the (ipd r)) else []"
    and ?e = "if has_eth ?h then the (eth r) else []"
    and ?t = "if actionType ?h = Redirect then ipd_mem (the (target r)) else []"
  from assms(2) have args: "rule_args_ok r" and st: "stored r = r" by (auto simp: rule_ok_def)
  from assms(1) have h: "mem_at m p (header_mem ?h)" and d: "mem_at m (p + 8) ?d"
    and e: "mem_at m (p + 8 + length ?d) ?e" and t: "mem_at m (p + 8 + length ?d + length ?e) ?t"
    by (simp_all only: rule_bytes_def mem_at_append length_mems)
  have 1: "load_header m p = Ret ?h"
    using args h by (intro load_header_at) (auto simp: rule_args_ok_def rule_type_of_def action_type_of_def)
  have 2: "load_if (has_ip ?h) (load_ipd m) 20 (p + 8) = Ret (if has_ip ?h then ipd r else None, p + 8 + length ?d)"
    using args d by (auto simp: load_if_def rule_args_ok_def load_ipd_at)
  have 3: "load_if (has_eth ?h) (load_eth m) 6 (p + 8 + length ?d) =
      Ret (if has_eth ?h then eth r else None, p + 8 + length ?d + length ?e)"
    using args e by (auto simp: load_if_def rule_args_ok_def load_eth_at eth_ok_def)
  have 4: "load_if (actionType ?h = Redirect) (load_ipd m) 20 (p + 8 + length ?d + length ?e) =
      Ret (if actionType ?h = Redirect then target r else None, p + 8 + length ?d + length ?e + length ?t)"
    using args t by (auto simp: load_if_def rule_args_ok_def load_ipd_at)
  have "nextRule m p = Ret (stored r, p + 8 + length ?d + length ?e + length ?t)"
    unfolding nextRule_def 1 2 3 4 obind.simps by (simp add: 2 3 4 stored_def)
  with st show ?thesis by (simp add: rule_bytes_def add.assoc)
qed

lemma skip_rules_at:
  "list_all rule_ok rs \<Longrightarrow> mem_at m p (concat (map rule_bytes rs)) \<Longrightarrow>
     skip_rules m (length rs) p = Ret (p + length (concat (map rule_bytes rs)))"
proof (induction rs arbitrary: p)
  case Nil
  then show ?case by simp
next
  case (Cons r rs)
  then have "mem_at m p (rule_bytes r)" "mem_at m (p + length (rule_bytes r)) (concat (map rule_bytes rs))"
    by (simp_all add: mem_at_append)
  with Cons nextRule_at [of m p r] show ?case by (simp add: add.assoc)
qed

lemma rule_bytes_length: "rule_args_ok r \<Longrightarrow> length (rule_bytes r) = rule_size r"
  by (auto simp: rule_args_ok_def rule_bytes_def rule_size_def eth_ok_def)

lemma rule_bytes_pos: "0 < length (rule_bytes r)"
  by (simp add: rule_bytes_def)

lemma stored_sel [simp]: "rule_header (stored r) = rule_header r" "stored (stored r) = stored r"
  "rule_bytes (stored r) = rule_bytes r"
  by (simp_all add: stored_def rule_bytes_def)

lemma rule_ok_stored: "rule_args_ok r \<Longrightarrow> rule_ok (stored r)"
  unfolding rule_ok_def rule_args_ok_def by (simp add: stored_def)

subsection \<open>Storing\<close>

definition poke :: "byte list \<Rightarrow> nat \<Rightarrow> byte list \<Rightarrow> byte list" where
  "poke m p bs = take p m @ bs @ drop (p + length bs) m"

lemma store_bytes_poke: "p + length bs \<le> length m \<Longrightarrow> store_bytes m p bs = Ret (poke m p bs)"
  by (simp add: store_bytes_def poke_def)

lemma length_poke [simp]: "p + length bs \<le> length m \<Longrightarrow> length (poke m p bs) = length m"
  by (simp add: poke_def)

lemma poke_poke:
  assumes "p + length xs + length ys \<le> length m" and "q = p + length xs"
  shows "poke (poke m p xs) q ys = poke m p (xs @ ys)"
proof -
  have "drop (p + length xs + length ys) (take p m @ xs @ drop (p + length xs) m) = drop (p + length xs + length ys) m"
    using assms(1) by (simp add: add.commute add.left_commute)
  with assms show ?thesis by (simp add: poke_def add.assoc min_absorb2)
qed

lemma poke_Nil [simp]: "p \<le> length m \<Longrightarrow> poke m p [] = m"
  by (simp add: poke_def)

lemma store_if_poke:
  assumes "b \<Longrightarrow> \<exists>y. x = Some y" and "t + length (if b then f (the x) else []) \<le> length m"
  shows "store_if b x f (m, t) =
     Ret (poke m t (if b then f (the x) else []), t + length (if b then f (the x) else []))"
  using assms by (auto simp: store_if_def store_bytes_poke)

lemma write_rules_poke:
  assumes "rule_args_ok r" and "p + rule_size r \<le> length m"
  shows "write_rules [r] m p = Ret (poke m p (rule_bytes r))"
proof -
  let ?h = "rule_header r"
  let ?d = "if has_ip ?h then ipd_mem (the (ipd r)) else []"
    and ?e = "if has_eth ?h then id (the (eth r)) else []"
    and ?t = "if actionType ?h = Redirect then ipd_mem (the (target r)) else []"
  have bytes: "rule_bytes r = header_mem ?h @ ?d @ ?e @ ?t" by (simp add: rule_bytes_def)
  have len: "p + (8 + length ?d + length ?e + length ?t) \<le> length m"
    using assms(2) rule_bytes_length [OF assms(1)] unfolding bytes by simp
  note x = assms(1) [unfolded rule_args_ok_def]
  let ?m1 = "poke m p (header_mem ?h)"
  have 1: "store_if (has_ip ?h) (ipd r) ipd_mem (?m1, p + 8) = Ret (poke ?m1 (p + 8) ?d, p + 8 + length ?d)"
    using x len by (intro store_if_poke) auto
  let ?m2 = "poke ?m1 (p + 8) ?d"
  have 2: "store_if (has_eth ?h) (eth r) id (?m2, p + 8 + length ?d) =
      Ret (poke ?m2 (p + 8 + length ?d) ?e, p + 8 + length ?d + length ?e)"
    using x len by (intro store_if_poke) auto
  let ?m3 = "poke ?m2 (p + 8 + length ?d) ?e"
  have 3: "store_if (actionType ?h = Redirect) (target r) ipd_mem (?m3, p + 8 + length ?d + length ?e) =
      Ret (poke ?m3 (p + 8 + length ?d + length ?e) ?t, p + 8 + length ?d + length ?e + length ?t)"
    using x len by (intro store_if_poke) auto
  have m2: "?m2 = poke m p (header_mem ?h @ ?d)" using len by (intro poke_poke) simp_all
  have m3: "?m3 = poke m p ((header_mem ?h @ ?d) @ ?e)" unfolding m2 using len by (intro poke_poke) simp_all
  have "poke ?m3 (p + 8 + length ?d + length ?e) ?t = poke m p (((header_mem ?h @ ?d) @ ?e) @ ?t)"
    unfolding m3 using len by (intro poke_poke) simp_all
  with len show ?thesis by (simp only: write_rules.simps store_bytes_poke obind.simps 1 2 3 length_mems bytes) (simp add: store_bytes_poke)
qed

subsection \<open>Shifting\<close>

lemma shift_down_eq:
  "t + bytes + n \<le> length m \<Longrightarrow>
     shift_down bytes t n m = take t m @ take n (drop (t + bytes) m) @ drop (t + n) m"
proof (induction n arbitrary: t m)
  case 0
  then show ?case by simp
next
  case (Suc n)
  let ?m = "m[t := m ! (t + bytes)]"
  have "drop (t + bytes) m = m ! (t + bytes) # drop (Suc t + bytes) m"
    using Suc.prems by (simp add: Cons_nth_drop_Suc)
  moreover have "drop (Suc t + bytes) ?m = drop (Suc t + bytes) m" "drop (Suc t + n) ?m = drop (Suc t + n) m"
    by (simp_all add: drop_update_cancel)
  moreover have "take (Suc t) ?m = take t m @ [m ! (t + bytes)]"
    using Suc.prems by (simp add: take_Suc_conv_app_nth)
  ultimately show ?case using Suc.IH [of "Suc t" ?m] Suc.prems by simp
qed

lemma shift_up_eq:
  assumes "bytes \<le> stop" and "0 < bytes" and "stop + n < length m"
  shows "shift_up bytes stop n m =
     Ret (take (stop + 1) m @ take n (drop (stop - bytes + 1) m) @ drop (stop + 1 + n) m)"
  using assms(3)
proof (induction n arbitrary: m)
  case 0
  then show ?case by simp
next
  case (Suc n)
  let ?t = "stop + Suc n"
  let ?m = "m[?t := m ! (?t - bytes)]"
  let ?p = "stop - bytes + 1"
  have p: "?p + n = ?t - bytes" "?p + n < ?t" using assms(1,2) by auto
  have "take n (drop ?p ?m) = take n (drop ?p m)"
    using p by (simp add: take_drop add.commute)
  moreover have "drop (stop + 1 + n) ?m = m ! (?t - bytes) # drop (stop + 1 + Suc n) m"
    using Suc.prems by (simp add: Cons_nth_drop_Suc [symmetric] drop_update_cancel)
  moreover have "take (Suc n) (drop ?p m) = take n (drop ?p m) @ [m ! (?t - bytes)]"
  proof -
    have "n < length (drop ?p m)" "?p \<le> length m" using p Suc.prems by simp_all
    then show ?thesis by (simp only: take_Suc_conv_app_nth nth_drop p(1))
  qed
  ultimately show ?case using Suc.IH [of ?m] Suc.prems by (simp add: Let_def)
qed

subsection \<open>The operations on the represented list\<close>

abbreviation (input) total :: "Rule list \<Rightarrow> nat" where
  "total rs \<equiv> length (concat (map rule_bytes rs))"

lemma holds_split:
  assumes "holds d (xs @ ys)"
  shows "skip_rules (rd_data d) (length xs) 0 = Ret (total xs)"
    and "skip_rules (rd_data d) (length ys) (total xs) = Ret (total xs + total ys)"
    and "mem_at (rd_data d) 0 (concat (map rule_bytes xs))"
    and "mem_at (rd_data d) (total xs) (concat (map rule_bytes ys))"
    and "rd_size d = length xs + length ys" and "length (rd_data d) = DATA_SIZE"
    and "list_all rule_ok xs" and "list_all rule_ok ys"
  using assms skip_rules_at [of xs "rd_data d" 0] skip_rules_at [of ys "rd_data d" "total xs"]
  by (auto simp: holds_def mem_at_append)

lemma holdsI:
  assumes "length m = DATA_SIZE" and "list_all rule_ok rs" and "m = concat (map rule_bytes rs) @ z"
  shows "holds (d\<lparr>rd_data := m, rd_size := length rs\<rparr>) rs"
  using assms by (simp add: holds_def mem_at_def)

lemma mem_at_0: "mem_at m 0 bs \<longleftrightarrow> take (length bs) m = bs"
  by (auto simp: mem_at_def) (metis length_take min.bounded_iff nle_le)

lemma insert_at_end:
  assumes "holds d rs" and "rule_args_ok r"
  shows "insertRules [r] (length rs) d =
     (if total rs + rule_size r \<le> DATA_SIZE
      then Ret (1, d\<lparr>rd_data := poke (rd_data d) (total rs) (rule_bytes r), rd_size := length rs + 1\<rparr>)
      else Ret (0, d))"
  using holds_split [of d rs "[]"] assms write_rules_poke [OF assms(2), of "total rs" "rd_data d"]
  by (simp add: insertRules_def)

lemma append_holds:
  assumes "holds d rs" and "rule_args_ok r" and "total rs + rule_size r \<le> DATA_SIZE"
  shows "holds (d\<lparr>rd_data := poke (rd_data d) (total rs) (rule_bytes r), rd_size := length rs + 1\<rparr>)
     (rs @ [stored r])"
proof -
  have "take (total rs) (rd_data d) = concat (map rule_bytes rs)"
    using assms(1) by (simp add: holds_def mem_at_0)
  with assms rule_bytes_length [OF assms(2)] rule_ok_stored [OF assms(2)] show ?thesis
    using holdsI [of "poke (rd_data d) (total rs) (rule_bytes r)" "rs @ [stored r]"
      "drop (total rs + length (rule_bytes r)) (rd_data d)" d]
    by (simp add: holds_def poke_def)
qed

lemma delete_holds:
  assumes "holds d (xs @ r # ys)"
  shows "\<exists>d'. deleteRule (length xs) d = Ret (True, d') \<and> holds d' (xs @ ys) \<and> policy d' = policy d"
proof (cases ys)
  case Nil
  with assms show ?thesis by (auto simp: deleteRule_def holds_def mem_at_append)
next
  case (Cons q qs)
  let ?m = "rd_data d" and ?n = "length (rule_bytes r)"
  note xs = holds_split [OF assms]
  from assms have assms': "holds d ((xs @ [r]) @ ys)" by simp
  note ys = holds_split [OF assms']
  have at: "mem_at ?m (total xs) (rule_bytes r)" "rule_ok r" using xs by (simp_all add: mem_at_append)
  have y: "mem_at ?m (total xs + ?n) (concat (map rule_bytes ys))" using ys by simp
  let ?m' = "shift_down ?n (total xs) (total ys) ?m"
  have "?m' = take (total xs) ?m @ take (total ys) (drop (total xs + ?n) ?m) @ drop (total xs + total ys) ?m"
    using y by (intro shift_down_eq) (simp add: mem_at_def)
  then have m': "?m' = concat (map rule_bytes (xs @ ys)) @ drop (total xs + total ys) ?m"
    using xs(3) y by (simp add: mem_at_0) (simp add: mem_at_def)
  have "length ?m' = DATA_SIZE"
    using xs(3,6) y by (simp add: m') (simp add: mem_at_def)
  with m' xs(7,8) have "holds (d\<lparr>rd_data := ?m', rd_size := length (xs @ ys)\<rparr>) (xs @ ys)"
    by (intro holdsI) auto
  moreover have "deleteRule (length xs) d = Ret (True, d\<lparr>rd_data := ?m', rd_size := length (xs @ ys)\<rparr>)"
    using xs ys nextRule_at [OF at] Cons by (simp add: deleteRule_def Let_def)
  ultimately show ?thesis by simp
qed

text \<open>
  Inserting in front of a rule. The loop that moves the rules behind the insertion point stops one
  byte early: the byte that lay there stays, and the byte behind the last rule is moved instead.
\<close>

lemma total_Suc: "ys \<noteq> [] \<Longrightarrow> \<exists>n. total ys = Suc n"
  by (cases ys) (auto simp: rule_bytes_def)

lemma insert_in_middle:
  assumes "holds d (xs @ ys)" and "ys \<noteq> []" and "rule_args_ok r"
    and "total xs + total ys + rule_size r < DATA_SIZE"
  shows "insertRules [r] (length xs) d = Ret (1, d\<lparr>
     rd_data := take (total xs) (rd_data d) @ rule_bytes r @ rd_data d ! (total xs + rule_size r) #
       take (total ys) (drop (total xs + 1) (rd_data d)) @
       drop (total xs + rule_size r + 1 + total ys) (rd_data d),
     rd_size := length (xs @ ys) + 1\<rparr>)"
proof -
  let ?m = "rd_data d" and ?b = "rule_size r" and ?p = "total xs"
  let ?s = "take (?p + ?b + 1) ?m @ take (total ys) (drop (?p + 1) ?m) @ drop (?p + ?b + 1 + total ys) ?m"
  note sp = holds_split [OF assms(1)]
  have b: "0 < ?b" by (simp add: rule_size_def)
  have up: "shift_up ?b (?p + ?b) (total ys) ?m = Ret ?s"
    using shift_up_eq [of ?b "?p + ?b" "total ys" ?m] b assms(4) sp(6) by (simp add: ac_simps)
  have len: "length ?s = length ?m" using assms(4) sp(6) by simp
  have w: "write_rules [r] ?s ?p = Ret (poke ?s ?p (rule_bytes r))"
    using assms(4) sp(6) by (intro write_rules_poke assms(3)) (subst len, simp)
  have "poke ?s ?p (rule_bytes r) = take ?p ?m @ rule_bytes r @ ?m ! (?p + ?b) #
      take (total ys) (drop (?p + 1) ?m) @ drop (?p + ?b + 1 + total ys) ?m"
    using assms(4) sp(6) rule_bytes_length [OF assms(3)]
    by (simp add: poke_def take_Suc_conv_app_nth min_def)
  with up w sp assms(4) show ?thesis by (simp add: insertRules_def Let_def)
qed

lemma insert_in_middle_full:
  assumes "holds d (xs @ ys)" and "ys \<noteq> []" and "rule_args_ok r"
    and "total xs + total ys + rule_size r = DATA_SIZE"
  shows "insertRules [r] (length xs) d = Undef DataOverrun"
proof -
  note sp = holds_split [OF assms(1)]
  from total_Suc [OF assms(2)] obtain n where "total ys = Suc n" ..
  with sp assms(4) show ?thesis by (simp add: insertRules_def Let_def)
qed

lemma insert_in_middle_holds:
  assumes "holds d (xs @ ys)" and "ys \<noteq> []" and "rule_args_ok r"
    and "total xs + total ys + rule_size r < DATA_SIZE" and "insertRules [r] (length xs) d = Ret (n, d')"
  shows "holds d' (xs @ stored r # ys) \<longleftrightarrow>
     rd_data d ! (total xs + rule_size r) = rd_data d ! total xs"
proof -
  let ?m = "rd_data d" and ?b = "rule_size r" and ?p = "total xs"
  note sp = holds_split [OF assms(1)]
  from total_Suc [OF assms(2)] obtain k where k: "total ys = Suc k" ..
  have y: "concat (map rule_bytes ys) = ?m ! ?p # take k (drop (?p + 1) ?m)"
  proof -
    have "concat (map rule_bytes ys) = take (Suc k) (drop ?p ?m)" using sp(4) k by (simp add: mem_at_def)
    moreover have "drop ?p ?m = ?m ! ?p # drop (?p + 1) ?m"
      using sp(6) assms(4) by (simp add: Cons_nth_drop_Suc)
    ultimately show ?thesis by simp
  qed
  define z where "z = drop k (take (Suc k) (drop (?p + 1) ?m)) @ drop (?p + ?b + 1 + total ys) ?m"
  have tk: "take (Suc k) (drop (?p + 1) ?m) @ drop (?p + ?b + 1 + total ys) ?m = take k (drop (?p + 1) ?m) @ z"
    using append_take_drop_id [of k "take (Suc k) (drop (?p + 1) ?m)"] unfolding z_def
    by (simp add: min_def flip: append_assoc)
  have d': "rd_size d' = length (xs @ ys) + 1" "rd_data d' = concat (map rule_bytes xs) @ rule_bytes r @
       ?m ! (?p + ?b) # take k (drop (?p + 1) ?m) @ z"
    using insert_in_middle [OF assms(1-4)] assms(5) sp(3) tk by (auto simp: mem_at_0 k)
  have "length (rd_data d') = DATA_SIZE"
    using assms(4) sp(6) k rule_bytes_length [OF assms(3)] by (simp add: d' z_def)
  moreover have "mem_at (rd_data d') 0 (concat (map rule_bytes (xs @ stored r # ys))) \<longleftrightarrow> ?m ! (?p + ?b) = ?m ! ?p"
    using assms(4) sp(6) by (auto simp: mem_at_0 d' y k)
  ultimately show ?thesis
    using sp(7,8) rule_ok_stored [OF assms(3)] d'(1) by (simp add: holds_def)
qed

lemma total_size: "list_all rule_ok rs \<Longrightarrow> total rs = sum_list (map rule_size rs)"
  by (induction rs) (auto simp: rule_ok_def rule_bytes_length)

lemma append_step:
  assumes "holds d rs" and "rule_args_ok r"
  shows "\<exists>d'. AppendRule r d = Ret (rule_fits rs r, d') \<and> policy d' = policy d \<and>
     holds d' (if rule_fits rs r then rs @ [stored r] else rs)"
  using assms insert_at_end [OF assms] append_holds [OF assms] total_size [of rs]
  by (auto simp: AppendRule_def rule_fits_def holds_def)

lemma insert_step:
  assumes "holds d rs" and "rule_args_ok r" and "length rs \<le> i"
  shows "\<exists>d'. InsertRule r i d = Ret (i = length rs \<and> rule_fits rs r, d') \<and> policy d' = policy d \<and>
     holds d' (if i = length rs \<and> rule_fits rs r then rs @ [stored r] else rs)"
proof (cases "i = length rs")
  case True
  with assms(1) have "InsertRule r i d = AppendRule r d" by (simp add: InsertRule_def AppendRule_def holds_def)
  with append_step [OF assms(1,2)] True show ?thesis by simp
qed (use assms in \<open>auto simp: InsertRule_def insertRules_def holds_def\<close>)

lemma delete_step:
  assumes "holds d rs"
  shows "\<exists>d'. DeleteRule i d = Ret (i < length rs, d') \<and> policy d' = policy d \<and>
     holds d' (if i < length rs then take i rs @ drop (Suc i) rs else rs)"
proof (cases "i < length rs")
  case True
  then have "rs = take i rs @ rs ! i # drop (Suc i) rs" by (rule id_take_nth_drop)
  with assms delete_holds [of d "take i rs" "rs ! i" "drop (Suc i) rs"] True show ?thesis
    by (auto simp: DeleteRule_def min_def)
qed (use assms in \<open>auto simp: DeleteRule_def deleteRule_def holds_def\<close>)

interpretation rules: simulation rule_step rule_spec represents rule_allowed
proof
  fix d a c
  assume rep: "represents d a" and ok: "rule_allowed c a"
  obtain rs p where a: "a = (rs, p)" by fastforce
  with rep have h: "holds d rs" "policy d = p" by (auto simp: represents_def)
  show "\<exists>d'. rule_step c d = Ret (fst (rule_spec c a), d') \<and> represents d' (snd (rule_spec c a))"
  proof (cases c)
    case (CmdAppend r)
    with ok a h append_step [OF h(1), of r] show ?thesis by (auto simp: represents_def split: if_splits)
  next
    case (CmdInsert r i)
    with ok a h insert_step [OF h(1), of r i] show ?thesis by (auto simp: represents_def split: if_splits)
  next
    case (CmdDelete i)
    with a h delete_step [OF h(1), of i] show ?thesis by (auto simp: represents_def split: if_splits)
  qed (use a h in \<open>auto simp: represents_def ClearRules_def clearRules_def SetPolicy_def holds_def mem_at_def\<close>)
qed

lemma rule_applies_matches: "rule_ok r \<Longrightarrow> rule_applies inp r = Ret (matches inp r)"
  by (auto simp: rule_ok_def rule_args_ok_def rule_applies_def matches_def deref_def)

lemma evaluate_rules_find:
  "list_all rule_ok rs \<Longrightarrow> mem_at m p (concat (map rule_bytes rs)) \<Longrightarrow>
     evaluate_rules inp m (length rs) p = Ret (map_option
       (\<lambda>r. if actionType (rule_header r) = Dns then Do_Resolve else Do_Redirect (ipaddr (the (target r))))
       (find (matches inp) rs))"
proof (induction rs arbitrary: p)
  case Nil
  then show ?case by simp
next
  case (Cons r rs)
  then have "mem_at m p (rule_bytes r)" "mem_at m (p + length (rule_bytes r)) (concat (map rule_bytes rs))"
    by (simp_all add: mem_at_append)
  moreover from Cons.prems have "rule_ok r" by simp
  ultimately show ?case
    using Cons nextRule_at [of m p r] rule_applies_matches [of r inp]
    by (auto simp: rule_decision_def deref_def rule_ok_def rule_args_ok_def)
qed

lemma Evaluate_decide: "represents d (rs, p) \<Longrightarrow> Evaluate inp d = Ret (decide inp rs p)"
  using evaluate_rules_find [of rs "rd_data d" 0 inp]
  by (auto simp: Evaluate_def represents_def holds_def decide_def split: option.splits)

section \<open>Sample rules\<close>

definition sample_ip :: "byte \<Rightarrow> IpAddressData" where
  "sample_ip b = \<lparr>ipd_ipv4 = True, ipd_pad = [0, 0, 0], ipaddr = [10, 0, 0, b] @ replicate 12 0\<rparr>"

definition redirect_rule :: Rule where
  "redirect_rule = mk_rule EthAddress Redirect None (Some [1, 2, 3, 4, 5, 6]) (Some (sample_ip 9))"

definition dns_rule :: Rule where
  "dns_rule = mk_rule IpAddress Dns (Some (sample_ip 2)) None None"

definition empty_rules :: RuleData where
  "empty_rules = \<lparr>policy = \<lparr>action = Dns, targetIpv4 = replicate 16 0, targetIpv6 = replicate 16 0\<rparr>,
     rd_size = 0, rd_data = replicate DATA_SIZE 0\<rparr>"

lemma sample_rules_ok: "rule_args_ok redirect_rule" "rule_args_ok dns_rule"
  "stored redirect_rule = redirect_rule" "stored dns_rule = dns_rule"
  "rule_size redirect_rule = 34" "rule_size dns_rule = 28"
  by (simp_all add: rule_args_ok_def redirect_rule_def dns_rule_def mk_rule_def has_ip_def has_eth_def
      ipd_ok_def ip_ok_def eth_ok_def sample_ip_def stored_def rule_size_def)

lemma empty_rules_represents: "represents empty_rules ([], policy empty_rules)"
  by (simp add: represents_def holds_def empty_rules_def mem_at_def)

text \<open>A memory that holds a given list, with zero bytes behind it.\<close>

definition memory_of :: "Rule list \<Rightarrow> RuleData" where
  "memory_of rs = empty_rules\<lparr>rd_size := length rs,
     rd_data := concat (map rule_bytes rs) @ replicate (DATA_SIZE - sum_list (map rule_size rs)) 0\<rparr>"

lemma memory_of_holds:
  assumes "list_all rule_ok rs" and "sum_list (map rule_size rs) \<le> DATA_SIZE"
  shows "holds (memory_of rs) rs"
  using assms total_size [OF assms(1)] by (simp add: memory_of_def holds_def mem_at_def)

lemma sample_rules_stored: "rule_ok redirect_rule" "rule_ok dns_rule"
  by (simp_all add: rule_ok_def sample_rules_ok)

section \<open>Properties\<close>

text \<open>
  C6: the rule store refines a list. From a memory that holds a list of rules, every sequence of
  commands (append, delete, clear, set the policy, insert behind the last rule, with complete rules)
  succeeds without undefined behaviour, returns what the same commands return on the list, and leaves a
  memory that holds the resulting list; a rule that does not fit in the data area is refused.
\<close>

theorem rule_commands_refine_list:
  assumes "represents d a" and "all_allowed rule_allowed rule_spec cs a"
  shows "\<exists>d'. run_steps rule_step cs d = Ret (fst (run_spec rule_spec cs a), d') \<and>
     represents d' (snd (run_spec rule_spec cs a))"
  by (rule rules.run_simulates [OF assms])

theorem rule_commands_refine_list_witness:
  "\<exists>d'. run_steps rule_step [CmdAppend redirect_rule, CmdAppend dns_rule, CmdDelete 0, CmdDelete 7] empty_rules =
     Ret ([True, True, True, False], d') \<and> represents d' ([dns_rule], policy empty_rules)"
  using rule_commands_refine_list [OF empty_rules_represents,
      of "[CmdAppend redirect_rule, CmdAppend dns_rule, CmdDelete 0, CmdDelete 7]"]
  by (simp add: sample_rules_ok rule_fits_def)

text \<open>
  Evaluation of a query. On a memory that holds the rules \<open>rs\<close>, \<open>Evaluate\<close> makes exactly the call
  of the first rule whose addresses match the client and whose redirection target, if any, is of the
  client's address family; with no such rule it follows the policy.
\<close>

theorem evaluate_first_match:
  assumes "represents d (rs, p)"
  shows "Evaluate inp d = Ret (decide inp rs p)"
  by (rule Evaluate_decide [OF assms])

theorem evaluate_first_match_witness:
  "Evaluate \<lparr>in_ipv4 = True, in_ethaddr = [1, 2, 3, 4, 5, 6], in_ipaddr = [10, 0, 0, 2] @ replicate 12 0\<rparr>
     empty_rules = Ret Do_Resolve"
  using evaluate_first_match [OF empty_rules_represents]
  by (simp add: decide_def policy_decision_def empty_rules_def)

text \<open>
  C31: inserting in front of a rule. When there is room, \<open>InsertRule\<close> reports success, but the memory
  holds the list with the new rule in it exactly when the byte that lay as many bytes behind the
  insertion point as the new rule takes equals the byte at the insertion point: the first byte of the
  rules behind is not moved.
\<close>

theorem insert_before_rule_correct_iff:
  assumes "holds d (xs @ ys)" and "ys \<noteq> []" and "rule_args_ok r"
    and "sum_list (map rule_size (xs @ ys)) + rule_size r < DATA_SIZE"
  shows "\<exists>d'. InsertRule r (length xs) d = Ret (True, d') \<and>
     (holds d' (xs @ stored r # ys) \<longleftrightarrow>
      rd_data d ! (sum_list (map rule_size xs) + rule_size r) = rd_data d ! sum_list (map rule_size xs))"
proof -
  from assms(1) have "list_all rule_ok xs" "list_all rule_ok ys" by (auto simp: holds_def)
  note total = this [THEN total_size]
  have lt: "total xs + total ys + rule_size r < DATA_SIZE" using assms(4) total by simp
  from insert_in_middle [OF assms(1-3) lt] obtain d' where d': "insertRules [r] (length xs) d = Ret (1, d')"
    by blast
  from insert_in_middle_holds [OF assms(1-3) lt d'] d' show ?thesis by (auto simp: InsertRule_def total)
qed

theorem insert_before_rule_correct_iff_witness:
  "\<exists>d'. InsertRule dns_rule 0 (memory_of [redirect_rule]) = Ret (True, d') \<and> \<not> holds d' [dns_rule, redirect_rule]"
proof -
  have bytes: "rule_bytes redirect_rule ! 28 \<noteq> rule_bytes redirect_rule ! 0" "length (rule_bytes redirect_rule) = 34"
    by code_simp+
  have "holds (memory_of [redirect_rule]) ([] @ [redirect_rule])"
    using memory_of_holds [of "[redirect_rule]"] by (simp add: sample_rules_stored sample_rules_ok)
  from insert_before_rule_correct_iff [OF this, of dns_rule] bytes show ?thesis
    by (auto simp: sample_rules_ok memory_of_def nth_append)
qed

text \<open>
  With exactly no byte to spare, inserting in front of a rule writes behind the data area.
\<close>

theorem insert_before_rule_overrun:
  assumes "holds d (xs @ ys)" and "ys \<noteq> []" and "rule_args_ok r"
    and "sum_list (map rule_size (xs @ ys)) + rule_size r = DATA_SIZE"
  shows "InsertRule r (length xs) d = Undef DataOverrun"
proof -
  from assms(1) have "list_all rule_ok xs" "list_all rule_ok ys" by (auto simp: holds_def)
  note total = this [THEN total_size]
  from assms(4) total insert_in_middle_full [OF assms(1-3)] show ?thesis by (simp add: InsertRule_def)
qed

theorem insert_before_rule_overrun_witness:
  "InsertRule redirect_rule 0 (memory_of (replicate 11 redirect_rule @ replicate 278 dns_rule)) = Undef DataOverrun"
proof -
  let ?rs = "replicate 11 redirect_rule @ replicate 278 dns_rule"
  have size: "sum_list (map rule_size ?rs) = 8158" by (simp add: sample_rules_ok sum_list_replicate)
  have "holds (memory_of ?rs) ([] @ ?rs)"
    using memory_of_holds [of ?rs] size by (simp add: sample_rules_stored list_all_iff)
  from insert_before_rule_overrun [OF this _ sample_rules_ok(1)] size show ?thesis
    by (simp add: sample_rules_ok)
qed

end
