(* ===== verification/In_Packet.thy ===== *)
theory In_Packet
  imports Codec
begin

text \<open>
  \<^verbatim>\<open>include/net/packet.hpp\<close> and \<^verbatim>\<open>src/net/packet.cpp\<close>: the parser of raw Ethernet frames, with up to two
  VLAN tags, IPv4 or IPv6, and UDP. \<open>junk\<close> is what the unions of the uninitialised \<open>InPacket\<close> hold, one
  value for both of them: an IPv4 address sets only their first word. The members are returned when the code is \<open>E_NOERROR\<close>.
\<close>

abbreviation (input) ETH_P_IP :: u16 where "ETH_P_IP \<equiv> 0x0800"
abbreviation (input) ETH_P_IPV6 :: u16 where "ETH_P_IPV6 \<equiv> 0x86DD"
abbreviation (input) ETH_P_8021Q :: u16 where "ETH_P_8021Q \<equiv> 0x8100"
abbreviation (input) ETH_P_8021AD :: u16 where "ETH_P_8021AD \<equiv> 0x88A8"
abbreviation (input) IPPROTO_UDP :: byte where "IPPROTO_UDP \<equiv> 17"
abbreviation (input) VLAN_MAX_DEPTH :: nat where "VLAN_MAX_DEPTH \<equiv> 2"

record InPacket =
  EthDestination :: EthAddress
  EthSource :: EthAddress
  EthProtocol :: u16
  IsIpv4 :: bool
  IpSource :: IpAddress
  IpDestination :: IpAddress
  IpProtocol :: byte
  SourcePort :: u16
  DestinationPort :: u16

definition isVlan :: "u16 \<Rightarrow> bool" where
  "isVlan protocol \<longleftrightarrow> protocol = ETH_P_8021Q \<or> protocol = ETH_P_8021AD"

text \<open>\<open>std::copy(buf.begin() + pos, buf.begin() + pos + n, d); pos += n\<close>\<close>

definition copy_bytes :: "nat \<Rightarrow> PacketBuffer \<Rightarrow> (byte list \<times> PacketBuffer) outcome" where
  "copy_bytes n bb =
     (if bb_pos bb + n \<le> length (bb_buf bb) then Ret (take n (drop (bb_pos bb) (bb_buf bb)), adv bb n)
      else Undef BufferOverrun)"

fun read_vlan :: "nat \<Rightarrow> u16 \<Rightarrow> PacketBuffer \<Rightarrow> (u16 \<times> PacketBuffer) outcome" where
  "read_vlan 0 protocol bb = Ret (protocol, bb)"
| "read_vlan (Suc n) protocol bb =
     (if \<not> isVlan protocol then Ret (protocol, bb)
      else if bb_pos bb + 4 > bb_size bb then Fail E_FORMERR
      else obind (VREAD_U16 (adv bb 2)) (\<lambda>(protocol, bb). read_vlan n protocol bb))"

text \<open>The loops over the four words of an IPv6 address: \<open>n\<close> words from index \<open>i\<close> on.\<close>

fun read_words :: "nat \<Rightarrow> nat \<Rightarrow> IpAddress \<Rightarrow> PacketBuffer \<Rightarrow> (IpAddress \<times> PacketBuffer) outcome" where
  "read_words 0 i a bb = Ret (a, bb)"
| "read_words (Suc n) i a bb =
     obind (VREAD_U32 bb) (\<lambda>(w, bb). read_words n (i + 1) (set_ip_word a i (ntohl w)) bb)"

definition read_ipv4 ::
  "IpAddress \<Rightarrow> PacketBuffer \<Rightarrow> ((byte \<times> IpAddress \<times> IpAddress) \<times> PacketBuffer) outcome" where
  "read_ipv4 junk bb =
     (if bb_pos bb + 20 > bb_size bb then Fail E_FORMERR
      else
        obind (PEEK_BYTE bb 0) (\<lambda>b.
        let actualHeaderSize = (b AND 0xf) * 4 in
        if b AND 0xf0 \<noteq> 0x40 \<or> actualHeaderSize < 20 \<or> bb_pos bb + unat actualHeaderSize > bb_size bb
        then Fail E_FORMERR
        else
          obind (VREAD_U8 (adv bb 9)) (\<lambda>(proto, bb).
          obind (VREAD_U32 (adv bb 2)) (\<lambda>(src, bb).
          obind (VREAD_U32 bb) (\<lambda>(dst, bb).
          Ret ((proto, set_ip_word junk 0 (ntohl src), set_ip_word junk 0 (ntohl dst)),
               adv bb (unat actualHeaderSize - 20)))))))"

definition read_ipv6 ::
  "IpAddress \<Rightarrow> PacketBuffer \<Rightarrow> ((byte \<times> IpAddress \<times> IpAddress) \<times> PacketBuffer) outcome" where
  "read_ipv6 junk bb =
     (if bb_pos bb + 40 > bb_size bb then Fail E_FORMERR
      else
        obind (VREAD_U8 (adv bb 6)) (\<lambda>(proto, bb).
        obind (read_words 4 0 junk (adv bb 1)) (\<lambda>(src, bb).
        obind (read_words 4 0 junk bb) (\<lambda>(dst, bb).
        Ret ((proto, src, dst), bb)))))"

definition InPacket_Read :: "IpAddress \<Rightarrow> PacketBuffer \<Rightarrow> (InPacket \<times> PacketBuffer) outcome" where
  "InPacket_Read junk bb =
     (if bb_pos bb + 14 > bb_size bb then Fail E_FORMERR
      else
        obind (copy_bytes 6 bb) (\<lambda>(dest, bb).
        obind (copy_bytes 6 bb) (\<lambda>(src, bb).
        obind (VREAD_U16 bb) (\<lambda>(protocol, bb).
        obind (read_vlan VLAN_MAX_DEPTH protocol bb) (\<lambda>(protocol, bb).
        obind (if protocol = ETH_P_IP then read_ipv4 junk bb
               else if protocol = ETH_P_IPV6 then read_ipv6 junk bb
               else Fail E_NOTIMP) (\<lambda>((proto, ipsrc, ipdst), bb).
        if proto \<noteq> IPPROTO_UDP then Fail E_NOTIMP
        else if bb_pos bb + 8 > bb_size bb then Fail E_FORMERR
        else
          obind (VREAD_U16 bb) (\<lambda>(sport, bb).
          obind (VREAD_U16 bb) (\<lambda>(dport, bb).
          obind (VREAD_U16 bb) (\<lambda>(len, bb).
          Ret (\<lparr>EthDestination = dest, EthSource = src, EthProtocol = protocol,
                IsIpv4 = (protocol = ETH_P_IP), IpSource = ipsrc, IpDestination = ipdst,
                IpProtocol = proto, SourcePort = sport, DestinationPort = dport\<rparr>,
               (adv bb 2)\<lparr>bb_udp := unat len\<rparr>))))))))))"

section \<open>Frames\<close>

text \<open>The wire format: Ethernet II with 802.1Q tags, IPv4 with options, IPv6, UDP.\<close>

definition tag_bytes :: "(u16 \<times> u16) list \<Rightarrow> byte list" where
  "tag_bytes tags = concat (map (\<lambda>(tpid, tci). bytes16 tpid @ bytes16 tci) tags)"

definition eth_frame :: "EthAddress \<Rightarrow> EthAddress \<Rightarrow> (u16 \<times> u16) list \<Rightarrow> u16 \<Rightarrow> byte list \<Rightarrow> byte list" where
  "eth_frame dst src tags et rest = dst @ src @ tag_bytes tags @ bytes16 et @ rest"

definition ipv4_bytes ::
  "byte list \<Rightarrow> byte \<Rightarrow> byte list \<Rightarrow> byte list \<Rightarrow> byte list \<Rightarrow> byte list \<Rightarrow> byte list" where
  "ipv4_bytes mid proto ck src dst opts =
     (0x40 OR of_nat (5 + length opts div 4)) # mid @ proto # ck @ src @ dst @ opts"

definition ipv6_bytes ::
  "byte list \<Rightarrow> byte \<Rightarrow> byte \<Rightarrow> byte list \<Rightarrow> byte list \<Rightarrow> byte list" where
  "ipv6_bytes flow proto hops src dst = flow @ proto # hops # src @ dst"

definition udp_bytes :: "u16 \<Rightarrow> u16 \<Rightarrow> u16 \<Rightarrow> u16 \<Rightarrow> byte list" where
  "udp_bytes sport dport len ck = bytes16 sport @ bytes16 dport @ bytes16 len @ bytes16 ck"

section \<open>Memory safety\<close>

text \<open>
  A step that keeps to the buffer: it fails, or moves the position forward inside the packet and leaves
  the buffer's bytes and size alone. Every read is preceded by a check of at least as many bytes.
\<close>

lemma VREAD_U32_inside:
  assumes "bb_wf bb" and "bb_pos bb + 4 \<le> bb_size bb"
  shows "\<exists>w. VREAD_U32 bb = Ret (w, adv bb 4)"
  using assms by (auto simp: VREAD_U32_def VALIDATE_def READ_U32_def PEEK_BYTE_def bb_wf_def)

lemma VREAD_U16_inside:
  assumes "bb_wf bb" and "bb_pos bb + 2 \<le> bb_size bb"
  shows "\<exists>w. VREAD_U16 bb = Ret (w, adv bb 2)"
  using assms by (auto simp: VREAD_U16_def VALIDATE_def READ_U16_def PEEK_BYTE_def bb_wf_def)

lemma VREAD_U8_inside:
  assumes "bb_wf bb" and "bb_pos bb + 1 \<le> bb_size bb"
  shows "\<exists>w. VREAD_U8 bb = Ret (w, adv bb 1)"
  using assms by (auto simp: VREAD_U8_def VALIDATE_def READ_BYTE_def PEEK_BYTE_def bb_wf_def)

lemma read_words_inside:
  "bb_wf bb \<Longrightarrow> bb_pos bb + 4 * n \<le> bb_size bb \<Longrightarrow> \<exists>b. read_words n i a bb = Ret (b, adv bb (4 * n))"
proof (induction n arbitrary: i a bb)
  case 0
  then show ?case by simp
next
  case (Suc n)
  from VREAD_U32_inside [of bb] Suc.prems obtain w where "VREAD_U32 bb = Ret (w, adv bb 4)" by auto
  with Suc.IH [of "adv bb 4" "i + 1" "set_ip_word a i (ntohl w)"] Suc.prems show ?case
    by (simp add: add.assoc)
qed

definition stays :: "('a \<times> PacketBuffer) outcome \<Rightarrow> PacketBuffer \<Rightarrow> bool" where
  "stays m bb \<longleftrightarrow> (\<exists>c. m = Fail c) \<or>
     (\<exists>x p n. m = Ret (x, bb\<lparr>bb_pos := p, bb_udp := n\<rparr>) \<and> p \<le> bb_size bb)"

lemma stays_Fail [simp]: "stays (Fail c) bb"
  by (simp add: stays_def)

lemma stays_Ret: "bb' = bb\<lparr>bb_pos := p, bb_udp := n\<rparr> \<Longrightarrow> p \<le> bb_size bb \<Longrightarrow> stays (Ret (x, bb')) bb"
  by (auto simp: stays_def)

lemma stays_pos [simp]: "stays m (bb\<lparr>bb_pos := p\<rparr>) = stays m bb" "stays m (bb\<lparr>bb_udp := n\<rparr>) = stays m bb"
  by (simp_all add: stays_def)

lemma bb_wf_udp [simp]: "bb_wf (bb\<lparr>bb_udp := n\<rparr>) = bb_wf bb"
  by (simp add: bb_wf_def)

lemma stays_bind:
  assumes "stays m bb" and "bb_wf bb"
    and "\<And>x bb'. bb_wf bb' \<Longrightarrow> bb_pos bb' \<le> bb_size bb' \<Longrightarrow> stays (f x bb') bb'"
  shows "stays (obind m (\<lambda>(x, bb). f x bb)) bb"
  using assms(1)
proof (unfold stays_def [of m], elim disjE exE conjE)
  fix x p n
  assume "m = Ret (x, bb\<lparr>bb_pos := p, bb_udp := n\<rparr>)" "p \<le> bb_size bb"
  with assms(2) assms(3) [of "bb\<lparr>bb_pos := p, bb_udp := n\<rparr>" x] show ?thesis by simp
qed auto

lemma stays_VREAD:
  assumes "bb_wf bb"
  shows "stays (VREAD_U16 bb) bb" and "stays (VREAD_U8 bb) bb"
proof -
  show "stays (VREAD_U16 bb) bb"
    using VREAD_defined(2) [OF assms]
    by (cases "VREAD_U16 bb")
      (auto dest!: VREAD_U16_RetD intro!: stays_Ret [where p = "bb_pos bb + 2" and n = "bb_udp bb"])
  show "stays (VREAD_U8 bb) bb"
    using VREAD_defined(1) [OF assms]
    by (cases "VREAD_U8 bb")
      (auto dest!: VREAD_U8_RetD intro!: stays_Ret [where p = "bb_pos bb + 1" and n = "bb_udp bb"])
qed

lemma stays_read_vlan: "bb_wf bb \<Longrightarrow> bb_pos bb \<le> bb_size bb \<Longrightarrow> stays (read_vlan n protocol bb) bb"
proof (induction n arbitrary: protocol bb)
  case 0
  then show ?case by (auto intro: stays_Ret [where p = "bb_pos bb" and n = "bb_udp bb"])
next
  case (Suc n)
  have "stays (obind (VREAD_U16 (adv bb 2)) (\<lambda>(protocol, bb). read_vlan n protocol bb)) (adv bb 2)"
    using Suc by (intro stays_bind stays_VREAD) simp_all
  with Suc.prems show ?case by (auto intro: stays_Ret [where p = "bb_pos bb" and n = "bb_udp bb"])
qed

lemma stays_read_ipv4:
  assumes "bb_wf bb"
  shows "stays (read_ipv4 junk bb) bb"
proof (cases "bb_pos bb + 20 \<le> bb_size bb")
  case True
  let ?b = "bb_buf bb ! bb_pos bb" and ?p = "bb_pos bb"
  from True assms have peek: "PEEK_BYTE bb 0 = Ret ?b" by (simp add: PEEK_BYTE_def bb_wf_def)
  from VREAD_U8_inside [of "adv bb 9"] VREAD_U32_inside [of "adv bb 12"] VREAD_U32_inside [of "adv bb 16"] True assms
  obtain x y z where "VREAD_U8 (adv bb 9) = Ret (x, adv bb 10)" "VREAD_U32 (adv bb 12) = Ret (y, adv bb 16)"
    "VREAD_U32 (adv bb 16) = Ret (z, adv bb 20)" by (auto simp: ac_simps)
  with True peek show ?thesis
    by (auto simp: read_ipv4_def Let_def ac_simps
        intro!: stays_Ret [where p = "?p + 20 + (unat ((?b AND 15) * 4) - 20)" and n = "bb_udp bb"])
qed (simp add: read_ipv4_def)

lemma stays_read_ipv6:
  assumes "bb_wf bb"
  shows "stays (read_ipv6 junk bb) bb"
proof (cases "bb_pos bb + 40 \<le> bb_size bb")
  case True
  from VREAD_U8_inside [of "adv bb 6"] True assms obtain x where
    "VREAD_U8 (adv bb 6) = Ret (x, adv bb 7)" by (auto simp: ac_simps)
  moreover from read_words_inside [of "adv bb 8" 4 0 junk] True assms obtain s where
    "read_words 4 0 junk (adv bb 8) = Ret (s, adv bb 24)" by (auto simp: ac_simps)
  moreover from read_words_inside [of "adv bb 24" 4 0 junk] True assms obtain d where
    "read_words 4 0 junk (adv bb 24) = Ret (d, adv bb 40)" by (auto simp: ac_simps)
  ultimately show ?thesis
    using True by (auto simp: read_ipv6_def ac_simps
        intro!: stays_Ret [where p = "bb_pos bb + 40" and n = "bb_udp bb"])
qed (simp add: read_ipv6_def)

lemma stays_udp:
  assumes "bb_wf bb" and "bb_pos bb + 8 \<le> bb_size bb"
  shows "stays (obind (VREAD_U16 bb) (\<lambda>(sport, bb). obind (VREAD_U16 bb) (\<lambda>(dport, bb).
     obind (VREAD_U16 bb) (\<lambda>(len, bb). Ret (f sport dport len, (adv bb 2)\<lparr>bb_udp := unat len\<rparr>))))) bb"
proof -
  from VREAD_U16_inside [of bb] VREAD_U16_inside [of "adv bb 2"] VREAD_U16_inside [of "adv bb 4"] assms
  obtain u v w where "VREAD_U16 bb = Ret (u, adv bb 2)" "VREAD_U16 (adv bb 2) = Ret (v, adv bb 4)"
    "VREAD_U16 (adv bb 4) = Ret (w, adv bb 6)" by (auto simp: ac_simps)
  with assms show ?thesis
    by (auto simp: ac_simps intro!: stays_Ret [where p = "bb_pos bb + 8" and n = "unat w"])
qed

lemma stays_InPacket_Read:
  assumes "bb_wf bb"
  shows "stays (InPacket_Read junk bb) bb"
proof (cases "bb_pos bb + 14 \<le> bb_size bb")
  case True
  let ?d = "take 6 (drop (bb_pos bb) (bb_buf bb))" and ?s = "take 6 (drop (bb_pos bb + 6) (bb_buf bb))"
  from True assms have c: "copy_bytes 6 bb = Ret (?d, adv bb 6)" "copy_bytes 6 (adv bb 6) = Ret (?s, adv bb 12)"
    by (auto simp: copy_bytes_def bb_wf_def ac_simps)
  let ?tail = "\<lambda>protocol bb. obind (if protocol = ETH_P_IP then read_ipv4 junk bb
      else if protocol = ETH_P_IPV6 then read_ipv6 junk bb else Fail E_NOTIMP) (\<lambda>((proto, ipsrc, ipdst), bb).
      if proto \<noteq> IPPROTO_UDP then Fail E_NOTIMP
      else if bb_pos bb + 8 > bb_size bb then Fail E_FORMERR
      else obind (VREAD_U16 bb) (\<lambda>(sport, bb). obind (VREAD_U16 bb) (\<lambda>(dport, bb). obind (VREAD_U16 bb) (\<lambda>(len, bb).
          Ret (\<lparr>EthDestination = ?d, EthSource = ?s, EthProtocol = protocol,
                IsIpv4 = (protocol = ETH_P_IP), IpSource = ipsrc, IpDestination = ipdst,
                IpProtocol = proto, SourcePort = sport, DestinationPort = dport\<rparr>,
               (adv bb 2)\<lparr>bb_udp := unat len\<rparr>)))))"
  have tail: "bb_wf bb' \<Longrightarrow> stays (?tail protocol bb') bb'" for protocol bb'
    by (intro stays_bind) (auto simp: stays_read_ipv4 stays_read_ipv6 split: prod.splits intro!: stays_udp [simplified])
  have "stays (obind (VREAD_U16 (adv bb 12)) (\<lambda>(protocol, bb).
      obind (read_vlan VLAN_MAX_DEPTH protocol bb) (\<lambda>(protocol, bb). ?tail protocol bb))) (adv bb 12)"
    using assms by (intro stays_bind stays_VREAD stays_read_vlan tail) simp_all
  with True show ?thesis by (simp add: InPacket_Read_def c)
qed (simp add: InPacket_Read_def)

section \<open>Parsing well-formed frames\<close>

lemma copy_bytes_ahead:
  "ahead bb (xs @ rest) \<Longrightarrow> length xs = n \<Longrightarrow> copy_bytes n bb = Ret (xs, adv bb n)"
  by (auto simp: copy_bytes_def ahead_append) (auto simp: ahead_def bb_wf_def)

lemma ahead_skip: "ahead bb (xs @ ys) \<Longrightarrow> length xs = n \<Longrightarrow> ahead (adv bb n) ys"
  by (auto simp: ahead_append)

lemma read_vlan_ahead:
  assumes "ahead bb (tag_bytes tags @ bytes16 et @ rest)" and "length tags \<le> n"
    and "list_all (\<lambda>(tpid, tci). isVlan tpid) tags" and "\<not> isVlan et"
  shows "obind (VREAD_U16 bb) (\<lambda>(p, bb). read_vlan n p bb) = Ret (et, adv bb (4 * length tags + 2))"
  using assms
proof (induction tags arbitrary: bb n)
  case Nil
  then have "VREAD_U16 bb = Ret (et, adv bb 2)" by (intro VREAD_U16_ahead) (simp add: tag_bytes_def)
  with Nil show ?case by (cases n) simp_all
next
  case (Cons t tags)
  obtain tpid tci where t: "t = (tpid, tci)" by fastforce
  from Cons.prems(2) obtain k where n: "n = Suc k" by (cases n) auto
  from Cons.prems(1) t have a: "ahead bb (bytes16 tpid @ bytes16 tci @ tag_bytes tags @ bytes16 et @ rest)"
    by (simp add: tag_bytes_def)
  note b = ahead_step(2) [OF a]
  have c: "ahead (adv bb 4) (tag_bytes tags @ bytes16 et @ rest)"
    using ahead_skip [of bb "bytes16 tpid @ bytes16 tci" _ 4] a by simp
  from b have room: "bb_pos bb + 6 \<le> bb_size bb" using c by (simp add: ahead_def)
  from Cons.IH [OF c, of k] Cons.prems n have "obind (VREAD_U16 (adv bb 4)) (\<lambda>(p, bb). read_vlan k p bb) =
      Ret (et, adv bb (4 + (4 * length tags + 2)))" by (simp add: add.assoc)
  with VREAD_U16_ahead [OF a] Cons.prems(3) t n room show ?case
    by (simp add: ac_simps del: add_2_eq_Suc add_2_eq_Suc')
qed

lemma load_address:
  assumes "length a = 4"
  obtains w where "a = bytes32 w" and "set_ip_word junk 0 (ntohl w) = a @ drop 4 junk"
proof -
  from assms obtain p q r s where a: "a = [p, q, r, s]"
    by (auto simp: eval_nat_numeral length_Suc_conv)
  have w: "bytes32 (be32 p q r s) = a" by (simp add: a bytes32_be32)
  have "set_ip_word junk 0 (ntohl (be32 p q r s)) = a @ drop 4 junk"
    by (simp add: set_ip_word_def ntohl_be32 bytes32_be32 a)
  with w that show thesis by metis
qed

lemma ihl_byte:
  assumes "k \<le> 10"
  shows "(0x40 OR of_nat (5 + k) :: byte) AND 0xf0 = 0x40" and "\<not> ((0x40 OR of_nat (5 + k) :: byte) AND 0xf) * 4 < 20"
    and "unat (((0x40 OR of_nat (5 + k) :: byte) AND 0xf) * 4) = 20 + 4 * k"
proof -
  from assms have "k = 0 \<or> k = 1 \<or> k = 2 \<or> k = 3 \<or> k = 4 \<or> k = 5 \<or> k = 6 \<or> k = 7 \<or> k = 8 \<or> k = 9 \<or> k = 10"
    by presburger
  then show "(0x40 OR of_nat (5 + k) :: byte) AND 0xf0 = 0x40"
    "\<not> ((0x40 OR of_nat (5 + k) :: byte) AND 0xf) * 4 < 20"
    "unat (((0x40 OR of_nat (5 + k) :: byte) AND 0xf) * 4) = 20 + 4 * k"
    by (elim disjE; simp)+
qed

lemma read_ipv4_ahead:
  assumes "ahead bb (ipv4_bytes mid proto ck src dst opts @ rest)" and "length mid = 8" and "length ck = 2"
    and "length src = 4" and "length dst = 4" and "length opts = 4 * k" and "k \<le> 10"
  shows "read_ipv4 junk bb = Ret ((proto, src @ drop 4 junk, dst @ drop 4 junk), adv bb (20 + length opts))"
proof -
  let ?b = "0x40 OR of_nat (5 + k) :: byte"
  from load_address [OF assms(4), of junk] obtain v where v: "src = bytes32 v"
    "set_ip_word junk 0 (ntohl v) = src @ drop 4 junk" by blast
  from load_address [OF assms(5), of junk] obtain w where w: "dst = bytes32 w"
    "set_ip_word junk 0 (ntohl w) = dst @ drop 4 junk" by blast
  have 0: "ahead bb ((?b # mid) @ proto # ck @ bytes32 v @ bytes32 w @ opts @ rest)"
    using assms by (simp add: ipv4_bytes_def v(1) w(1))
  have 1: "ahead (adv bb 9) (proto # ck @ bytes32 v @ bytes32 w @ opts @ rest)"
    by (rule ahead_skip [OF 0]) (simp add: assms)
  have 2: "ahead (adv bb 12) (bytes32 v @ bytes32 w @ opts @ rest)"
    using ahead_skip [of "adv bb 9" "proto # ck" _ 3] 1 assms(3) by (simp add: ac_simps)
  have 3: "ahead (adv bb 16) (bytes32 w @ opts @ rest)"
    using ahead_skip [OF 2, of 4] by (simp add: ac_simps)
  have 4: "ahead (adv bb 20) (opts @ rest)"
    using ahead_skip [OF 3, of 4] by (simp add: ac_simps)
  then have room: "bb_pos bb + 20 + length opts \<le> bb_size bb" by (simp add: ahead_def)
  have peek: "PEEK_BYTE bb 0 = Ret ?b" using PEEK_BYTE_ahead [OF 0, of 0] by simp
  have r1: "VREAD_U8 (adv bb 9) = Ret (proto, adv bb 10)" using VREAD_U8_ahead [OF 1] by (simp add: ac_simps)
  have r2: "VREAD_U32 (adv bb 12) = Ret (v, adv bb 16)" using VREAD_U32_ahead [OF 2] by (simp add: ac_simps)
  have r3: "VREAD_U32 (adv bb 16) = Ret (w, adv bb 20)" using VREAD_U32_ahead [OF 3] by (simp add: ac_simps)
  show ?thesis
    using room ihl_byte [OF assms(7)] assms(6)
    by (simp add: read_ipv4_def peek Let_def r1 r2 r3 v(2) w(2) ac_simps)
qed

lemma set_ip_words:
  assumes "length a = 16"
  obtains v0 v1 v2 v3 where "a = bytes32 v0 @ bytes32 v1 @ bytes32 v2 @ bytes32 v3"
    and "\<And>junk. ip_ok junk \<Longrightarrow> set_ip_word (set_ip_word (set_ip_word (set_ip_word junk 0 (ntohl v0)) 1 (ntohl v1)) 2 (ntohl v2)) 3 (ntohl v3) = a"
proof -
  have rev_word: "\<exists>v. b = bytes32 v \<and> rev (bytes32 (ntohl v)) = b" if "length b = 4" for b
    using load_address [OF that, of "[]"] by (simp add: set_ip_word_def) blast
  have "length (take 4 a) = 4" "length (take 4 (drop 4 a)) = 4" "length (take 4 (drop 8 a)) = 4" "length (drop 12 a) = 4"
    using assms by simp_all
  from this [THEN rev_word] obtain v0 v1 v2 v3 where
    v: "take 4 a = bytes32 v0" "take 4 (drop 4 a) = bytes32 v1" "take 4 (drop 8 a) = bytes32 v2" "drop 12 a = bytes32 v3"
    and rv: "rev (bytes32 (ntohl v0)) = bytes32 v0" "rev (bytes32 (ntohl v1)) = bytes32 v1"
      "rev (bytes32 (ntohl v2)) = bytes32 v2" "rev (bytes32 (ntohl v3)) = bytes32 v3" by metis
  have a: "a = bytes32 v0 @ bytes32 v1 @ bytes32 v2 @ bytes32 v3"
    using append_take_drop_id [of 4 a] append_take_drop_id [of 4 "drop 4 a"] append_take_drop_id [of 4 "drop 8 a"] v
    by simp
  show thesis
    by (rule that [OF a]) (simp add: set_ip_word_def rv a ip_ok_def)
qed

lemma read_words_ahead:
  assumes "ahead bb (a @ rest)" and "length a = 16" and "ip_ok junk"
  shows "read_words 4 0 junk bb = Ret (a, adv bb 16)"
proof -
  obtain v0 v1 v2 v3 where a: "a = bytes32 v0 @ bytes32 v1 @ bytes32 v2 @ bytes32 v3"
    and set: "\<And>junk. ip_ok junk \<Longrightarrow> set_ip_word (set_ip_word (set_ip_word (set_ip_word junk 0 (ntohl v0)) 1 (ntohl v1)) 2 (ntohl v2)) 3 (ntohl v3) = a"
    using set_ip_words [OF assms(2)] by metis
  from assms(1) have 0: "ahead bb (bytes32 v0 @ bytes32 v1 @ bytes32 v2 @ bytes32 v3 @ rest)" by (simp add: a)
  note 1 = ahead_step(3) [OF 0]
  note 2 = ahead_step(3) [OF 1]
  note 3 = ahead_step(3) [OF 2]
  have "read_words (Suc (Suc (Suc (Suc 0)))) 0 junk bb = Ret (a, adv bb 16)"
    using VREAD_U32_ahead [OF 0] VREAD_U32_ahead [OF 1] VREAD_U32_ahead [OF 2] VREAD_U32_ahead [OF 3]
      set [OF assms(3)] by (simp add: numeral_2_eq_2 numeral_3_eq_3)
  then show ?thesis by (simp add: numeral_eq_Suc)
qed

lemma read_ipv6_ahead:
  assumes "ahead bb (ipv6_bytes flow proto hops src dst @ rest)" and "length flow = 6"
    and "length src = 16" and "length dst = 16" and "ip_ok junk"
  shows "read_ipv6 junk bb = Ret ((proto, src, dst), adv bb 40)"
proof -
  have 0: "ahead bb (flow @ proto # hops # src @ dst @ rest)" using assms(1) by (simp add: ipv6_bytes_def)
  note 1 = ahead_skip [OF 0 assms(2)]
  have 2: "ahead (adv bb 8) (src @ dst @ rest)"
    using ahead_skip [of "adv bb 6" "[proto, hops]" _ 2] 1 by (simp add: ac_simps del: add_2_eq_Suc add_2_eq_Suc')
  have 3: "ahead (adv bb 24) (dst @ rest)"
    using ahead_skip [OF 2 assms(3)] by (simp add: ac_simps)
  have "ahead (adv bb 40) rest" using ahead_skip [OF 3 assms(4)] by (simp add: ac_simps)
  then have room: "bb_pos bb + 40 \<le> bb_size bb" by (simp add: ahead_def)
  show ?thesis
    using VREAD_U8_ahead [OF 1] read_words_ahead [OF 2 assms(3,5)] read_words_ahead [OF 3 assms(4,5)] room
    by (simp add: read_ipv6_def ac_simps)
qed

text \<open>The parser on a frame whose network header it reads with the result \<open>ip\<close>.\<close>

lemma InPacket_Read_ahead:
  assumes frame: "ahead bb (eth_frame dst src tags et (net @ udp_bytes sport dport len ck @ payload))"
    and "length dst = 6" and "length src = 6" and "length tags \<le> VLAN_MAX_DEPTH"
    and "list_all (\<lambda>(tpid, tci). isVlan tpid) tags" and "\<not> isVlan et"
    and ip: "\<And>bb. ahead bb (net @ udp_bytes sport dport len ck @ payload) \<Longrightarrow>
      (if et = ETH_P_IP then read_ipv4 junk bb else if et = ETH_P_IPV6 then read_ipv6 junk bb else Fail E_NOTIMP) =
      Ret ((IPPROTO_UDP, ipsrc, ipdst), adv bb (length net))"
  shows "InPacket_Read junk bb = Ret (\<lparr>EthDestination = dst, EthSource = src, EthProtocol = et,
       IsIpv4 = (et = ETH_P_IP), IpSource = ipsrc, IpDestination = ipdst, IpProtocol = IPPROTO_UDP,
       SourcePort = sport, DestinationPort = dport\<rparr>,
     (adv bb (14 + 4 * length tags + length net + 8))\<lparr>bb_udp := unat len\<rparr>)"
proof -
  let ?u = "udp_bytes sport dport len ck @ payload"
  have 0: "ahead bb (dst @ src @ tag_bytes tags @ bytes16 et @ net @ ?u)" using frame by (simp add: eth_frame_def)
  note 1 = ahead_skip [OF 0 assms(2)]
  have 2: "ahead (adv bb 12) (tag_bytes tags @ bytes16 et @ net @ ?u)"
    using ahead_skip [OF 1 assms(3)] by (simp add: ac_simps)
  let ?n = "14 + 4 * length tags"
  have tagl: "length (tag_bytes tags) = 4 * length tags" by (induction tags) (auto simp: tag_bytes_def)
  have 3: "ahead (adv bb ?n) (net @ ?u)"
    using ahead_skip [of "adv bb 12" "tag_bytes tags @ bytes16 et" "net @ ?u" "4 * length tags + 2"] 2
    by (simp add: tagl ac_simps)
  have 4: "ahead (adv bb (?n + length net)) (bytes16 sport @ bytes16 dport @ bytes16 len @ bytes16 ck @ payload)"
    using ahead_skip [OF 3 refl] by (simp add: udp_bytes_def ac_simps)
  note 5 = ahead_step(2) [OF 4]
  note 6 = ahead_step(2) [OF 5]
  note 7 = ahead_step(2) [OF 6]
  from 4 have room: "bb_pos bb + (?n + length net) + 8 \<le> bb_size bb" by (simp add: ahead_def)
  have vlan: "obind (VREAD_U16 (adv bb 12)) (\<lambda>(p, bb). read_vlan VLAN_MAX_DEPTH p bb) = Ret (et, adv bb ?n)"
    using read_vlan_ahead [OF 2 assms(4-6)] by (simp add: ac_simps)
  then obtain p b1 where p: "VREAD_U16 (adv bb 12) = Ret (p, b1)" "read_vlan VLAN_MAX_DEPTH p b1 = Ret (et, adv bb ?n)"
    by (auto simp: outcome_simps)
  let ?k = "?n + length net"
  have net: "(if et = ETH_P_IP then read_ipv4 junk (adv bb ?n)
      else if et = ETH_P_IPV6 then read_ipv6 junk (adv bb ?n) else Fail E_NOTIMP) =
      Ret ((IPPROTO_UDP, ipsrc, ipdst), adv bb ?k)"
    unfolding ip [OF 3] by (simp add: add.assoc)
  have u: "VREAD_U16 (adv bb ?k) = Ret (sport, adv bb (?k + 2))"
    "VREAD_U16 (adv bb (?k + 2)) = Ret (dport, adv bb (?k + 4))"
    "VREAD_U16 (adv bb (?k + 4)) = Ret (len, adv bb (?k + 6))"
    using VREAD_U16_ahead [OF 4] VREAD_U16_ahead [OF 5] VREAD_U16_ahead [OF 6] by (simp_all add: ac_simps)
  have c: "copy_bytes 6 bb = Ret (dst, adv bb 6)" "copy_bytes 6 (adv bb 6) = Ret (src, adv bb 12)"
    using copy_bytes_ahead [OF 0 assms(2)] copy_bytes_ahead [OF 1 assms(3)] by (simp_all add: ac_simps)
  have "\<not> bb_size bb < bb_pos bb + 14" "\<not> bb_size (adv bb ?k) < bb_pos (adv bb ?k) + 8" using room by simp_all
  then show ?thesis
    by (simp only: InPacket_Read_def c p net u obind.simps prod.case if_False simp_thms) (simp add: add.assoc)
qed

lemma InPacket_Read_ipv4:
  assumes "ahead bb (eth_frame dst src tags ETH_P_IP
      (ipv4_bytes mid IPPROTO_UDP ck ipsrc ipdst opts @ udp_bytes sport dport len uck @ payload))"
    and "length dst = 6" and "length src = 6" and "length tags \<le> VLAN_MAX_DEPTH"
    and "list_all (\<lambda>(tpid, tci). isVlan tpid) tags"
    and "length mid = 8" and "length ck = 2" and "length ipsrc = 4" and "length ipdst = 4"
    and "length opts = 4 * k" and "k \<le> 10"
  shows "InPacket_Read junk bb = Ret (\<lparr>EthDestination = dst, EthSource = src, EthProtocol = ETH_P_IP,
       IsIpv4 = True, IpSource = ipsrc @ drop 4 junk, IpDestination = ipdst @ drop 4 junk,
       IpProtocol = IPPROTO_UDP, SourcePort = sport, DestinationPort = dport\<rparr>,
     (adv bb (14 + 4 * length tags + (20 + length opts) + 8))\<lparr>bb_udp := unat len\<rparr>)"
proof -
  have len: "length (ipv4_bytes mid IPPROTO_UDP ck ipsrc ipdst opts) = 20 + length opts"
    using assms by (simp add: ipv4_bytes_def)
  show ?thesis
    using InPacket_Read_ahead [OF assms(1-5), of junk "ipsrc @ drop 4 junk" "ipdst @ drop 4 junk"]
      read_ipv4_ahead [OF _ assms(6-11)] len by (simp add: isVlan_def)
qed

section \<open>A sample frame\<close>

text \<open>A DNS query over UDP in IPv4, with one VLAN tag.\<close>

definition sample_payload :: "byte list" where
  "sample_payload = [0, 7, 1, 0, 0, 1, 0, 0, 0, 0, 0, 0, 1, 98, 0, 0, 1, 0, 1]"

definition sample_frame :: "byte list" where
  "sample_frame = eth_frame [9, 9, 9, 9, 9, 9] [1, 2, 3, 4, 5, 6] [(0x8100, 5)] ETH_P_IP
     (ipv4_bytes (replicate 8 0) IPPROTO_UDP [0, 0] [10, 0, 0, 2] [10, 0, 0, 1] [] @
      udp_bytes 4000 53 27 0 @ sample_payload)"

definition raw_buffer :: "byte list \<Rightarrow> PacketBuffer" where
  "raw_buffer bs = \<lparr>bb_buf = bs, bb_pos = 0, bb_size = length bs, bb_udp = 0\<rparr>"

lemma raw_buffer_ahead: "ahead (raw_buffer bs) bs"
  by (simp add: ahead_def bb_wf_def raw_buffer_def)

section \<open>Properties\<close>

text \<open>
  C15: memory safety of the frame parser. On any buffer whose packet fits in its array, whatever the
  bytes, \<open>InPacket::Read\<close> stays inside the packet: it returns an error code, or succeeds with the
  position inside the packet and the bytes and the size untouched.
\<close>

theorem raw_parser_memory_safe:
  assumes "bb_wf bb"
  shows "(\<exists>c. InPacket_Read junk bb = Fail c) \<or>
     (\<exists>x p n. InPacket_Read junk bb = Ret (x, bb\<lparr>bb_pos := p, bb_udp := n\<rparr>) \<and> p \<le> bb_size bb)"
  using stays_InPacket_Read [OF assms] by (simp add: stays_def)

theorem raw_parser_memory_safe_witness:
  "(\<exists>c. InPacket_Read [] (raw_buffer [1, 2, 3]) = Fail c) \<or>
     (\<exists>x p n. InPacket_Read [] (raw_buffer [1, 2, 3]) = Ret (x, (raw_buffer [1, 2, 3])\<lparr>bb_pos := p, bb_udp := n\<rparr>) \<and>
        p \<le> bb_size (raw_buffer [1, 2, 3]))"
  by (rule raw_parser_memory_safe) (simp add: bb_wf_def raw_buffer_def)

text \<open>
  C23: an IPv4 frame. Of an Ethernet frame with at most two VLAN tags that carries UDP in IPv4, with up to
  forty bytes of options, the parser extracts the hardware addresses, the IP addresses in network byte
  order and the ports, and leaves the position at the payload.
\<close>

theorem ipv4_frame_parsed:
  assumes "ahead bb (eth_frame dst src tags ETH_P_IP
      (ipv4_bytes mid IPPROTO_UDP ck ipsrc ipdst opts @ udp_bytes sport dport len uck @ payload))"
    and "length dst = 6" and "length src = 6" and "length tags \<le> VLAN_MAX_DEPTH"
    and "list_all (\<lambda>(tpid, tci). isVlan tpid) tags"
    and "length mid = 8" and "length ck = 2" and "length ipsrc = 4" and "length ipdst = 4"
    and "length opts = 4 * k" and "k \<le> 10"
  shows "InPacket_Read junk bb = Ret (\<lparr>EthDestination = dst, EthSource = src, EthProtocol = ETH_P_IP,
       IsIpv4 = True, IpSource = ipsrc @ drop 4 junk, IpDestination = ipdst @ drop 4 junk,
       IpProtocol = IPPROTO_UDP, SourcePort = sport, DestinationPort = dport\<rparr>,
     (adv bb (14 + 4 * length tags + (20 + length opts) + 8))\<lparr>bb_udp := unat len\<rparr>)"
  by (rule InPacket_Read_ipv4 [OF assms])

theorem ipv4_frame_parsed_witness:
  "\<exists>x bb. InPacket_Read (replicate 16 0) (raw_buffer sample_frame) = Ret (x, bb) \<and>
     EthSource x = [1, 2, 3, 4, 5, 6] \<and> IpSource x = [10, 0, 0, 2] @ replicate 12 0 \<and> DestinationPort x = 53 \<and>
     bb_pos bb = 46"
  using ipv4_frame_parsed [of "raw_buffer sample_frame" "[9, 9, 9, 9, 9, 9]" "[1, 2, 3, 4, 5, 6]" "[(0x8100, 5)]"
      "replicate 8 0" "[0, 0]" "[10, 0, 0, 2]" "[10, 0, 0, 1]" "[]" 4000 53 27 0 sample_payload 0 "replicate 16 0"]
    raw_buffer_ahead [of sample_frame]
  by (simp add: sample_frame_def isVlan_def) (simp add: raw_buffer_def)

text \<open>
  C24: the same for UDP directly in IPv6, with all sixteen bytes of the addresses in network byte order.
\<close>

theorem ipv6_frame_parsed:
  assumes "ahead bb (eth_frame dst src tags ETH_P_IPV6
      (ipv6_bytes flow IPPROTO_UDP hops ipsrc ipdst @ udp_bytes sport dport len uck @ payload))"
    and "length dst = 6" and "length src = 6" and "length tags \<le> VLAN_MAX_DEPTH"
    and "list_all (\<lambda>(tpid, tci). isVlan tpid) tags"
    and "length flow = 6" and "length ipsrc = 16" and "length ipdst = 16" and "ip_ok junk"
  shows "InPacket_Read junk bb = Ret (\<lparr>EthDestination = dst, EthSource = src, EthProtocol = ETH_P_IPV6,
       IsIpv4 = False, IpSource = ipsrc, IpDestination = ipdst,
       IpProtocol = IPPROTO_UDP, SourcePort = sport, DestinationPort = dport\<rparr>,
     (adv bb (14 + 4 * length tags + 40 + 8))\<lparr>bb_udp := unat len\<rparr>)"
proof -
  have len: "length (ipv6_bytes flow IPPROTO_UDP hops ipsrc ipdst) = 40"
    using assms by (simp add: ipv6_bytes_def)
  show ?thesis
    using InPacket_Read_ahead [OF assms(1-5), of junk ipsrc ipdst]
      read_ipv6_ahead [OF _ assms(6-9)] len by (simp add: isVlan_def)
qed

theorem ipv6_frame_parsed_witness:
  "\<exists>x bb. InPacket_Read (replicate 16 0) (raw_buffer (eth_frame [9, 9, 9, 9, 9, 9] [1, 2, 3, 4, 5, 6] [] ETH_P_IPV6
      (ipv6_bytes (replicate 6 0) IPPROTO_UDP 64 (replicate 16 1) (replicate 16 2) @
       udp_bytes 4000 53 27 0 @ sample_payload))) = Ret (x, bb) \<and> IpSource x = replicate 16 1"
  using ipv6_frame_parsed [OF raw_buffer_ahead, of "[9, 9, 9, 9, 9, 9]" "[1, 2, 3, 4, 5, 6]" "[]" "replicate 6 0"
      "replicate 16 1" "replicate 16 2" "replicate 16 0" 64 4000 53 27 0 sample_payload]
  by (simp add: ip_ok_def)

end
