(* ===== verification/Text_Address.thy ===== *)
theory Text_Address
  imports Net_Common
begin

text \<open>
  \<^verbatim>\<open>include/util.hpp\<close>, \<^verbatim>\<open>src/util.cpp\<close> and the address functions of \<^verbatim>\<open>src/unix/unixutil.cpp\<close>: addresses as
  text. A \<open>std::string\<close> is a list of characters. \<open>std::regex_match\<close> is modelled for the constructs that
  the expressions of the file use, \<open>std::getline\<close> with a delimiter and \<open>std::stoi\<close> in base 16 for the
  calls of \<open>ToEthAddress\<close>. \<open>inet_pton\<close> and \<open>inet_ntop\<close> are parameters.
\<close>

section \<open>Results with exceptions\<close>

text \<open>
  The exceptions of the program: the standard ones, \<open>validation_error\<close> of the options library with its kind,
  its option and its value, and the ones that the libraries throw.
\<close>

datatype kind_t = at_least_one_value_required | invalid_option_value

datatype exn = invalid_argument string | out_of_range | validation_error kind_t string string | library_error string
  | RegistryError string int

datatype 'a attempt = Done 'a | Throw exn | Undefined ub

primrec abind :: "'a attempt \<Rightarrow> ('a \<Rightarrow> 'b attempt) \<Rightarrow> 'b attempt" where
  "abind (Done x) f = f x"
| "abind (Throw x) f = Throw x"
| "abind (Undefined u) f = Undefined u"

lemma abind_Done_iff: "abind m f = Done y \<longleftrightarrow> (\<exists>x. m = Done x \<and> f x = Done y)"
  by (cases m) auto

lemma abind_Throw_iff: "abind m f = Throw e \<longleftrightarrow> m = Throw e \<or> (\<exists>x. m = Done x \<and> f x = Throw e)"
  by (cases m) auto

section \<open>Regular expressions\<close>

datatype regex = Eps | Cls "char list" | Dot | Seq regex regex | Alt regex regex

text \<open>\<open>.\<close> matches everything but a line terminator.\<close>

definition line_end :: "char \<Rightarrow> bool" where
  "line_end c \<longleftrightarrow> c = CHR 0x0A \<or> c = CHR 0x0D"

text \<open>The rests of the text after the prefixes that the expression matches.\<close>

fun rests :: "regex \<Rightarrow> string \<Rightarrow> string list" where
  "rests Eps s = [s]"
| "rests (Cls cs) s = (case s of [] \<Rightarrow> [] | c # t \<Rightarrow> if c \<in> set cs then [t] else [])"
| "rests Dot s = (case s of [] \<Rightarrow> [] | c # t \<Rightarrow> if line_end c then [] else [t])"
| "rests (Seq a b) s = concat (map (rests b) (rests a s))"
| "rests (Alt a b) s = rests a s @ rests b s"

definition regex_match :: "string \<Rightarrow> regex \<Rightarrow> bool" where
  "regex_match s r \<longleftrightarrow> [] \<in> set (rests r s)"

fun Times :: "nat \<Rightarrow> regex \<Rightarrow> regex" where
  "Times 0 r = Eps"
| "Times (Suc n) r = Seq r (Times n r)"

definition Maybe :: "regex \<Rightarrow> regex" where
  "Maybe r = Alt r Eps"

definition HEX :: regex where
  "HEX = Cls ''0123456789abcdeABCDE''"

definition HEXW :: regex where
  "HEXW = Seq HEX (Maybe HEX)"

definition DIGIT :: regex where
  "DIGIT = Cls ''0123456789''"

definition IPV4 :: regex where
  "IPV4 = Alt (Seq (Cls ''2'') (Seq (Cls ''5'') (Cls ''012345'')))
         (Alt (Seq (Cls ''2'') (Seq (Cls ''01234'') DIGIT))
              (Seq (Maybe (Cls ''01'')) (Seq DIGIT (Maybe DIGIT))))"

definition IPV6 :: regex where
  "IPV6 = Seq HEX (Seq (Maybe HEX) (Seq (Maybe HEX) (Maybe HEX)))"

definition ipRegex4 :: regex where
  "ipRegex4 = Seq IPV4 (Seq Dot (Seq IPV4 (Seq Dot (Seq IPV4 (Seq Dot IPV4)))))"

definition ipRegex6 :: regex where
  "ipRegex6 = Seq IPV6 (Times 7 (Seq (Cls '':'') IPV6))"

definition ethRegex :: regex where
  "ethRegex = Seq HEXW (Times 5 (Seq (Cls '':'') HEXW))"

section \<open>Classification of host names\<close>

datatype IpProtocolVersion = Ipv4 | Ipv6 | none

definition GetIpAddressType :: "string \<Rightarrow> IpProtocolVersion" where
  "GetIpAddressType host =
     (if regex_match host ipRegex4 then Ipv4 else if regex_match host ipRegex6 then Ipv6 else none)"

section \<open>Hardware addresses\<close>

text \<open>
  The loop over \<open>std::getline\<close>: pieces between the delimiters; nothing is read at the end of the stream,
  so an empty last piece is not delivered.
\<close>

fun getlines :: "char \<Rightarrow> string \<Rightarrow> string list" where
  "getlines d [] = []"
| "getlines d (c # s) =
     (if c = d then [] # getlines d s
      else case takeWhile (\<lambda>x. x \<noteq> d) s of w \<Rightarrow> (c # w) # getlines d (drop (length w + 1) s))"

definition hex_value :: "char \<Rightarrow> nat option" where
  "hex_value c = find_index (\<lambda>x. x = c) ''0123456789abcdef'' "

definition lower :: "char \<Rightarrow> char" where
  "lower c = (if of_char c \<in> {65 .. 90 :: nat} then char_of (of_char c + 32 :: nat) else c)"

definition isspace :: "char \<Rightarrow> bool" where
  "isspace c \<longleftrightarrow> c = CHR '' '' \<or> of_char c \<in> {9 .. 13 :: nat}"

definition isxdigit :: "char \<Rightarrow> bool" where
  "isxdigit c \<longleftrightarrow> hex_value (lower c) \<noteq> None"

text \<open>
  \<open>std::stoi(token, nullptr, 16)\<close>: leading white space, a sign, the prefix \<open>0x\<close> when a digit follows it,
  then the longest run of digits. No digit is an invalid argument, a value that is no \<open>int\<close> is out of range.
\<close>

definition strip_prefix :: "string \<Rightarrow> string" where
  "strip_prefix s = (case s of
     a # b # c # t \<Rightarrow> if a = CHR ''0'' \<and> lower b = CHR ''x'' \<and> isxdigit c then c # t else s
   | _ \<Rightarrow> s)"

definition hex_digits :: "string \<Rightarrow> int" where
  "hex_digits s = foldl (\<lambda>n c. 16 * n + int (the (hex_value (lower c)))) 0 s"

definition stoi16 :: "string \<Rightarrow> int attempt" where
  "stoi16 s =
     (let s = dropWhile isspace s;
          neg = (s \<noteq> [] \<and> hd s = CHR ''-'');
          s = (if s \<noteq> [] \<and> (hd s = CHR ''-'' \<or> hd s = CHR ''+'') then tl s else s);
          ds = takeWhile isxdigit (strip_prefix s);
          n = (if neg then - hex_digits ds else hex_digits ds)
      in if ds = [] then Throw (invalid_argument ''stoi'')
         else if n < - (2 ^ 31) \<or> n \<ge> 2 ^ 31 then Throw out_of_range
         else Done n)"

text \<open>
  The bytes of the address are stored one by one; a seventh piece is stored behind the array.
  The pair is the result code and the address.
\<close>

fun store_pieces :: "nat \<Rightarrow> string list \<Rightarrow> EthAddress \<Rightarrow> EthAddress attempt" where
  "store_pieces i [] a = Done a"
| "store_pieces i (token # ts) a =
     abind (stoi16 token) (\<lambda>n.
     if i < length a then store_pieces (i + 1) ts (a[i := word_of_int n]) else Undefined DataOverrun)"

definition ToEthAddress :: "string \<Rightarrow> EthAddress \<Rightarrow> (int \<times> EthAddress) attempt" where
  "ToEthAddress ethaddr address =
     (if regex_match ethaddr ethRegex then Done (- 1, address)
      else abind (store_pieces 0 (getlines CHR '':'' ethaddr) address) (\<lambda>a. Done (1, a)))"

definition hex2 :: "byte \<Rightarrow> string" where
  "hex2 b = [''0123456789abcdef'' ! (unat b div 16), ''0123456789abcdef'' ! (unat b mod 16)]"

fun colon_join :: "string list \<Rightarrow> string" where
  "colon_join [] = []"
| "colon_join (w # ws) = CHR '':'' # w @ colon_join ws"

definition EthAddressToString :: "EthAddress \<Rightarrow> string" where
  "EthAddressToString ethaddr = hex2 (ethaddr ! 0) @ colon_join (map hex2 (tl ethaddr))"

text \<open>\<open>DumpHex\<close> as the text that it prints: rows of sixteen bytes, each once as characters and once in hex.\<close>

definition isprint :: "byte \<Rightarrow> bool" where
  "isprint b \<longleftrightarrow> 32 \<le> b \<and> b \<le> 126"

definition dump_row :: "byte list \<Rightarrow> nat \<Rightarrow> nat \<Rightarrow> string" where
  "dump_row data n j =
     (let row = map (\<lambda>i. data ! (j * 16 + i)) (filter (\<lambda>i. j * 16 + i < n) [0..<16])
      in ''cc>> '' @ concat (map (\<lambda>b. [CHR '' '', if isprint b then char_of (unat b) else CHR ''.'', CHR '' '']) row) @ [CHR 0x0A] @
         ''0x>> '' @ concat (map (\<lambda>b. hex2 b @ [CHR '' '']) row) @ [CHR 0x0A])"

definition DumpHex :: "byte list \<Rightarrow> nat \<Rightarrow> string outcome" where
  "DumpHex data n =
     (if n \<le> length data then Ret (concat (map (dump_row data n) [0..<n div 16 + 1])) else Undef BufferOverrun)"

section \<open>IP addresses\<close>

text \<open>
  \<open>inet_pton\<close> returns the code and the union, which it changes only for the code 1; \<open>inet_ntop\<close> returns
  \<open>None\<close> for a null pointer. The value of \<open>IpAddressToString\<close> is the code and the text, if it was set.
\<close>

definition ToIpAddress ::
  "(bool \<Rightarrow> string \<Rightarrow> IpAddress \<Rightarrow> int \<times> IpAddress) \<Rightarrow> string \<Rightarrow> bool \<Rightarrow> IpAddress \<Rightarrow> int \<times> IpAddress" where
  "ToIpAddress inet_pton ipaddr ipv4 address = inet_pton ipv4 ipaddr address"

definition IpAddressToString ::
  "(bool \<Rightarrow> IpAddress \<Rightarrow> string option) \<Rightarrow> IpAddress \<Rightarrow> bool \<Rightarrow> string \<Rightarrow> nat \<times> string" where
  "IpAddressToString inet_ntop ipaddr ipv4 address =
     (case inet_ntop ipv4 ipaddr of None \<Rightarrow> (0, address) | Some t \<Rightarrow> (length t, t))"

section \<open>Languages of the expressions\<close>

fun lang :: "regex \<Rightarrow> string set" where
  "lang Eps = {[]}"
| "lang (Cls cs) = (\<lambda>c. [c]) ` set cs"
| "lang Dot = {[c] | c. \<not> line_end c}"
| "lang (Seq a b) = {u @ v | u v. u \<in> lang a \<and> v \<in> lang b}"
| "lang (Alt a b) = lang a \<union> lang b"

lemma bex_Seq: "(\<exists>w \<in> lang (Seq a b). P w) \<longleftrightarrow> (\<exists>u \<in> lang a. \<exists>v \<in> lang b. P (u @ v))"
  unfolding lang.simps by blast

lemma mem_Seq: "w \<in> lang (Seq a b) \<longleftrightarrow> (\<exists>u \<in> lang a. \<exists>v \<in> lang b. w = u @ v)"
  using bex_Seq [of a b "\<lambda>x. w = x"] by blast

lemma set_rests: "t \<in> set (rests r s) \<longleftrightarrow> (\<exists>u \<in> lang r. s = u @ t)"
proof (induction r arbitrary: s t)
  case (Seq a b)
  have "t \<in> set (rests (Seq a b) s) \<longleftrightarrow> (\<exists>x \<in> set (rests a s). t \<in> set (rests b x))" by auto
  also have "\<dots> \<longleftrightarrow> (\<exists>u \<in> lang a. \<exists>v \<in> lang b. s = u @ v @ t)"
    unfolding Bex_def Seq.IH by auto
  also have "\<dots> \<longleftrightarrow> (\<exists>u \<in> lang (Seq a b). s = u @ t)"
    by (simp only: bex_Seq append_assoc)
  finally show ?case .
next
  case Dot
  show ?case by (cases s) auto
qed (auto split: list.splits)

lemma regex_match_lang: "regex_match s r \<longleftrightarrow> s \<in> lang r"
  by (simp add: regex_match_def set_rests)

lemma lang_Maybe: "lang (Maybe r) = insert [] (lang r)"
  by (auto simp: Maybe_def)

lemma lang_Seq_Cls: "w \<in> lang (Seq (Cls cs) r) \<longleftrightarrow> (\<exists>c t. w = c # t \<and> c \<in> set cs \<and> t \<in> lang r)"
  by (auto simp: mem_Seq simp del: lang.simps(4))

lemma lang_Seq_Maybe: "w \<in> lang (Seq (Maybe a) b) \<longleftrightarrow> w \<in> lang b \<or> w \<in> lang (Seq a b)"
  by (auto simp: lang_Maybe)

lemma lang_Cls: "w \<in> lang (Cls cs) \<longleftrightarrow> (\<exists>c. w = [c] \<and> c \<in> set cs)"
  by auto

lemma lang_Maybe_iff: "w \<in> lang (Maybe r) \<longleftrightarrow> w = [] \<or> w \<in> lang r"
  by (simp add: lang_Maybe)

lemma lang_Alt: "w \<in> lang (Alt a b) \<longleftrightarrow> w \<in> lang a \<or> w \<in> lang b"
  by simp

lemmas lang_words = lang_Alt lang_Seq_Maybe lang_Seq_Cls lang_Maybe_iff lang_Cls

text \<open>A number of an IPv4 address: one to three digits, at most 255.\<close>

definition digit_value :: "char \<Rightarrow> nat" where
  "digit_value c = the (find_index (\<lambda>x. x = c) ''0123456789'')"

definition dec_value :: "string \<Rightarrow> nat" where
  "dec_value w = foldl (\<lambda>n c. 10 * n + digit_value c) 0 w"

definition octet :: "string \<Rightarrow> bool" where
  "octet w \<longleftrightarrow> length w \<in> {1, 2, 3} \<and> list_all (\<lambda>c. c \<in> set ''0123456789'') w \<and> dec_value w \<le> 255"

text \<open>A group of an IPv6 address, as the expression has it: no digit \<open>f\<close>.\<close>

definition group :: "string \<Rightarrow> bool" where
  "group w \<longleftrightarrow> length w \<in> {1, 2, 3, 4} \<and> list_all (\<lambda>c. c \<in> set ''0123456789abcdeABCDE'') w"

lemma digit_value_table:
  "list_all (\<lambda>c. digit_value c < 10 \<and> (c \<in> set ''01'' \<longleftrightarrow> digit_value c \<le> 1) \<and>
       (c \<in> set ''2'' \<longleftrightarrow> digit_value c = 2) \<and> (c \<in> set ''01234'' \<longleftrightarrow> digit_value c \<le> 4) \<and>
       (c \<in> set ''5'' \<longleftrightarrow> digit_value c = 5) \<and> (c \<in> set ''012345'' \<longleftrightarrow> digit_value c \<le> 5))
     ''0123456789''"
  by code_simp

lemma digit_value_cases:
  assumes "c \<in> set ''0123456789''"
  shows "digit_value c < 10" "c \<in> set ''01'' \<longleftrightarrow> digit_value c \<le> 1" "c \<in> set ''2'' \<longleftrightarrow> digit_value c = 2"
    "c \<in> set ''01234'' \<longleftrightarrow> digit_value c \<le> 4" "c \<in> set ''5'' \<longleftrightarrow> digit_value c = 5"
    "c \<in> set ''012345'' \<longleftrightarrow> digit_value c \<le> 5"
  using digit_value_table assms by (simp_all only: list_all_iff)

lemma sub_digits:
  "set ''01'' \<subseteq> set ''0123456789''" "set ''2'' \<subseteq> set ''0123456789''" "set ''01234'' \<subseteq> set ''0123456789''"
  "set ''5'' \<subseteq> set ''0123456789''" "set ''012345'' \<subseteq> set ''0123456789''"
  by auto

lemma IPV4_digits: "w \<in> lang IPV4 \<Longrightarrow> length w \<in> {1, 2, 3} \<and> list_all (\<lambda>c. c \<in> set ''0123456789'') w"
  unfolding IPV4_def DIGIT_def lang_words
  by (auto simp del: list.set dest: sub_digits [THEN subsetD])

lemma lang_IPV4: "w \<in> lang IPV4 \<longleftrightarrow> octet w"
proof (cases "length w \<in> {1, 2, 3} \<and> list_all (\<lambda>c. c \<in> set ''0123456789'') w")
  case True
  then consider a where "w = [a]" | a b where "w = [a, b]" | a b c where "w = [a, b, c]"
    by (auto simp: numeral_eq_Suc length_Suc_conv)
  then show ?thesis
  proof cases
    case 1
    with True have "a \<in> set ''0123456789''" by (simp del: list.set)
    with 1 True digit_value_cases [OF this] show ?thesis
      by (auto simp: IPV4_def DIGIT_def lang_words octet_def dec_value_def simp del: list.set lang.simps)
  next
    case 2
    with True have "a \<in> set ''0123456789''" "b \<in> set ''0123456789''" by (simp_all del: list.set)
    with 2 True digit_value_cases [OF this(1)] digit_value_cases [OF this(2)] show ?thesis
      by (auto simp: IPV4_def DIGIT_def lang_words octet_def dec_value_def simp del: list.set lang.simps)
  next
    case 3
    with True have "a \<in> set ''0123456789''" "b \<in> set ''0123456789''" "c \<in> set ''0123456789''" by (simp_all del: list.set)
    note d = digit_value_cases [OF this(1)] digit_value_cases [OF this(2)] digit_value_cases [OF this(3)] this
    have "[a, b, c] \<in> lang IPV4 \<longleftrightarrow> a \<in> set ''2'' \<and> b \<in> set ''5'' \<and> c \<in> set ''012345'' \<or>
        a \<in> set ''2'' \<and> b \<in> set ''01234'' \<and> c \<in> set ''0123456789'' \<or>
        a \<in> set ''01'' \<and> b \<in> set ''0123456789'' \<and> c \<in> set ''0123456789''"
      by (simp add: IPV4_def DIGIT_def lang_words del: list.set lang.simps)
    also have "\<dots> \<longleftrightarrow> 100 * digit_value a + 10 * digit_value b + digit_value c \<le> 255"
      unfolding d using d(1) d(7) d(13) d(19-21) by (simp del: list.set) linarith
    also have "\<dots> \<longleftrightarrow> octet w"
      using 3 True by (simp add: octet_def dec_value_def del: list.set)
    finally show ?thesis using 3 by simp
  qed
qed (use IPV4_digits in \<open>auto simp: octet_def simp del: list.set\<close>)

lemma lang_IPV6: "w \<in> lang IPV6 \<longleftrightarrow> group w"
proof
  show "w \<in> lang IPV6 \<Longrightarrow> group w"
    unfolding IPV6_def HEX_def lang_words by (auto simp: group_def simp del: list.set)
next
  assume "group w"
  then have len: "length w \<in> {1, 2, 3, 4}" and w: "list_all (\<lambda>c. c \<in> set ''0123456789abcdeABCDE'') w"
    by (auto simp: group_def simp del: list.set)
  from len consider a where "w = [a]" | a b where "w = [a, b]" | a b c where "w = [a, b, c]"
    | a b c d where "w = [a, b, c, d]"
    by (auto simp: numeral_eq_Suc length_Suc_conv)
  then show "w \<in> lang IPV6"
    using w by cases (simp_all add: IPV6_def HEX_def lang_words del: list.set lang.simps)
qed


section \<open>What the classification accepts\<close>

lemma mem_Dot: "w \<in> lang (Seq Dot r) \<longleftrightarrow> (\<exists>c t. w = c # t \<and> \<not> line_end c \<and> t \<in> lang r)"
  by (auto simp: mem_Seq simp del: lang.simps(4))

lemma mem_octet_dot:
  "w \<in> lang (Seq IPV4 (Seq Dot r)) \<longleftrightarrow>
     (\<exists>a x t. w = a @ x # t \<and> octet a \<and> \<not> line_end x \<and> t \<in> lang r)"
  unfolding mem_Seq [of w] mem_Dot Bex_def lang_IPV4 by auto

lemma ipRegex4_iff:
  "regex_match s ipRegex4 \<longleftrightarrow>
     (\<exists>a x b y c z d. s = a @ x # b @ y # c @ z # d \<and> octet a \<and> octet b \<and> octet c \<and> octet d \<and>
        \<not> line_end x \<and> \<not> line_end y \<and> \<not> line_end z)"
  unfolding regex_match_lang ipRegex4_def mem_octet_dot lang_IPV4
  by (rule iffI; elim exE conjE; hypsubst) (intro exI conjI, (rule refl | assumption)+)+

lemma lang_Times_join:
  "w \<in> lang (Times n (Seq (Cls '':'') r)) \<longleftrightarrow>
     (\<exists>ws. length ws = n \<and> set ws \<subseteq> lang r \<and> w = colon_join ws)"
proof (induction n arbitrary: w)
  case (Suc n)
  have "w \<in> lang (Times (Suc n) (Seq (Cls '':'') r)) \<longleftrightarrow>
      (\<exists>u v. w = CHR '':'' # u @ v \<and> u \<in> lang r \<and> v \<in> lang (Times n (Seq (Cls '':'') r)))"
    unfolding Times.simps mem_Seq [of w] lang_Seq_Cls Bex_def by auto blast
  also have "\<dots> \<longleftrightarrow> (\<exists>u us. length us = n \<and> u \<in> lang r \<and> set us \<subseteq> lang r \<and> w = colon_join (u # us))"
    unfolding Suc.IH by auto
  also have "\<dots> \<longleftrightarrow> (\<exists>ws. length ws = Suc n \<and> set ws \<subseteq> lang r \<and> w = colon_join ws)"
    unfolding length_Suc_conv by (metis insert_subset list.set(2))
  finally show ?case .
qed simp

lemma ipRegex6_iff:
  "regex_match s ipRegex6 \<longleftrightarrow>
     (\<exists>w ws. s = w @ colon_join ws \<and> length ws = 7 \<and> (\<forall>g \<in> set (w # ws). group g))"
  unfolding regex_match_lang ipRegex6_def mem_Seq [of _ IPV6] lang_Times_join Bex_def
  by (auto simp: lang_IPV6 subset_iff)

lemma ethRegex_iff:
  "regex_match s ethRegex \<longleftrightarrow>
     (\<exists>w ws. s = w @ colon_join ws \<and> length ws = 5 \<and> set (w # ws) \<subseteq> lang HEXW)"
  unfolding regex_match_lang ethRegex_def mem_Seq [of _ HEXW] lang_Times_join Bex_def
  by auto

lemma colons_octet: "octet a \<Longrightarrow> CHR '':'' \<notin> set a"
proof -
  have "CHR '':'' \<notin> set ''0123456789''" by simp
  then show "octet a \<Longrightarrow> CHR '':'' \<notin> set a" unfolding octet_def list_all_iff by blast
qed

lemma colons_join: "length ws \<le> count_list (colon_join ws) CHR '':''"
  by (induction ws) simp_all

lemma count_octet: "octet a \<Longrightarrow> count_list a CHR '':'' = 0"
  using colons_octet count_notin by metis

lemma languages_disjoint: "\<not> (regex_match s ipRegex4 \<and> regex_match s ipRegex6)"
proof
  assume "regex_match s ipRegex4 \<and> regex_match s ipRegex6"
  then obtain a x b y c z d w ws
    where s: "s = a @ x # b @ y # c @ z # d" "octet a" "octet b" "octet c" "octet d"
      and t: "s = w @ colon_join ws" "length ws = 7"
    unfolding ipRegex4_iff ipRegex6_iff by blast
  from s have "count_list s CHR '':'' \<le> 3" by (simp add: count_octet)
  moreover from t have "7 \<le> count_list s CHR '':''" using colons_join [of ws] by simp
  ultimately show False by simp
qed

fun dcolon :: "string \<Rightarrow> bool" where
  "dcolon (a # b # s) \<longleftrightarrow> a = CHR '':'' \<and> b = CHR '':'' \<or> dcolon (b # s)"
| "dcolon s \<longleftrightarrow> False"

lemma dcolon_word: "CHR '':'' \<notin> set w \<Longrightarrow> dcolon (w @ s) = dcolon s"
proof (induction w)
  case (Cons a w)
  then show ?case by (cases "w @ s") auto
qed simp

lemma dcolon_separated: "w \<noteq> [] \<Longrightarrow> CHR '':'' \<notin> set w \<Longrightarrow> dcolon (x # w @ s) = dcolon s"
  using dcolon_word [of w s] by (cases w) auto

lemma dcolon_contains: "dcolon (u @ ''::'' @ v)"
proof (induction u)
  case (Cons a u)
  then show ?case by (cases "u @ ''::'' @ v") auto
qed simp

lemma group_word: "group w \<Longrightarrow> w \<noteq> [] \<and> CHR '':'' \<notin> set w"
proof -
  have "CHR '':'' \<notin> set ''0123456789abcdeABCDE''" by simp
  then show "group w \<Longrightarrow> w \<noteq> [] \<and> CHR '':'' \<notin> set w" unfolding group_def list_all_iff by force
qed

lemma octet_word: "octet w \<Longrightarrow> w \<noteq> [] \<and> CHR '':'' \<notin> set w"
  using colons_octet [of w] by (auto simp: octet_def)

lemma dcolon_join: "\<forall>g \<in> set ws. group g \<Longrightarrow> \<not> dcolon (colon_join ws)"
  by (induction ws) (auto simp: dcolon_separated group_word)

lemma GetIpAddressType_double_colon: "GetIpAddressType (u @ ''::'' @ v) = none"
proof -
  have "\<not> regex_match (u @ ''::'' @ v) ipRegex4"
  proof
    assume "regex_match (u @ ''::'' @ v) ipRegex4"
    then obtain a x b y c z d where "u @ ''::'' @ v = a @ x # b @ y # c @ z # d"
      "octet a" "octet b" "octet c" "octet d" unfolding ipRegex4_iff by blast
    moreover from this have "\<not> dcolon (a @ x # b @ y # c @ z # d)"
      using dcolon_separated [of d z "[]"] by (simp add: dcolon_word dcolon_separated octet_word)
    ultimately show False using dcolon_contains [of u v] by metis
  qed
  moreover have "\<not> regex_match (u @ ''::'' @ v) ipRegex6"
  proof
    assume "regex_match (u @ ''::'' @ v) ipRegex6"
    then obtain w ws where "u @ ''::'' @ v = w @ colon_join ws" "\<forall>g \<in> set (w # ws). group g"
      unfolding ipRegex6_iff by blast
    moreover from this(2) have "\<not> dcolon (w @ colon_join ws)"
      by (simp add: dcolon_word dcolon_join group_word)
    ultimately show False using dcolon_contains [of u v] by metis
  qed
  ultimately show ?thesis by (simp add: GetIpAddressType_def)
qed

section \<open>Hardware addresses as text\<close>

abbreviation hex_char :: "nat \<Rightarrow> char" where
  "hex_char n \<equiv> ''0123456789abcdef'' ! n"

lemma hex_char_table:
  "list_all (\<lambda>n. \<not> isspace (hex_char n) \<and> isxdigit (hex_char n) \<and> hex_char n \<noteq> CHR ''-'' \<and>
       hex_char n \<noteq> CHR ''+'' \<and> hex_char n \<noteq> CHR '':'' \<and> hex_value (lower (hex_char n)) = Some n \<and>
       (hex_char n \<in> set ''0123456789abcdeABCDE'' \<longleftrightarrow> n \<noteq> 15)) [0..<16]"
  by code_simp

lemma hex_char_facts:
  assumes "n < 16"
  shows "\<not> isspace (hex_char n)" "isxdigit (hex_char n)" "hex_char n \<noteq> CHR ''-''" "hex_char n \<noteq> CHR ''+''"
    "hex_char n \<noteq> CHR '':''" "hex_value (lower (hex_char n)) = Some n"
    "hex_char n \<in> set ''0123456789abcdeABCDE'' \<longleftrightarrow> n \<noteq> 15"
  using hex_char_table assms by (simp_all only: list_all_iff set_upt atLeastLessThan_iff le0 simp_thms)

lemma nibbles: "unat (b :: byte) div 16 < 16" "unat b mod 16 < 16"
  using unsigned_less [of b, where ?'a = nat] by auto

lemma stoi16_hex2: "stoi16 (hex2 b) = Done (uint b)"
proof -
  have "hex_digits (hex2 b) = 16 * int (unat b div 16) + int (unat b mod 16)"
    using nibbles [of b] by (simp add: hex_digits_def hex2_def hex_char_facts(6) del: nth_Cons_numeral)
  also have "\<dots> = int (16 * (unat b div 16) + unat b mod 16)" by (simp only: of_nat_add of_nat_mult of_nat_numeral)
  also have "\<dots> = uint b" by (simp only: mult_div_mod_eq) simp
  finally have v: "hex_digits (hex2 b) = uint b" .
  have ds: "takeWhile isxdigit (hex2 b) = hex2 b" "dropWhile isspace (hex2 b) = hex2 b" "strip_prefix (hex2 b) = hex2 b"
    "hd (hex2 b) \<noteq> CHR ''-''" "hd (hex2 b) \<noteq> CHR ''+''" "hex2 b \<noteq> []"
    using nibbles [of b] by (simp_all add: hex2_def hex_char_facts(1-4) strip_prefix_def del: nth_Cons_numeral)
  have "uint b < 256" using uint_lt2p [of b] by simp
  moreover have "\<not> uint b < - 2147483648" using uint_ge_0 [of b] by linarith
  ultimately show ?thesis by (simp add: stoi16_def Let_def ds v)
qed

lemma getlines_join:
  "w \<noteq> [] \<Longrightarrow> d \<notin> set w \<Longrightarrow> \<forall>v \<in> set ws. v \<noteq> [] \<and> d \<notin> set v \<Longrightarrow> d = CHR '':'' \<Longrightarrow>
     getlines d (w @ colon_join ws) = w # ws"
proof (induction ws arbitrary: w)
  case Nil
  then obtain c u where "w = c # u" by (cases w) auto
  with Nil.prems(2) have "takeWhile (\<lambda>x. x \<noteq> d) u = u" "c \<noteq> d" by (auto simp: takeWhile_eq_all_conv)
  then show ?case using \<open>w = c # u\<close> by (simp add: \<open>takeWhile (\<lambda>x. x \<noteq> d) u = u\<close> del: takeWhile_eq_all_conv)
next
  case (Cons v ws)
  then obtain c u where w: "w = c # u" by (cases w) auto
  with Cons.prems have "\<forall>x \<in> set u. x \<noteq> d" by auto
  then have tw: "takeWhile (\<lambda>x. x \<noteq> d) (u @ d # r) = u" for r by (simp add: takeWhile_append2)
  with w Cons show ?case by auto
qed

lemma lang_HEXW: "w \<in> lang HEXW \<Longrightarrow> w \<noteq> [] \<and> CHR '':'' \<notin> set w"
  unfolding HEXW_def HEX_def lang_words by auto

lemma hex2_facts: "hex2 b \<noteq> []" "CHR '':'' \<notin> set (hex2 b)"
  using hex_char_facts(5) [OF nibbles(1) [of b], THEN not_sym]
    hex_char_facts(5) [OF nibbles(2) [of b], THEN not_sym]
  by (simp_all add: hex2_def del: nth_Cons_numeral)

definition has_f :: "byte \<Rightarrow> bool" where
  "has_f b \<longleftrightarrow> unat b div 16 = 15 \<or> unat b mod 16 = 15"

lemma hex2_HEXW: "hex2 b \<in> lang HEXW \<longleftrightarrow> \<not> has_f b"
  using nibbles [of b]
  by (simp add: HEXW_def HEX_def lang_words hex2_def has_f_def hex_char_facts(7) del: list.set lang.simps nth_Cons_numeral)

lemma EthAddressToString_join:
  "a \<noteq> [] \<Longrightarrow> EthAddressToString a = hex2 (hd a) @ colon_join (map hex2 (tl a))"
  by (cases a) (simp_all add: EthAddressToString_def)

lemma getlines_address: "a \<noteq> [] \<Longrightarrow> getlines CHR '':'' (EthAddressToString a) = map hex2 a"
  by (cases a) (simp_all add: EthAddressToString_join getlines_join hex2_facts)

lemma ethRegex_address:
  assumes "length a = 6"
  shows "regex_match (EthAddressToString a) ethRegex \<longleftrightarrow> list_all (\<lambda>b. \<not> has_f b) a"
proof
  assume "regex_match (EthAddressToString a) ethRegex"
  then obtain w ws where e: "EthAddressToString a = w @ colon_join ws" and s: "set (w # ws) \<subseteq> lang HEXW"
    unfolding ethRegex_iff by blast
  from s have "getlines CHR '':'' (w @ colon_join ws) = w # ws"
    by (intro getlines_join) (auto dest: lang_HEXW)
  moreover have "a \<noteq> []" using assms by auto
  ultimately have "w # ws = map hex2 a" using e getlines_address [of a] by simp
  with s have "set (map hex2 a) \<subseteq> lang HEXW" by metis
  then show "list_all (\<lambda>b. \<not> has_f b) a" by (auto simp: list_all_iff hex2_HEXW [symmetric])
next
  assume "list_all (\<lambda>b. \<not> has_f b) a"
  with assms show "regex_match (EthAddressToString a) ethRegex"
    unfolding ethRegex_iff
    by (intro exI [of _ "hex2 (hd a)"] exI [of _ "map hex2 (tl a)"])
      (cases a; auto simp: EthAddressToString_join hex2_HEXW list_all_iff)
qed

lemma store_pieces_hex2:
  "i + length bs \<le> length a \<Longrightarrow>
     store_pieces i (map hex2 bs) a = Done (take i a @ bs @ drop (i + length bs) a)"
proof (induction bs arbitrary: i a)
  case (Cons b bs)
  then have "store_pieces i (map hex2 (b # bs)) a = store_pieces (i + 1) (map hex2 bs) (a[i := b])"
    by (simp add: stoi16_hex2)
  with Cons.IH [of "i + 1" "a[i := b]"] Cons.prems show ?case
    by (simp add: take_Suc_conv_app_nth ac_simps)
qed simp

lemma printed_address_read:
  assumes "length a = 6" and "length b = 6"
  shows "ToEthAddress (EthAddressToString a) b =
    (if list_ex has_f a then Done (1, a) else Done (- 1, b))"
proof -
  have "a \<noteq> []" using assms by auto
  with assms have "store_pieces 0 (getlines CHR '':'' (EthAddressToString a)) b = Done a"
    by (simp add: getlines_address store_pieces_hex2)
  with assms(1) show ?thesis
    by (simp add: ToEthAddress_def ethRegex_address list_all_iff list_ex_iff)
qed

text \<open>
  C34. Text form of hardware addresses. The printed form of an address is read back to the address if and
  only if it contains the digit \<open>f\<close>; every other printed address is rejected, because the expression
  describes the addresses without this digit and its result is used the wrong way round.
\<close>

theorem printed_hardware_address_read:
  assumes "length a = 6" and "length b = 6"
  shows "ToEthAddress (EthAddressToString a) b =
    (if list_ex has_f a then Done (1, a) else Done (- 1, b))"
  using assms by (rule printed_address_read)

theorem printed_hardware_address_read_witness:
  "ToEthAddress (EthAddressToString [0x00, 0x1b, 0x44, 0x11, 0x3a, 0xb7]) (replicate 6 0) = Done (- 1, replicate 6 0) \<and>
   ToEthAddress (EthAddressToString [0x00, 0x1f, 0x44, 0x11, 0x3a, 0xb7]) (replicate 6 0) =
     Done (1, [0x00, 0x1f, 0x44, 0x11, 0x3a, 0xb7])"
  using printed_hardware_address_read [of "[0x00, 0x1b, 0x44, 0x11, 0x3a, 0xb7]" "replicate 6 0"]
    printed_hardware_address_read [of "[0x00, 0x1f, 0x44, 0x11, 0x3a, 0xb7]" "replicate 6 0"]
  by (simp add: has_f_def)

text \<open>
  C33. Classification of a host. It is an IPv4 address exactly when it is four numbers of one to three digits up
  to 255 with any one character between them, an IPv6 address exactly when it is eight groups of one to four
  hexadecimal digits other than \<open>f\<close> with colons between them, and no host is both. So an IPv6 address in the
  usual compressed form, with two colons in a row, is none.
\<close>

theorem GetIpAddressType_accepts:
  "(GetIpAddressType s = Ipv4 \<longleftrightarrow>
     (\<exists>a x b y c z d. s = a @ x # b @ y # c @ z # d \<and> octet a \<and> octet b \<and> octet c \<and> octet d \<and>
        \<not> line_end x \<and> \<not> line_end y \<and> \<not> line_end z)) \<and>
   (GetIpAddressType s = Ipv6 \<longleftrightarrow>
     (\<exists>ws. length ws = 7 \<and> (\<exists>w. s = w @ colon_join ws \<and> list_all group (w # ws)))) \<and>
   \<not> (regex_match s ipRegex4 \<and> regex_match s ipRegex6) \<and>
   GetIpAddressType (u @ ''::'' @ v) = none"
  unfolding ipRegex4_iff [symmetric]
  using ipRegex6_iff [of s] languages_disjoint [of s] GetIpAddressType_double_colon
  by (auto simp: GetIpAddressType_def list_all_iff)

end
