(* ===== verification/Config_Reader.thy ===== *)
theory Config_Reader
  imports Text_Address
begin

text \<open>
  \<^verbatim>\<open>include/config.hpp\<close>, \<^verbatim>\<open>src/config.cpp\<close> and \<^verbatim>\<open>src/log.cpp\<close>: the configuration. The virtual getters of
  \<open>ConfigReader\<close> are the fields of a record of functions that may throw, so \<open>LoadConfiguration\<close> is one definition for
  every reader; \<open>ini_reader\<close> is the one of \<open>IniConfigReader\<close>, which never throws. The property tree is a map from paths to texts,
  \<open>read_ini\<close> and the conversions of texts to numbers and truth values are parameters, as are the names of
  the log levels, which the logging library defines.
\<close>

section \<open>Log levels\<close>

datatype LogLevel = Trace | Debug | Info | Warning | Error | Fatal

definition ToLogLevel :: "(string \<Rightarrow> LogLevel option) \<Rightarrow> string \<Rightarrow> LogLevel" where
  "ToLogLevel from_string level = (case from_string level of Some l \<Rightarrow> l | None \<Rightarrow> Info)"

definition FromLogLevel :: "(LogLevel \<Rightarrow> string option) \<Rightarrow> LogLevel \<Rightarrow> string" where
  "FromLogLevel to_string level =
     (case to_string level of None \<Rightarrow> the (to_string Info) | Some name \<Rightarrow> name)"

section \<open>State\<close>

datatype Protocol = Tcp | Udp

record UpstreamServer =
  hostIp :: string
  port :: u16
  protocol :: Protocol
  protocolVersion :: IpProtocolVersion

record ConfigReader =
  logToConsoleAlso :: bool
  logFile :: string
  logLevel :: LogLevel
  pidFile :: string
  ruleFile :: string
  cfg_dnsPort :: u16
  tcpPort :: u16
  cfg_servers :: "UpstreamServer list"

record getters =
  getStringValue :: "string \<Rightarrow> string \<Rightarrow> string attempt"
  getLongValue :: "string \<Rightarrow> int \<Rightarrow> int attempt"
  getBoolValue :: "string \<Rightarrow> bool \<Rightarrow> bool attempt"

text \<open>Getters that always answer are given by the values of the settings.\<close>

record settings =
  text_setting :: "string \<Rightarrow> string \<Rightarrow> string"
  number_setting :: "string \<Rightarrow> int \<Rightarrow> int"
  flag_setting :: "string \<Rightarrow> bool \<Rightarrow> bool"

definition answering :: "settings \<Rightarrow> getters" where
  "answering v = \<lparr>getStringValue = \<lambda>k d. Done (text_setting v k d), getLongValue = \<lambda>k d. Done (number_setting v k d),
     getBoolValue = \<lambda>k d. Done (flag_setting v k d)\<rparr>"

lemma answering_sel [simp]:
  "getStringValue (answering v) k t = Done (text_setting v k t)" "getLongValue (answering v) k n = Done (number_setting v k n)"
  "getBoolValue (answering v) k b = Done (flag_setting v k b)"
  by (simp_all add: answering_def)

text \<open>The sinks and the filter that \<open>Log::Init\<close> sets up in the logging library.\<close>

datatype sink = ConsoleLog | FileLog string

definition Log_Init :: "ConfigReader \<Rightarrow> sink list \<times> LogLevel" where
  "Log_Init configReader =
     ((if logToConsoleAlso configReader then [ConsoleLog] else []) @ [FileLog (logFile configReader)],
      logLevel configReader)"

section \<open>Reading\<close>

text \<open>The macros of \<^verbatim>\<open>include/common.h\<close> depend on the platform, and only on Unix is there a file for the process identifier.\<close>

datatype platform = Unix | Win32

fun LOG_FILE :: "platform \<Rightarrow> string" where
  "LOG_FILE Unix = ''/var/log/dns-wrapper.log''"
| "LOG_FILE Win32 = ''c:'' @ [CHR 0x5C] @ ''temp'' @ [CHR 0x5C] @ ''dns-wrapper.log''"

fun RULES_FILE :: "platform \<Rightarrow> string" where
  "RULES_FILE Unix = ''/etc/dns-wrapper/rules.txt''"
| "RULES_FILE Win32 = ''c:'' @ [CHR 0x5C] @ ''temp'' @ [CHR 0x5C] @ ''rules.txt''"

abbreviation (input) DNS_PORT :: int where "DNS_PORT \<equiv> 53"
abbreviation (input) PID_FILE :: string where "PID_FILE \<equiv> ''/var/run/dns-wrapper.pid''"
abbreviation (input) SERVER_IP_1 :: string where "SERVER_IP_1 \<equiv> ''1.1.1.1''"

definition addServer :: "string \<Rightarrow> u16 \<Rightarrow> string \<Rightarrow> ConfigReader \<Rightarrow> ConfigReader attempt" where
  "addServer host prt proto c =
     (if proto \<noteq> ''udp'' \<and> proto \<noteq> ''tcp'' then Throw (invalid_argument ''Invalid protocol value'')
      else
        let ipv = GetIpAddressType host in
        if ipv = none then Throw (invalid_argument ''Invalid server value'')
        else Done (c\<lparr>cfg_servers := cfg_servers c @
          [\<lparr>hostIp = host, port = prt, protocol = (if proto = ''udp'' then Udp else Tcp), protocolVersion = ipv\<rparr>]\<rparr>))"

text \<open>The second and the third server: \<open>n\<close> is the digit at the end of the keys.\<close>

definition addFurther :: "getters \<Rightarrow> string \<Rightarrow> ConfigReader \<Rightarrow> ConfigReader attempt" where
  "addFurther g n c =
     abind (getStringValue g (''serverIp'' @ n) []) (\<lambda>host.
     if host = [] then Done c
     else
       abind (getLongValue g (''serverPort'' @ n) DNS_PORT) (\<lambda>prt.
       abind (getStringValue g (''protocol'' @ n) ''udp'') (\<lambda>proto.
       addServer host (word_of_int prt) proto c)))"

definition LoadConfiguration ::
  "platform \<Rightarrow> (string \<Rightarrow> LogLevel option) \<Rightarrow> (LogLevel \<Rightarrow> string option) \<Rightarrow> getters \<Rightarrow> ConfigReader \<Rightarrow> ConfigReader attempt" where
  "LoadConfiguration os from_string to_string g c =
     abind (getBoolValue g ''logToConsoleAlso'' True) (\<lambda>console.
     abind (getStringValue g ''logFile'' (LOG_FILE os)) (\<lambda>file.
     abind (getStringValue g ''logLevel'' (FromLogLevel to_string Info)) (\<lambda>level.
     abind (getLongValue g ''dnsPort'' DNS_PORT) (\<lambda>dport.
     abind (if os = Unix then getStringValue g ''pidFile'' PID_FILE else Done (pidFile c)) (\<lambda>pid.
     abind (getStringValue g ''ruleFile'' (RULES_FILE os)) (\<lambda>rules.
     let c = c\<lparr>logToConsoleAlso := console, logFile := file, logLevel := ToLogLevel from_string level,
          cfg_dnsPort := word_of_int dport, pidFile := pid, ruleFile := rules\<rparr>
     in
     abind (getStringValue g ''serverIp1'' SERVER_IP_1) (\<lambda>host.
     abind (getLongValue g ''serverPort1'' DNS_PORT) (\<lambda>prt.
     abind (getStringValue g ''protocol1'' ''udp'') (\<lambda>proto.
     abind (addServer host (word_of_int prt) proto c) (\<lambda>c.
     abind (addFurther g ''2'' c) (addFurther g ''3'')))))))))))"

section \<open>The file reader\<close>

type_synonym ptree = "string \<Rightarrow> string option"

definition tree_string :: "ptree \<Rightarrow> string \<Rightarrow> string \<Rightarrow> string" where
  "tree_string tree key defValue = (case tree (''main.'' @ key) of Some v \<Rightarrow> v | None \<Rightarrow> defValue)"

definition tree_value :: "(string \<Rightarrow> 'a option) \<Rightarrow> ptree \<Rightarrow> string \<Rightarrow> 'a \<Rightarrow> 'a" where
  "tree_value convert tree key defValue =
     (case Option.bind (tree (''main.'' @ key)) convert of Some v \<Rightarrow> v | None \<Rightarrow> defValue)"

definition ini_reader :: "(string \<Rightarrow> int option) \<Rightarrow> (string \<Rightarrow> bool option) \<Rightarrow> ptree \<Rightarrow> settings" where
  "ini_reader to_long to_bool tree =
     \<lparr>text_setting = tree_string tree, number_setting = tree_value to_long tree, flag_setting = tree_value to_bool tree\<rparr>"

text \<open>\<open>read_ini\<close> is \<open>None\<close> for the exception, which leaves the tree as it was, empty.\<close>

definition IniConfigReader_LoadConfiguration ::
  "platform \<Rightarrow> (string \<Rightarrow> LogLevel option) \<Rightarrow> (LogLevel \<Rightarrow> string option) \<Rightarrow> (string \<Rightarrow> int option) \<Rightarrow>
     (string \<Rightarrow> bool option) \<Rightarrow> (string \<Rightarrow> ptree option) \<Rightarrow> string \<Rightarrow> ConfigReader \<Rightarrow> ConfigReader attempt" where
  "IniConfigReader_LoadConfiguration os from_string to_string to_long to_bool read_ini filePath c =
     (let tree = (case read_ini filePath of Some t \<Rightarrow> t | None \<Rightarrow> \<lambda>k. None) in
      LoadConfiguration os from_string to_string (answering (ini_reader to_long to_bool tree)) c)"

section \<open>Which servers are configured\<close>

text \<open>The servers that the configuration names, and what makes the whole of it acceptable.\<close>

definition wanted :: "settings \<Rightarrow> (string \<times> u16 \<times> string) list" where
  "wanted v =
     (text_setting v ''serverIp1'' SERVER_IP_1, word_of_int (number_setting v ''serverPort1'' DNS_PORT),
        text_setting v ''protocol1'' ''udp'') #
     filter (\<lambda>(host, _). host \<noteq> [])
       [(text_setting v ''serverIp2'' [], word_of_int (number_setting v ''serverPort2'' DNS_PORT),
           text_setting v ''protocol2'' ''udp''),
        (text_setting v ''serverIp3'' [], word_of_int (number_setting v ''serverPort3'' DNS_PORT),
           text_setting v ''protocol3'' ''udp'')]"

definition acceptable :: "string \<times> u16 \<times> string \<Rightarrow> bool" where
  "acceptable = (\<lambda>(host, p, prot). prot \<in> {''udp'', ''tcp''} \<and> GetIpAddressType host \<noteq> none)"

definition as_server :: "string \<times> u16 \<times> string \<Rightarrow> UpstreamServer" where
  "as_server = (\<lambda>(host, p, prot).
     \<lparr>hostIp = host, port = p, protocol = (if prot = ''udp'' then Udp else Tcp), protocolVersion = GetIpAddressType host\<rparr>)"

lemma addServer_Done_iff:
  "addServer host p prot c = Done c' \<longleftrightarrow>
     acceptable (host, p, prot) \<and> c' = c\<lparr>cfg_servers := cfg_servers c @ [as_server (host, p, prot)]\<rparr>"
  by (auto simp: addServer_def acceptable_def as_server_def Let_def)

lemma addServer_Throw: "addServer host p prot c = Throw e \<Longrightarrow> e \<in> range invalid_argument"
  by (auto simp: addServer_def Let_def split: if_splits)

lemma LoadConfiguration_Done:
  assumes "LoadConfiguration os fs ts (answering v) c = Done c'"
  shows "list_all acceptable (wanted v)" "cfg_servers c' = cfg_servers c @ map as_server (wanted v)"
    "cfg_dnsPort c' = word_of_int (number_setting v ''dnsPort'' DNS_PORT)"
  using assms
  by (auto simp: LoadConfiguration_def addFurther_def Let_def abind_Done_iff addServer_Done_iff wanted_def split: if_splits)

lemma LoadConfiguration_accepts:
  assumes "list_all acceptable (wanted v)"
  obtains c' where "LoadConfiguration os fs ts (answering v) c = Done c'"
proof -
  have "\<exists>c'. LoadConfiguration os fs ts (answering v) c = Done c'"
    using assms
    by (auto simp: LoadConfiguration_def addFurther_def Let_def abind_Done_iff addServer_Done_iff wanted_def split: if_splits)
  then show thesis using that by blast
qed

lemma LoadConfiguration_not_Undefined: "LoadConfiguration os fs ts (answering v) c \<noteq> Undefined u"
proof -
  have a: "addServer h p t c \<noteq> Undefined u" for h p t c
    by (auto simp: addServer_def Let_def)
  have b: "abind m f \<noteq> Undefined u" if "m \<noteq> Undefined u" "\<And>x. f x \<noteq> Undefined u" for m :: "'x attempt" and f :: "'x \<Rightarrow> 'y attempt"
    using that by (cases m) auto
  show ?thesis unfolding LoadConfiguration_def addFurther_def Let_def
    by (intro b a) (auto simp: a intro!: b)
qed

text \<open>
  C18. Loading the configuration. It returns exactly when every server that the configuration names has one of
  the two protocols and a host that is classified as an address; the servers are then the one to three named
  ones in their order, and the port is the configured number modulo \<open>65536\<close>. Otherwise the call throws
  \<open>std::invalid_argument\<close>.
\<close>

theorem configured_servers:
  "case LoadConfiguration os from_string to_string (answering v) c of
     Done c' \<Rightarrow> list_all acceptable (wanted v) \<and> length (wanted v) \<in> {1, 2, 3} \<and>
       cfg_servers c' = cfg_servers c @ map as_server (wanted v) \<and>
       uint (cfg_dnsPort c') = number_setting v ''dnsPort'' 53 mod 65536
   | Throw e \<Rightarrow> list_ex (\<lambda>w. \<not> acceptable w) (wanted v) \<and> e \<in> range invalid_argument
   | Undefined u \<Rightarrow> False"
proof (cases "LoadConfiguration os from_string to_string (answering v) c")
  case (Done c')
  from LoadConfiguration_Done [OF this] show ?thesis
    by (simp add: Done uint_word_of_int) (simp add: wanted_def)
next
  case (Throw e)
  then have "list_ex (\<lambda>w. \<not> acceptable w) (wanted v)"
    using LoadConfiguration_accepts [of v os from_string to_string c]
    by (force simp: list_ex_iff list_all_iff)
  moreover have "e \<in> range invalid_argument"
    using Throw unfolding LoadConfiguration_def addFurther_def Let_def
    by (auto simp: abind_Throw_iff addServer_Throw split: if_splits)
  ultimately show ?thesis by (simp add: Throw)
qed (use LoadConfiguration_not_Undefined in simp)

end
