(* ===== verification/Dns_Server.thy ===== *)
theory Dns_Server
  imports Dns_Packet Eth_Mappings Peer_Requests Shm_Rules In_Packet Config_Reader
begin

text \<open>
  \<^verbatim>\<open>include/dns/server.hpp\<close>, \<^verbatim>\<open>include/bookkeeping/server.hpp\<close> and \<^verbatim>\<open>src/dns/server.cpp\<close>: the server that
  ties the components together. Its sockets are event driven on one thread, so each handler runs to its
  end before the next: a handler is a function from the state to the state.

  An \<open>udp::endpoint\<close> is a value of the type parameter \<open>'ep\<close>; its port and address bytes are the fields
  \<open>env_port\<close> and \<open>env_address\<close> of the environment, with the time, the draws of the random number
  generator and the contents of uninitialised memory. \<open>sent\<close> is the sequence of \<open>send_to\<close> calls: the
  end point, whether on the IPv4 socket, and the datagram. Times, and the latency computed from them, are
  unbounded integers where the code has \<open>time_t\<close>. Logging is left out.
\<close>

section \<open>State\<close>

record 'ep UpstreamServerInfo =
  us_endpoint :: 'ep
  us_ipv4 :: bool
  us_address :: IpAddress
  displayAddress :: string
  us_port :: u16
  queries :: u32
  replies :: u32
  invalids :: u32
  nosources :: u32
  timedouts :: u32
  failed :: u32
  Latency :: int
  MMA :: int
  forwardtime :: int
  forwardcount :: u32

record 'ep DnsServer =
  peerRequests :: "'ep PeerRequests"
  ethmappings :: EthMappings
  recvBuffer4 :: PacketBuffer
  recvBuffer6 :: PacketBuffer
  servers :: "'ep UpstreamServerInfo list"
  ruleData :: RuleData
  dnsPort :: u16
  sent :: "('ep \<times> bool \<times> byte list) list"

record 'ep env =
  env_now :: int
  env_draw :: "nat \<Rightarrow> u16"
  env_port :: "'ep \<Rightarrow> u16"
  env_address :: "'ep \<Rightarrow> byte list"
  env_record :: "'ep PeerRequestRecord"
  env_source :: "'ep PeerSource"
  env_digest :: "byte list"
  env_union :: IpAddress

section \<open>Upstream servers\<close>

text \<open>
  \<open>make_endpoint v4 host port\<close> is \<open>make_address_v4\<close> or \<open>make_address_v6\<close> with \<open>udp::endpoint\<close>, \<open>None\<close>
  when they throw; \<open>to_ip\<close> is \<open>ToIpAddress\<close>, \<open>None\<close> for a result other than 1. The value of the function
  is \<open>None\<close> when the exception leaves it.
\<close>

fun initUpstreamServers ::
  "(bool \<Rightarrow> string \<Rightarrow> u16 \<Rightarrow> 'ep option) \<Rightarrow> (string \<Rightarrow> bool \<Rightarrow> IpAddress option) \<Rightarrow>
     UpstreamServer list \<Rightarrow> 'ep UpstreamServerInfo list option" where
  "initUpstreamServers make_endpoint to_ip [] = Some []"
| "initUpstreamServers make_endpoint to_ip (server # rest) =
     (if protocol server = Tcp then initUpstreamServers make_endpoint to_ip rest
      else
        let ipv4 = (protocolVersion server = Ipv4) in
        case make_endpoint ipv4 (hostIp server) (port server) of
          None \<Rightarrow> None
        | Some ep \<Rightarrow>
            (case to_ip (hostIp server) ipv4 of
               None \<Rightarrow> initUpstreamServers make_endpoint to_ip rest
             | Some a \<Rightarrow> map_option (Cons
                 \<lparr>us_endpoint = ep, us_ipv4 = ipv4, us_address = a, displayAddress = hostIp server, us_port = 0,
                  queries = 0, replies = 0, invalids = 0, nosources = 0, timedouts = 0, failed = 0,
                  Latency = 0, MMA = 0, forwardtime = 0, forwardcount = 0\<rparr>) (initUpstreamServers make_endpoint to_ip rest)))"

section \<open>Sending\<close>

definition sendPacket :: "DnsPacket \<Rightarrow> 'ep \<Rightarrow> bool \<Rightarrow> 'ep DnsServer \<Rightarrow> 'ep DnsServer outcome" where
  "sendPacket packet endpoint ipv4 s =
     (case DnsPacket_Write packet (wbuf [] MAX_PACKET_SZ) of
        Undef u \<Rightarrow> Undef u
      | Fail res \<Rightarrow> Ret s
      | Ret bb \<Rightarrow> Ret (s\<lparr>sent := sent s @ [(endpoint, ipv4, take (bb_pos bb) (bb_buf bb))]\<rparr>))"

section \<open>Responses made by the server\<close>

definition redirect_answer :: "IpAddress \<Rightarrow> DnsQuestion \<Rightarrow> DnsRecord \<Rightarrow> DnsRecord" where
  "redirect_answer tgt question answer =
     (let answer = (UpdateFromQuestion question answer)\<lparr>TTL := 3600\<rparr> in
      if Type question = QT_A then answer\<lparr>Len := 4, Addr := AddrIpv4 (ip_word tgt 0)\<rparr>
      else if Type question = QT_AAAA then
        answer\<lparr>Len := 16, Addr := AddrIpv6 (ip_word tgt 0) (ip_word tgt 1) (ip_word tgt 2) (ip_word tgt 3)\<rparr>
      else answer)"

definition updateRedirectResponse :: "IpAddress \<Rightarrow> DnsPacket \<Rightarrow> DnsPacket outcome" where
  "updateRedirectResponse tgt packet =
     obind (SetAsQueryResponse packet) (\<lambda>packet.
     obind (SetAsAuthoritativeAnswer True packet) (\<lambda>packet.
     obind (SetPacketRecursionAvailable True packet) (\<lambda>packet.
     SetAnswers (redirect_answer tgt) packet)))"

definition updateErrorResponse :: "byte \<Rightarrow> DnsPacket \<Rightarrow> DnsPacket outcome" where
  "updateErrorResponse errCode packet =
     obind (SetPacketResponseCode errCode packet) (\<lambda>packet.
     obind (SetAsQueryResponse packet) (\<lambda>packet.
     obind (SetAsAuthoritativeAnswer True packet) (\<lambda>packet.
     SetPacketRecursionAvailable True packet)))"

definition refuse :: "DnsPacket \<Rightarrow> 'ep \<Rightarrow> bool \<Rightarrow> 'ep DnsServer \<Rightarrow> 'ep DnsServer outcome" where
  "refuse packet endpoint ipv4 s =
     obind (SetPacketResponseCode 5 packet) (\<lambda>packet. sendPacket packet endpoint ipv4 s)"

section \<open>resolve\<close>

abbreviation (input) upd_requests ::
  "('ep PeerRequests \<Rightarrow> 'ep PeerRequests) \<Rightarrow> 'ep DnsServer \<Rightarrow> 'ep DnsServer" where
  "upd_requests f s \<equiv> s\<lparr>peerRequests := f (peerRequests s)\<rparr>"

definition addSource :: "DnsPacket \<Rightarrow> 'ep \<Rightarrow> bool \<Rightarrow> 'ep PeerSource \<Rightarrow> 'ep PeerSource outcome" where
  "addSource packet endpoint ipv4 src =
     obind (GetId packet) (\<lambda>i. Ret (src\<lparr>originalId := i, src_endpoint := endpoint, src_ipv4 := ipv4\<rparr>))"

text \<open>The loop over the upstream servers, from the \<open>k\<close>-th on, for the record at index \<open>r\<close>.\<close>

fun forward ::
  "nat \<Rightarrow> DnsPacket \<Rightarrow> nat \<Rightarrow> nat \<Rightarrow> 'ep DnsServer \<Rightarrow> 'ep DnsServer outcome" where
  "forward r packet k 0 s = Ret s"
| "forward r packet k (Suc n) s =
     (let s = upd_requests (\<lambda>p. put_record r ((requests p ! r)\<lparr>sentTo := Some k\<rparr>) p) s;
          server = servers s ! k;
          s = s\<lparr>servers := (servers s)[k := server\<lparr>queries := queries server + 1\<rparr>]\<rparr>
      in obind (sendPacket packet (us_endpoint server) (us_ipv4 server) s) (\<lambda>s. forward r packet (k + 1) n s))"

text \<open>A query that is in flight and has not timed out.\<close>

definition resolve_repeat ::
  "'ep env \<Rightarrow> nat \<Rightarrow> DnsPacket \<Rightarrow> 'ep \<Rightarrow> bool \<Rightarrow> 'ep DnsServer \<Rightarrow> 'ep DnsServer outcome" where
  "resolve_repeat e r packet endpoint ipv4 s =
     obind (GetId packet) (\<lambda>i.
     let rec = requests (peerRequests s) ! r in
     if list_ex (\<lambda>src. src_ipv4 src = ipv4 \<and> originalId src = i \<and> src_endpoint src = endpoint)
          (source rec # source_next rec) then
       (if env_now e - req_time rec < 2 then refuse packet endpoint ipv4 s else Ret s)
     else
       obind (GetNewPeerSource (env_source e) (env_now e) (peerRequests s)) (\<lambda>(src, p).
       let s = s\<lparr>peerRequests := p\<rparr> in
       case src of
         None \<Rightarrow> refuse packet endpoint ipv4 s
       | Some src \<Rightarrow>
           obind (addSource packet endpoint ipv4 src) (\<lambda>src.
           Ret (upd_requests (\<lambda>p. put_record r
             ((requests p ! r)\<lparr>source_next := src # source_next (requests p ! r)\<rparr>) p) s))))"

text \<open>A query that is not in flight: a record is made for it, or it is refused and \<open>None\<close> returned.\<close>

definition resolve_new ::
  "'ep env \<Rightarrow> byte list \<Rightarrow> DnsPacket \<Rightarrow> 'ep \<Rightarrow> bool \<Rightarrow> 'ep DnsServer \<Rightarrow>
     (nat option \<times> DnsPacket \<times> 'ep DnsServer) outcome" where
  "resolve_new e digest packet endpoint ipv4 s =
     (case GetNewRecord (env_record e) (env_now e) False (peerRequests s) of
        (None, p) \<Rightarrow>
          obind (refuse packet endpoint ipv4 (s\<lparr>peerRequests := p\<rparr>)) (\<lambda>s. Ret (None, packet, s))
      | (Some r, p) \<Rightarrow>
          obind (addSource packet endpoint ipv4 (source (requests p ! r))) (\<lambda>src.
          case GetNewId (env_draw e) (put_record r ((requests p ! r)\<lparr>source := src\<rparr>) p) of
            None \<Rightarrow> Undef NoReturn
          | Some (i, p) \<Rightarrow>
              obind (SetId i packet) (\<lambda>packet.
              Ret (Some r, packet, s\<lparr>peerRequests :=
                put_record r ((requests p ! r)\<lparr>newId := i, req_hash := digest, flags := 0\<rparr>) p\<rparr>))))"

definition resolve ::
  "'ep env \<Rightarrow> DnsPacket \<Rightarrow> 'ep \<Rightarrow> bool \<Rightarrow> 'ep DnsServer \<Rightarrow> 'ep DnsServer outcome" where
  "resolve e packet endpoint ipv4 s =
     (if servers s = [] then Ret s
      else
        obind (DnsPacket_Hash (env_digest e) packet) (\<lambda>digest.
        case LookupByQuery digest 0 7 (peerRequests s) of
          Some r \<Rightarrow>
            if \<not> HasTimedOut (requests (peerRequests s) ! r)
            then resolve_repeat e r packet endpoint ipv4 s
            else forward r packet 0 (length (servers s)) (upd_requests (FreePeerRequestRecord r) s)
        | None \<Rightarrow>
            obind (resolve_new e digest packet endpoint ipv4 s) (\<lambda>(r, packet, s).
            case r of None \<Rightarrow> Ret s | Some r \<Rightarrow> forward r packet 0 (length (servers s)) s)))"

text \<open>The callbacks of the rule engine.\<close>

definition DnsServer_Resolve ::
  "'ep env \<Rightarrow> DnsPacket \<Rightarrow> 'ep \<Rightarrow> bool \<Rightarrow> 'ep DnsServer \<Rightarrow> 'ep DnsServer outcome" where
  "DnsServer_Resolve e packet endpoint ipv4 s = resolve e packet endpoint ipv4 s"

definition DnsServer_Redirect ::
  "DnsPacket \<Rightarrow> 'ep \<Rightarrow> bool \<Rightarrow> IpAddress \<Rightarrow> 'ep DnsServer \<Rightarrow> 'ep DnsServer outcome" where
  "DnsServer_Redirect packet endpoint ipv4 tgt s =
     obind (updateRedirectResponse tgt packet) (\<lambda>packet. sendPacket packet endpoint ipv4 s)"

section \<open>Requests\<close>

definition client_address :: "'ep env \<Rightarrow> 'ep \<Rightarrow> bool \<Rightarrow> IpAddress" where
  "client_address e endpoint ipv4 =
     (if ipv4 then env_address e endpoint @ replicate 12 0 else env_address e endpoint)"

text \<open>What the rule engine sees of a request: the hardware address is zero when it is not known.\<close>

definition request_input :: "'ep env \<Rightarrow> 'ep \<Rightarrow> bool \<Rightarrow> 'ep DnsServer \<Rightarrow> Input" where
  "request_input e endpoint ipv4 s =
     (let ipaddr = client_address e endpoint ipv4;
          ethaddr = (case EthMappings_LookUp ipaddr ipv4 (ethmappings s) of
             None \<Rightarrow> replicate 6 0 | Some r \<Rightarrow> ethaddress r)
      in \<lparr>in_ipv4 = ipv4, in_ethaddr = ethaddr, in_ipaddr = ipaddr\<rparr>)"

definition processRequest ::
  "'ep env \<Rightarrow> DnsPacket \<Rightarrow> 'ep \<Rightarrow> bool \<Rightarrow> 'ep DnsServer \<Rightarrow> 'ep DnsServer outcome" where
  "processRequest e packet endpoint ipv4 s =
     (case DnsPacket_Validate IncomingRequest packet of
        Undef u \<Rightarrow> Undef u
      | Fail res \<Rightarrow> obind (updateErrorResponse (of_nat res) packet) (\<lambda>_. Ret s)
      | Ret _ \<Rightarrow>
          obind (Evaluate (request_input e endpoint ipv4 s) (ruleData s)) (\<lambda>d.
          case d of
            Do_Resolve \<Rightarrow> DnsServer_Resolve e packet endpoint ipv4 s
          | Do_Redirect tgt \<Rightarrow> DnsServer_Redirect packet endpoint ipv4 tgt s))"

section \<open>Responses of upstream servers\<close>

text \<open>Integer division of C++ rounds towards zero.\<close>

definition c_div :: "int \<Rightarrow> int \<Rightarrow> int" where
  "c_div a b = (if a < 0 then - ((- a) div b) else a div b)"

definition upd_server :: "nat \<Rightarrow> ('ep UpstreamServerInfo \<Rightarrow> 'ep UpstreamServerInfo) \<Rightarrow> 'ep DnsServer \<Rightarrow> 'ep DnsServer" where
  "upd_server k f s = s\<lparr>servers := (servers s)[k := f (servers s ! k)]\<rparr>"

definition update_latency :: "int \<Rightarrow> 'ep UpstreamServerInfo \<Rightarrow> 'ep UpstreamServerInfo" where
  "update_latency d server =
     (let server = (if Latency server = 0 then server\<lparr>MMA := d * 128\<rparr>
                    else server\<lparr>MMA := MMA server + d - Latency server\<rparr>)
      in server\<lparr>Latency := c_div (MMA server) 128\<rparr>)"

fun answer_sources ::
  "DnsPacket \<Rightarrow> 'ep PeerSource list \<Rightarrow> 'ep DnsServer \<Rightarrow> 'ep DnsServer outcome" where
  "answer_sources packet [] s = Ret s"
| "answer_sources packet (src # srcs) s =
     obind (SetId (originalId src) packet) (\<lambda>packet.
     obind (sendPacket packet (src_endpoint src) (src_ipv4 src) s) (\<lambda>s.
     answer_sources packet srcs s))"

definition processUpstreamResponse ::
  "'ep env \<Rightarrow> DnsPacket \<Rightarrow> 'ep \<Rightarrow> 'ep DnsServer \<Rightarrow> 'ep DnsServer outcome" where
  "processUpstreamResponse e packet endpoint s =
     (case find_index (\<lambda>server. us_endpoint server = endpoint) (servers s) of
        None \<Rightarrow> Ret s
      | Some k \<Rightarrow>
          (case DnsPacket_Validate IncomingResponse packet of
             Undef u \<Rightarrow> Undef u
           | Fail res \<Rightarrow> Ret (upd_server k (\<lambda>server. server\<lparr>invalids := invalids server + 1\<rparr>) s)
           | Ret _ \<Rightarrow>
               obind (DnsPacket_Hash (env_digest e) packet) (\<lambda>digest.
               obind (GetId packet) (\<lambda>i.
               case Lookup i digest (peerRequests s) of
                 None \<Rightarrow> Ret (upd_server k (\<lambda>server. server\<lparr>nosources := nosources server + 1\<rparr>) s)
               | Some r \<Rightarrow>
                   obind (GetPacketResponseCode packet) (\<lambda>responseCode.
                   let rec = requests (peerRequests s) ! r;
                       s = (if responseCode \<noteq> 0
                            then upd_server k (\<lambda>server. server\<lparr>failed := failed server + 1\<rparr>) s else s);
                       s = upd_server k (update_latency (env_now e - forwardTimestamp rec)) s
                   in obind (SetPacketRecursionAvailable True packet) (\<lambda>packet.
                      obind (answer_sources packet (source rec # source_next rec) s) (\<lambda>s.
                      Ret (upd_requests (FreePeerRequestRecord r) s))))))))"

section \<open>Receiving\<close>

text \<open>
  \<open>sizeof(DnsHeader)\<close> on x86-64: the pointer to the virtual table, twelve bytes of members, and padding
  to a multiple of eight.
\<close>

abbreviation (input) sizeof_DnsHeader :: nat where "sizeof_DnsHeader \<equiv> 24"

text \<open>
  A packet that cannot be read is given an error code in its own object and dropped; no reply is sent.
  The \<open>n\<close> bytes received overwrite the start of the buffer's array; \<open>pos\<close> and \<open>size\<close> are set later. They are
  the bytes that the receive call delivers, which are at most as many as the array has.
\<close>

definition load_buffer :: "byte list \<Rightarrow> PacketBuffer \<Rightarrow> PacketBuffer" where
  "load_buffer bs bb = bb\<lparr>bb_buf := bs @ drop (length bs) (bb_buf bb)\<rparr>"

definition store_buffer :: "bool \<Rightarrow> PacketBuffer \<Rightarrow> 'ep DnsServer \<Rightarrow> 'ep DnsServer" where
  "store_buffer ipv4 bb s = (if ipv4 then s\<lparr>recvBuffer4 := bb\<rparr> else s\<lparr>recvBuffer6 := bb\<rparr>)"

definition receive ::
  "'ep env \<Rightarrow> byte list \<Rightarrow> 'ep \<Rightarrow> bool \<Rightarrow> 'ep DnsServer \<Rightarrow> 'ep DnsServer outcome" where
  "receive e bs endpoint ipv4 s =
     (let bpb = load_buffer bs (if ipv4 then recvBuffer4 s else recvBuffer6 s);
          s = store_buffer ipv4 bpb s
      in if length bs < sizeof_DnsHeader then Ret s
      else if env_port e endpoint = 0 then Ret s
      else
        let bpb = bpb\<lparr>bb_pos := 0, bb_size := length bs\<rparr>;
            s = store_buffer ipv4 bpb s
        in (case DnsPacket_Read bpb of
           Undef u \<Rightarrow> Undef u
         | Fail res \<Rightarrow> Ret s
         | Ret (packet, bpb) \<Rightarrow>
             let s = store_buffer ipv4 bpb s in
             obind (IsRequest packet) (\<lambda>request.
             if request then processRequest e packet endpoint ipv4 s
             else processUpstreamResponse e packet endpoint s)))"

text \<open>
  A raw frame. Its buffer is as long as the largest frame; the family passed on is always IPv4.
\<close>

definition receiveRawData ::
  "'ep env \<Rightarrow> PacketBuffer \<Rightarrow> bool \<Rightarrow> 'ep DnsServer \<Rightarrow> 'ep DnsServer outcome" where
  "receiveRawData e bpb ipv4 s =
     (case InPacket_Read (env_union e) bpb of
        Undef u \<Rightarrow> Undef u
      | Fail res \<Rightarrow> Ret s
      | Ret (ipacket, bpb) \<Rightarrow>
          if DestinationPort ipacket \<noteq> dnsPort s then Ret s
          else if bb_pos bpb + 2 > bb_size bpb then Ret s
          else
            obind (PEEK_BYTE bpb 2) (\<lambda>b.
            if b AND 0x80 \<noteq> 0 then Ret s
            else Ret (s\<lparr>ethmappings :=
              snd (EthMappings_Add (env_now e) (EthSource ipacket) ipv4 (IpSource ipacket) (ethmappings s))\<rparr>)))"

definition receive_raw :: "'ep env \<Rightarrow> PacketBuffer \<Rightarrow> 'ep DnsServer \<Rightarrow> 'ep DnsServer outcome" where
  "receive_raw e bpb s = receiveRawData e (bpb\<lparr>bb_pos := 0, bb_udp := 0\<rparr>) True s"

section \<open>Events and reachable states\<close>

text \<open>
  A datagram from an end point on one of the two sockets, a raw frame, or an operation of the rule tool
  on the shared memory; the last runs in another process, between two handlers.
\<close>

datatype 'ep event = Datagram "byte list" 'ep bool | Frame PacketBuffer | RuleTool rule_cmd

fun handle :: "'ep env \<Rightarrow> 'ep event \<Rightarrow> 'ep DnsServer \<Rightarrow> 'ep DnsServer outcome" where
  "handle e (Datagram bs endpoint ipv4) s = receive e bs endpoint ipv4 s"
| "handle e (Frame bpb) s = receive_raw e bpb s"
| "handle e (RuleTool c) s = obind (rule_step c (ruleData s)) (\<lambda>(b, d). Ret (s\<lparr>ruleData := d\<rparr>))"

text \<open>A record that is not in use has no chain of further sources.\<close>

definition tidy :: "'ep PeerRequests \<Rightarrow> bool" where
  "tidy p \<longleftrightarrow> list_all (\<lambda>r. sentTo r = None \<longrightarrow> source_next r = []) (requests p)"

definition server_inv :: "'ep DnsServer \<Rightarrow> bool" where
  "server_inv s \<longleftrightarrow> requests_inv (peerRequests s) \<and> tidy (peerRequests s) \<and> mappings_inv (ethmappings s)"

text \<open>The states reached from \<open>s0\<close> by events whose handlers have a defined behaviour.\<close>

inductive reachable :: "'ep DnsServer \<Rightarrow> 'ep DnsServer \<Rightarrow> bool" for s0 where
  reach_start: "reachable s0 s0"
| reach_step: "reachable s0 s \<Longrightarrow> length (env_digest e) = 64 \<Longrightarrow> ip_ok (env_union e) \<Longrightarrow>
    handle e ev s = Ret s' \<Longrightarrow> reachable s0 s'"

section \<open>Lemmas\<close>

subsection \<open>Updates of the request table\<close>

lemma inflight_same_key:
  assumes "r < length rs" and "sentTo (rs ! r) \<noteq> None" and "sentTo y \<noteq> None" and "f y = f (rs ! r)"
  shows "map f (inflight (rs[r := y])) = map f (inflight rs)"
  using assms by (induction rs arbitrary: r) (auto split: nat.splits simp: nth_Cons')

lemma requests_inv_same_key:
  assumes "requests_inv p" and "r < length (requests p)" and "sentTo (requests p ! r) \<noteq> None"
    and "sentTo y \<noteq> None" and "newId y = newId (requests p ! r)" and "req_hash y = req_hash (requests p ! r)"
    and "flags y = 0"
  shows "requests_inv (put_record r y p)"
proof -
  have "set (inflight ((requests p)[r := y])) \<subseteq> insert y (set (inflight (requests p)))"
    using set_update_subset_insert [of "requests p" r y] by (auto simp: set_inflight)
  with assms show ?thesis
    by (auto simp: requests_inv_def put_record_def inflight_same_key list_all_iff)
qed

lemma requests_inv_requests:
  "requests p = requests q \<Longrightarrow> requests_inv p = requests_inv q"
  by (simp add: requests_inv_def)

lemma put_record_sel [simp]: "requests (put_record r y p) = (requests p)[r := y]"
  by (simp add: put_record_def)

lemma Free_requests [simp]:
  "requests (FreePeerRequestRecord r p) = (requests p)[r := free_record (requests p ! r)]"
  by (simp add: FreePeerRequestRecord_def)

lemma tidy_requests: "requests p = requests q \<Longrightarrow> tidy p = tidy q"
  by (simp add: tidy_def)

lemma list_all_update: "list_all P xs \<Longrightarrow> P x \<Longrightarrow> list_all P (xs[i := x])"
  using set_update_subset_insert [of xs i x] by (auto simp: list_all_iff)

lemma tidy_put: "tidy p \<Longrightarrow> (sentTo y = None \<Longrightarrow> source_next y = []) \<Longrightarrow> tidy (put_record r y p)"
  by (simp add: tidy_def list_all_update)

lemma tidy_free: "tidy p \<Longrightarrow> tidy (FreePeerRequestRecord r p)"
  by (simp add: tidy_def list_all_update)

lemma tidy_expire: "tidy p \<Longrightarrow> list_all (\<lambda>r. sentTo r = None \<longrightarrow> source_next r = []) (map (expire now) (requests p))"
  by (auto simp: tidy_def list_all_iff expire_def)

lemma tidy_GetNewRecord:
  assumes "GetNewRecord fresh now force p = (r, p')" and "tidy p"
  shows "tidy p'"
proof (cases r)
  case None
  with assms GetNewRecord_None(1) [of fresh now force p p'] tidy_expire [OF assms(2), of now] show ?thesis
    by (simp add: tidy_def)
next
  case (Some i)
  note ex = tidy_expire [OF assms(2), of now]
  have keep: "tidy p'" if "requests p' = (map (expire now) (requests p))[i := y]" "source_next y = []" for y
    using that ex by (simp add: tidy_def list_all_update)
  from assms(1) [unfolded Some] show ?thesis
  proof (cases rule: GetNewRecord_cases)
    case target
    with ex have "source_next (expire now (requests p ! i)) = []" by (auto simp: list_all_length)
    then have "source_next ((expire now (requests p ! i))\<lparr>req_time := now\<rparr>) = []" by simp
    with target(3) show ?thesis by (rule keep)
  next
    case oldest
    from oldest(4) show ?thesis by (rule keep) simp
  next
    case new
    with ex show ?thesis by (simp add: tidy_def fresh_record_def)
  qed
qed

subsection \<open>Sending\<close>

lemma sendPacket_Ret:
  assumes "sendPacket packet ep v s = Ret s'"
  shows "\<exists>bs. s' = s\<lparr>sent := sent s @ bs\<rparr>"
proof -
  have "\<exists>bs. s = s\<lparr>sent := sent s @ bs\<rparr>" by (rule exI [of _ "[]"]) simp
  with assms show ?thesis by (cases "DnsPacket_Write packet (wbuf [] MAX_PACKET_SZ)") (auto simp: sendPacket_def)
qed

lemma sendPacket_ok:
  assumes "packet_ok packet" and "length (packet_bytes packet) < MAX_PACKET_SZ"
  shows "sendPacket packet ep v s = Ret (s\<lparr>sent := sent s @ [(ep, v, packet_bytes packet)]\<rparr>)"
  using packet_codec.wr_wbuf [OF assms, of "[]"] by (simp add: sendPacket_def wbuf_def)

text \<open>The end points of the upstream servers, which never change.\<close>

definition endpoints :: "'ep DnsServer \<Rightarrow> 'ep list" where
  "endpoints s = map us_endpoint (servers s)"

lemma map_update_same: "f y = f (xs ! k) \<Longrightarrow> map f (xs[k := y]) = map f xs"
  by (cases "k < length xs") (simp_all add: map_update list_update_same_conv list_update_beyond)

text \<open>A handler that leaves the tables alone.\<close>

definition same_tables :: "'ep DnsServer \<Rightarrow> 'ep DnsServer \<Rightarrow> bool" where
  "same_tables s t \<longleftrightarrow> requests (peerRequests t) = requests (peerRequests s) \<and>
     ethmappings t = ethmappings s \<and> ruleData t = ruleData s \<and> endpoints t = endpoints s"

lemma same_tables_refl [simp]: "same_tables s s"
  by (simp add: same_tables_def)

lemma same_tables_trans: "same_tables s t \<Longrightarrow> same_tables t u \<Longrightarrow> same_tables s u"
  by (simp add: same_tables_def)

lemma same_tables_inv: "same_tables s t \<Longrightarrow> server_inv s \<Longrightarrow> server_inv t"
  using requests_inv_requests tidy_requests by (auto simp: same_tables_def server_inv_def)

lemma same_tables_send: "sendPacket packet ep v s = Ret s' \<Longrightarrow> same_tables s s'"
  by (auto dest!: sendPacket_Ret simp: same_tables_def endpoints_def)

lemma same_tables_refuse: "refuse packet ep v s = Ret s' \<Longrightarrow> same_tables s s'"
  by (auto simp: refuse_def outcome_simps dest: same_tables_send)

lemma same_tables_answer: "answer_sources packet srcs s = Ret s' \<Longrightarrow> same_tables s s'"
proof (induction srcs arbitrary: packet s)
  case (Cons src srcs)
  then show ?case by (auto simp: outcome_simps dest!: same_tables_send) (blast intro: same_tables_trans)
qed simp

subsection \<open>Forwarding\<close>

lemma forward_tables:
  assumes "forward r packet k n s = Ret s'" and "r < length (requests (peerRequests s))"
  shows "ethmappings s' = ethmappings s \<and> ruleData s' = ruleData s \<and> endpoints s' = endpoints s \<and>
     requests (peerRequests s') = (if n = 0 then requests (peerRequests s)
       else (requests (peerRequests s))[r := (requests (peerRequests s) ! r)\<lparr>sentTo := Some (k + n - 1)\<rparr>])"
  using assms
proof (induction n arbitrary: k s)
  case (Suc n)
  let ?s = "upd_requests (\<lambda>p. put_record r ((requests p ! r)\<lparr>sentTo := Some k\<rparr>) p) s"
  let ?t = "?s\<lparr>servers := (servers ?s)[k := (servers ?s ! k)\<lparr>queries := queries (servers ?s ! k) + 1\<rparr>]\<rparr>"
  from Suc.prems(1) obtain u where send: "sendPacket packet (us_endpoint (servers s ! k)) (us_ipv4 (servers s ! k)) ?t = Ret u"
    and fwd: "forward r packet (k + 1) n u = Ret s'"
    by (auto simp: Let_def outcome_simps)
  from same_tables_send [OF send] have "requests (peerRequests u) =
      (requests (peerRequests s))[r := (requests (peerRequests s) ! r)\<lparr>sentTo := Some k\<rparr>]"
    "ethmappings u = ethmappings s" "ruleData u = ruleData s" "endpoints u = endpoints s"
    by (simp_all add: same_tables_def endpoints_def map_update_same)
  with Suc.IH [OF fwd] Suc.prems(2) show ?case by auto
qed simp

subsection \<open>resolve keeps the invariant\<close>

lemma handleMax_requests [simp]: "requests (handleMaxFwdQueries now p) = requests p"
  by (simp add: handleMaxFwdQueries_def)

lemma resolve_repeat_cases:
  assumes "resolve_repeat e r packet endpoint ipv4 s = Ret s'"
  shows "s' = s \<or> refuse packet endpoint ipv4 s = Ret s' \<or>
     refuse packet endpoint ipv4 (s\<lparr>peerRequests := handleMaxFwdQueries (env_now e) (peerRequests s)\<rparr>) = Ret s'"
proof -
  from assms obtain i where "GetId packet = Ret i" by (auto simp: resolve_repeat_def outcome_simps)
  with assms show ?thesis
    by (simp add: resolve_repeat_def Let_def GetNewPeerSource_eq split: if_splits)
qed

lemma resolve_repeat_tables:
  assumes "resolve_repeat e r packet endpoint ipv4 s = Ret s'"
  shows "same_tables s s'"
proof -
  have st: "same_tables s (s\<lparr>peerRequests := handleMaxFwdQueries (env_now e) (peerRequests s)\<rparr>)"
    by (simp add: same_tables_def endpoints_def)
  from resolve_repeat_cases [OF assms] show ?thesis
    by (elim disjE) (simp_all add: same_tables_refuse same_tables_trans [OF st same_tables_refuse])
qed

lemma LookupByQuery_None:
  assumes "requests_inv p" and "LookupByQuery h 0 m p = None"
  shows "h \<notin> req_hash ` set (inflight (requests p))"
  using assms by (auto simp: LookupByQuery_def requests_inv_def set_inflight list_all_iff)

lemma LookupByQuery_Some:
  assumes "requests_inv p" and "LookupByQuery h 0 m p = Some r"
  shows "r < length (requests p)" and "sentTo (requests p ! r) \<noteq> None" and "req_hash (requests p ! r) = h"
  using assms by (auto simp: LookupByQuery_def dest!: find_index_Some)

lemma resolve_new_SomeE:
  assumes "resolve_new e digest packet endpoint ipv4 s = Ret (Some r, packet', s')"
  obtains p src i q where
    "GetNewRecord (env_record e) (env_now e) False (peerRequests s) = (Some r, p)"
    "addSource packet endpoint ipv4 (source (requests p ! r)) = Ret src"
    "GetNewId (env_draw e) (put_record r ((requests p ! r)\<lparr>source := src\<rparr>) p) = Some (i, q)"
    "SetId i packet = Ret packet'"
    "s' = s\<lparr>peerRequests := put_record r ((requests q ! r)\<lparr>newId := i, req_hash := digest, flags := 0\<rparr>) q\<rparr>"
proof -
  obtain ro p where g: "GetNewRecord (env_record e) (env_now e) False (peerRequests s) = (ro, p)" by fastforce
  show thesis
  proof (cases ro)
    case None
    with assms g show thesis by (simp add: resolve_new_def obind_Ret_iff)
  next
    case (Some r')
    with assms g obtain src where src: "addSource packet endpoint ipv4 (source (requests p ! r')) = Ret src"
      by (auto simp: resolve_new_def obind_Ret_iff)
    show thesis
    proof (cases "GetNewId (env_draw e) (put_record r' ((requests p ! r')\<lparr>source := src\<rparr>) p)")
      case None
      with assms g Some src show thesis by (simp add: resolve_new_def)
    next
      case id: (Some iq)
      obtain i q where iq: "iq = (i, q)" by fastforce
      from assms g Some src id iq have "obind (SetId i packet) (\<lambda>packet. Ret (Some r', packet, s\<lparr>peerRequests :=
          put_record r' ((requests q ! r')\<lparr>newId := i, req_hash := digest, flags := 0\<rparr>) q\<rparr>)) = Ret (Some r, packet', s')"
        by (simp add: resolve_new_def)
      then obtain k where "SetId i packet = Ret k" "r' = r" "k = packet'"
        "s' = s\<lparr>peerRequests := put_record r' ((requests q ! r')\<lparr>newId := i, req_hash := digest, flags := 0\<rparr>) q\<rparr>"
        unfolding obind_Ret_iff by auto
      with g Some src id iq show thesis by (intro that) auto
    qed
  qed
qed

text \<open>The record that \<open>resolve_new\<close> prepares: it is not in flight yet, and may be.\<close>

lemma resolve_new_Some:
  assumes "resolve_new e digest packet endpoint ipv4 s = Ret (Some r, packet', s')"
    and "requests_inv (peerRequests s)" and "LookupByQuery digest 0 m (peerRequests s) = None"
  shows "requests_inv (peerRequests s')" and "free_slot (peerRequests s') r"
    and "admissible (peerRequests s') ((requests (peerRequests s') ! r)\<lparr>sentTo := Some k\<rparr>)"
    and "req_hash (requests (peerRequests s') ! r) = digest"
    and "SetId (newId (requests (peerRequests s') ! r)) packet = Ret packet'"
    and "\<exists>i. GetId packet = Ret i \<and> source (requests (peerRequests s') ! r) =
           (source (requests (peerRequests s') ! r))\<lparr>originalId := i, src_endpoint := endpoint, src_ipv4 := ipv4\<rparr>"
    and "same_tables (s\<lparr>peerRequests := peerRequests s'\<rparr>) s'" and "sent s' = sent s" and "servers s' = servers s"
    and "req_time (requests (peerRequests s') ! r) = env_now e"
    and "recent (env_now e) (requests (peerRequests s')) = recent (env_now e) (requests (peerRequests s))"
    and "tidy (peerRequests s) \<Longrightarrow> tidy (peerRequests s')"
proof -
  from resolve_new_SomeE [OF assms(1)] obtain p src i q where
    new: "GetNewRecord (env_record e) (env_now e) False (peerRequests s) = (Some r, p)"
    and src: "addSource packet endpoint ipv4 (source (requests p ! r)) = Ret src"
    and i: "GetNewId (env_draw e) (put_record r ((requests p ! r)\<lparr>source := src\<rparr>) p) = Some (i, q)"
    and set: "SetId i packet = Ret packet'"
    and s': "s' = s\<lparr>peerRequests := put_record r ((requests q ! r)\<lparr>newId := i, req_hash := digest, flags := 0\<rparr>) q\<rparr>" .
  note slot = GetNewRecord_Some [OF new]
  from slot(1) have r: "r < length (requests p)" "sentTo (requests p ! r) = None" by (auto simp: free_slot_def)
  from GetNewId_Some [OF i] have q: "requests q = (requests p)[r := (requests p ! r)\<lparr>source := src\<rparr>]"
    and fresh: "i \<notin> newId ` set (inflight (requests q))" by simp_all
  have infl: "inflight (requests (peerRequests s')) = inflight (requests p)" "inflight (requests q) = inflight (requests p)"
    using r by (simp_all add: s' q inflight_same)
  have digest: "digest \<notin> req_hash ` set (inflight (requests p))"
    using LookupByQuery_None [OF assms(2,3)] subseqD [OF slot(3)] by auto
  have ds: "requests (peerRequests s') ! r = (requests p ! r)\<lparr>source := src, newId := i, req_hash := digest, flags := 0\<rparr>"
    using r by (simp add: s' q)
  show "requests_inv (peerRequests s')"
    using requests_inv_subseq [OF assms(2), of "peerRequests s'"] slot(3) infl by simp
  show "free_slot (peerRequests s') r" using r by (simp add: free_slot_def s' q)
  show "admissible (peerRequests s') ((requests (peerRequests s') ! r)\<lparr>sentTo := Some k\<rparr>)"
    using fresh digest infl by (simp add: admissible_def ds)
  show "req_hash (requests (peerRequests s') ! r) = digest" "SetId (newId (requests (peerRequests s') ! r)) packet = Ret packet'"
    using set by (simp_all add: ds)
  show "\<exists>i. GetId packet = Ret i \<and> source (requests (peerRequests s') ! r) =
      (source (requests (peerRequests s') ! r))\<lparr>originalId := i, src_endpoint := endpoint, src_ipv4 := ipv4\<rparr>"
    using src by (auto simp: addSource_def outcome_simps ds)
  show "same_tables (s\<lparr>peerRequests := peerRequests s'\<rparr>) s'" "sent s' = sent s" "servers s' = servers s"
    by (simp_all add: s' same_tables_def endpoints_def)
  show "req_time (requests (peerRequests s') ! r) = env_now e" using slot(2) by (simp add: ds)
  show "recent (env_now e) (requests (peerRequests s')) = recent (env_now e) (requests (peerRequests s))"
    using GetNewRecord_recent [OF new] infl(1) by (simp add: recent_def)
  assume "tidy (peerRequests s)"
  from tidy_GetNewRecord [OF new this] r q show "tidy (peerRequests s')"
    by (auto simp: s' tidy_def list_all_length nth_list_update)
qed

text \<open>What \<open>resolve\<close> does to the tables.\<close>

lemma forward_same:
  assumes "forward r packet 0 (length (servers s)) s = Ret s'" and "r < length (requests (peerRequests s))" and "servers s \<noteq> []"
  shows "same_tables (upd_requests (\<lambda>p. put_record r ((requests p ! r)\<lparr>sentTo := Some (length (servers s) - 1)\<rparr>) p) s) s'"
  using forward_tables [OF assms(1,2)] assms(3) by (simp add: same_tables_def endpoints_def)

lemma resolve_cases:
  assumes res: "resolve e packet endpoint ipv4 s = Ret s'" and inv: "requests_inv (peerRequests s)"
  obtains (same) "same_tables s s'"
  | (refused) q where "GetNewRecord (env_record e) (env_now e) False (peerRequests s) = (None, q)"
      "same_tables (s\<lparr>peerRequests := q\<rparr>) s'"
  | (again) digest r where "DnsPacket_Hash (env_digest e) packet = Ret digest"
      "LookupByQuery digest 0 7 (peerRequests s) = Some r"
      "same_tables (upd_requests (put_record r ((free_record (requests (peerRequests s) ! r))
         \<lparr>sentTo := Some (length (servers s) - 1)\<rparr>)) s) s'"
  | (new) digest r packet' t where "DnsPacket_Hash (env_digest e) packet = Ret digest"
      "LookupByQuery digest 0 7 (peerRequests s) = None"
      "resolve_new e digest packet endpoint ipv4 s = Ret (Some r, packet', t)"
      "same_tables (s\<lparr>peerRequests := put_record r ((requests (peerRequests t) ! r)
         \<lparr>sentTo := Some (length (servers s) - 1)\<rparr>) (peerRequests t)\<rparr>) s'"
proof (cases "servers s = []")
  case True
  with res show thesis by (intro same) (simp add: resolve_def)
next
  case srv: False
  with res obtain digest where h: "DnsPacket_Hash (env_digest e) packet = Ret digest"
    by (auto simp: resolve_def outcome_simps)
  show thesis
  proof (cases "LookupByQuery digest 0 7 (peerRequests s)")
    case None
    with srv res h obtain ro packet' t where rn: "resolve_new e digest packet endpoint ipv4 s = Ret (ro, packet', t)"
      and s': "(case ro of None \<Rightarrow> Ret t | Some r \<Rightarrow> forward r packet' 0 (length (servers t)) t) = Ret s'"
      by (auto simp: resolve_def outcome_simps)
    show thesis
    proof (cases ro)
      case None
      obtain go q where g: "GetNewRecord (env_record e) (env_now e) False (peerRequests s) = (go, q)" by fastforce
      from rn None g s' have "go = None" "refuse packet endpoint ipv4 (s\<lparr>peerRequests := q\<rparr>) = Ret s'"
        by (cases go; auto simp: resolve_new_def outcome_simps split: option.splits)+
      with g same_tables_refuse show thesis by (intro refused) auto
    next
      case (Some r)
      note n = resolve_new_Some [OF rn [unfolded Some] inv None]
      from s' Some have fwd: "forward r packet' 0 (length (servers t)) t = Ret s'" by simp
      from n(2,9) srv have "r < length (requests (peerRequests t))" "servers t \<noteq> []" by (auto simp: free_slot_def)
      from forward_same [OF fwd this] n(7,9) have "same_tables (s\<lparr>peerRequests := put_record r
          ((requests (peerRequests t) ! r)\<lparr>sentTo := Some (length (servers s) - 1)\<rparr>) (peerRequests t)\<rparr>) s'"
        by (simp add: same_tables_def endpoints_def)
      with h None rn Some show thesis by (intro new) auto
    qed
  next
    case (Some r)
    note l = LookupByQuery_Some [OF inv Some]
    show thesis
    proof (cases "HasTimedOut (requests (peerRequests s) ! r)")
      case True
      let ?t = "upd_requests (FreePeerRequestRecord r) s"
      from True srv res h Some have "forward r packet 0 (length (servers ?t)) ?t = Ret s'"
        by (simp add: resolve_def)
      from forward_same [OF this] l(1) srv show thesis
        by (intro again [OF h Some]) (simp add: same_tables_def endpoints_def)
    next
      case False
      with srv res h Some have "resolve_repeat e r packet endpoint ipv4 s = Ret s'" by (simp add: resolve_def)
      then show thesis by (intro same resolve_repeat_tables)
    qed
  qed
qed

lemma resolve_inv:
  assumes "resolve e packet endpoint ipv4 s = Ret s'" and "server_inv s"
  shows "server_inv s'"
proof -
  from assms(2) have inv: "requests_inv (peerRequests s)" "mappings_inv (ethmappings s)" "tidy (peerRequests s)"
    by (auto simp: server_inv_def)
  from assms(1) inv(1) show ?thesis
  proof (cases rule: resolve_cases)
    case same
    then show ?thesis using assms(2) by (rule same_tables_inv)
  next
    case (refused q)
    have "server_inv (s\<lparr>peerRequests := q\<rparr>)"
      using peer.alloc_inv [of "peerRequests s" "(env_record e, env_now e, False)"] tidy_GetNewRecord [OF refused(1)]
        refused(1) inv by (simp add: server_inv_def)
    with refused(2) show ?thesis by (rule same_tables_inv)
  next
    case (again digest r)
    note l = LookupByQuery_Some [OF inv(1) again(2)]
    have "server_inv (upd_requests (put_record r ((free_record (requests (peerRequests s) ! r))
        \<lparr>sentTo := Some (length (servers s) - 1)\<rparr>)) s)"
      using requests_inv_same_key [OF inv(1)] tidy_put [OF inv(3)] l inv(2)
      by (simp add: server_inv_def free_record_def)
    with again(3) show ?thesis by (rule same_tables_inv)
  next
    case (new digest r packet' t)
    note n = resolve_new_Some [OF new(3) inv(1) new(2)]
    have "server_inv (s\<lparr>peerRequests := put_record r ((requests (peerRequests t) ! r)
        \<lparr>sentTo := Some (length (servers s) - 1)\<rparr>) (peerRequests t)\<rparr>)"
      using put_record_inv(1) [OF n(1-3)] tidy_put [OF n(12) [OF inv(3)], of "_\<lparr>sentTo := Some _\<rparr>"] inv(2)
      by (simp add: server_inv_def)
    with new(4) show ?thesis by (rule same_tables_inv)
  qed
qed

subsection \<open>The handlers keep the invariant\<close>

lemma same_tables_upd_server:
  "us_endpoint (f (servers s ! k)) = us_endpoint (servers s ! k) \<Longrightarrow> same_tables s (upd_server k f s)"
  by (simp add: same_tables_def upd_server_def endpoints_def map_update_same)

lemma upd_server_sel [simp]: "sent (upd_server k f s) = sent s" "peerRequests (upd_server k f s) = peerRequests s"
  by (simp_all add: upd_server_def)

lemma us_endpoint_latency [simp]: "us_endpoint (update_latency d server) = us_endpoint server"
  by (simp add: update_latency_def Let_def)

lemma Redirect_tables: "DnsServer_Redirect packet endpoint ipv4 tgt s = Ret s' \<Longrightarrow> same_tables s s'"
  by (auto simp: DnsServer_Redirect_def outcome_simps dest: same_tables_send)

lemma processRequest_inv:
  assumes "processRequest e packet endpoint ipv4 s = Ret s'" and "server_inv s"
  shows "server_inv s'"
proof (cases "DnsPacket_Validate IncomingRequest packet")
  case (Ret u)
  with assms(1) obtain d where d: "(case d of Do_Resolve \<Rightarrow> DnsServer_Resolve e packet endpoint ipv4 s
      | Do_Redirect tgt \<Rightarrow> DnsServer_Redirect packet endpoint ipv4 tgt s) = Ret s'"
    unfolding processRequest_def Let_def by (auto simp: obind_Ret_iff)
  then show ?thesis
    using resolve_inv [OF _ assms(2)] same_tables_inv [OF Redirect_tables assms(2)]
    by (cases d) (auto simp: DnsServer_Resolve_def)
qed (use assms in \<open>auto simp: processRequest_def obind_Ret_iff\<close>)

text \<open>What a reply from an upstream server can do.\<close>

lemma processUpstreamResponse_cases:
  assumes "processUpstreamResponse e packet endpoint s = Ret s'"
  obtains (dropped) "same_tables s s'" "sent s' = sent s"
  | (answered) k digest i r packet' t where "k < length (servers s)" "us_endpoint (servers s ! k) = endpoint"
      "DnsPacket_Hash (env_digest e) packet = Ret digest" "GetId packet = Ret i"
      "Lookup i digest (peerRequests s) = Some r" "SetPacketRecursionAvailable True packet = Ret packet'"
      "same_tables s t" "sent t = sent s"
      "obind (answer_sources packet' (source (requests (peerRequests s) ! r) #
         source_next (requests (peerRequests s) ! r)) t) (\<lambda>s. Ret (upd_requests (FreePeerRequestRecord r) s)) = Ret s'"
proof (cases "find_index (\<lambda>server. us_endpoint server = endpoint) (servers s)")
  case None
  with assms show thesis by (intro dropped) (auto simp: processUpstreamResponse_def)
next
  case (Some k)
  note k = find_index_Some [OF Some]
  show thesis
  proof (cases "DnsPacket_Validate IncomingResponse packet")
    case (Ret v)
    with Some assms obtain digest i where h: "DnsPacket_Hash (env_digest e) packet = Ret digest" "GetId packet = Ret i"
      by (auto simp: processUpstreamResponse_def obind_Ret_iff)
    show thesis
    proof (cases "Lookup i digest (peerRequests s)")
      case None
      with Some Ret h assms show thesis by (intro dropped) (auto simp: processUpstreamResponse_def same_tables_upd_server) 
    next
      case r: (Some r)
      let ?rec = "requests (peerRequests s) ! r"
      from Some Ret h r assms obtain rc packet' where rc: "GetPacketResponseCode packet = Ret rc"
        "SetPacketRecursionAvailable True packet = Ret packet'"
        by (auto simp: processUpstreamResponse_def obind_Ret_iff Let_def)
      define t0 where "t0 = (if rc \<noteq> 0 then upd_server k (\<lambda>server. server\<lparr>failed := failed server + 1\<rparr>) s else s)"
      define t where "t = upd_server k (update_latency (env_now e - forwardTimestamp ?rec)) t0"
      have "obind (answer_sources packet' (source ?rec # source_next ?rec) t)
          (\<lambda>s. Ret (upd_requests (FreePeerRequestRecord r) s)) = Ret s'"
        using assms by (simp add: processUpstreamResponse_def Some Ret h r rc Let_def t_def t0_def)
      moreover have "same_tables s t0" by (simp add: same_tables_upd_server t0_def)
      then have "same_tables s t" unfolding t_def by (rule same_tables_trans) (rule same_tables_upd_server, simp)
      moreover have "sent t = sent s" by (simp add: t_def t0_def)
      ultimately show thesis using k h r rc(2) by (intro answered) auto
    qed
  qed (use Some assms in \<open>auto simp: processUpstreamResponse_def same_tables_upd_server intro!: dropped\<close>)
qed

lemma processUpstreamResponse_inv:
  assumes "processUpstreamResponse e packet endpoint s = Ret s'" and "server_inv s"
  shows "server_inv s'"
  using assms(1)
proof (cases rule: processUpstreamResponse_cases)
  case dropped
  then show ?thesis using same_tables_inv [OF _ assms(2)] by simp
next
  case (answered k digest i r packet' t)
  from answered(9) obtain u where u: "answer_sources packet' (source (requests (peerRequests s) ! r) #
       source_next (requests (peerRequests s) ! r)) t = Ret u" "s' = upd_requests (FreePeerRequestRecord r) u"
    by (auto simp: obind_Ret_iff)
  from same_tables_inv [OF same_tables_trans [OF answered(7) same_tables_answer [OF u(1)]] assms(2)]
  have "requests_inv (peerRequests u)" "tidy (peerRequests u)" "mappings_inv (ethmappings u)"
    by (auto simp: server_inv_def)
  with requests_inv_subseq [OF _ free_subseq, of "peerRequests u" r] tidy_free [of "peerRequests u" r] u(2) show ?thesis by (simp add: server_inv_def)
qed

lemma server_inv_buffer [simp]: "server_inv (store_buffer ipv4 bb s) = server_inv s"
  by (simp add: store_buffer_def server_inv_def)

lemma store_buffer_store [simp]: "store_buffer ipv4 c (store_buffer ipv4 b s) = store_buffer ipv4 c s"
  by (simp add: store_buffer_def)

definition filled :: "byte list \<Rightarrow> PacketBuffer \<Rightarrow> PacketBuffer" where
  "filled bs bb = bb\<lparr>bb_buf := bs @ drop (length bs) (bb_buf bb), bb_pos := 0, bb_size := length bs\<rparr>"

lemma load_filled: "(load_buffer bs bb)\<lparr>bb_pos := 0, bb_size := length bs\<rparr> = filled bs bb"
  by (simp add: load_buffer_def filled_def)

lemma receive_eq:
  assumes "sizeof_DnsHeader \<le> length bs" and "env_port e endpoint \<noteq> 0"
  shows "receive e bs endpoint ipv4 s =
     (case DnsPacket_Read (filled bs (if ipv4 then recvBuffer4 s else recvBuffer6 s)) of
        Undef u \<Rightarrow> Undef u
      | Fail res \<Rightarrow> Ret (store_buffer ipv4 (filled bs (if ipv4 then recvBuffer4 s else recvBuffer6 s)) s)
      | Ret (packet, bpb) \<Rightarrow> obind (IsRequest packet) (\<lambda>request.
          if request then processRequest e packet endpoint ipv4 (store_buffer ipv4 bpb s)
          else processUpstreamResponse e packet endpoint (store_buffer ipv4 bpb s)))"
  using assms by (simp add: receive_def Let_def load_filled split: outcome.split prod.split split del: if_split)

lemma receive_cases:
  assumes "receive e bs endpoint ipv4 s = Ret s'"
  obtains (dropped) b where "s' = store_buffer ipv4 b s"
  | (request) p c where "DnsPacket_Read (filled bs (if ipv4 then recvBuffer4 s else recvBuffer6 s)) = Ret (p, c)"
      "processRequest e p endpoint ipv4 (store_buffer ipv4 c s) = Ret s'"
  | (response) p c where "DnsPacket_Read (filled bs (if ipv4 then recvBuffer4 s else recvBuffer6 s)) = Ret (p, c)"
      "processUpstreamResponse e p endpoint (store_buffer ipv4 c s) = Ret s'"
proof (cases "sizeof_DnsHeader \<le> length bs \<and> env_port e endpoint \<noteq> 0")
  case True
  note r = assms [unfolded receive_eq [OF conjunct1 [OF True] conjunct2 [OF True], of ipv4 s]]
  show thesis
  proof (cases "DnsPacket_Read (filled bs (if ipv4 then recvBuffer4 s else recvBuffer6 s))")
    case (Ret x)
    obtain p c where x: "x = (p, c)" by fastforce
    from r Ret x obtain q where "(if q then processRequest e p endpoint ipv4 (store_buffer ipv4 c s)
        else processUpstreamResponse e p endpoint (store_buffer ipv4 c s)) = Ret s'"
      by (auto simp: obind_Ret_iff)
    with Ret x request response show thesis by (cases q) auto
  qed (use r dropped in auto)
qed (use assms dropped in \<open>auto simp: receive_def Let_def split: if_splits\<close>)

lemma receive_inv:
  assumes "receive e bs endpoint ipv4 s = Ret s'" and "server_inv s"
  shows "server_inv s'"
  using assms(1)
  by (cases rule: receive_cases) (use assms(2) processRequest_inv processUpstreamResponse_inv in force)+

lemma set_ip_word_ok: "ip_ok a \<Longrightarrow> i < 4 \<Longrightarrow> ip_ok (set_ip_word a i w)"
  by (simp add: ip_ok_def set_ip_word_def)

lemma read_words_ok:
  "read_words n i a bb = Ret (b, bb') \<Longrightarrow> ip_ok a \<Longrightarrow> i + n \<le> 4 \<Longrightarrow> ip_ok b"
proof (induction n arbitrary: i a bb)
  case (Suc n)
  then obtain w bb1 where "read_words n (i + 1) (set_ip_word a i (ntohl w)) bb1 = Ret (b, bb')"
    by (auto simp: obind_Ret_iff)
  with Suc.IH Suc.prems set_ip_word_ok [of a i "ntohl w"] show ?case by fastforce
qed simp

lemma InPacket_ip_ok:
  assumes "InPacket_Read junk bb = Ret (x, bb')" and "ip_ok junk"
  shows "ip_ok (IpSource x)"
proof -
  from assms(1) obtain b1 b2 proto d where
    "read_ipv4 junk b1 = Ret ((proto, IpSource x, d), b2) \<or> read_ipv6 junk b1 = Ret ((proto, IpSource x, d), b2)"
    by (fastforce simp: InPacket_Read_def obind_Ret_iff split: if_splits)
  then show ?thesis
  proof
    assume "read_ipv4 junk b1 = Ret ((proto, IpSource x, d), b2)"
    then have "\<exists>w. set_ip_word junk 0 w = IpSource x"
      by (auto simp: read_ipv4_def Let_def obind_Ret_iff split: if_splits)
    then obtain w where "set_ip_word junk 0 w = IpSource x" ..
    then show ?thesis using set_ip_word_ok [OF assms(2), of 0 w] by simp
  next
    assume "read_ipv6 junk b1 = Ret ((proto, IpSource x, d), b2)"
    then obtain c c' where "read_words 4 0 junk c = Ret (IpSource x, c')"
      by (auto simp: read_ipv6_def obind_Ret_iff split: if_splits)
    then show ?thesis using assms(2) by (rule read_words_ok) simp
  qed
qed

lemma receive_raw_inv:
  assumes "receive_raw e bpb s = Ret s'" and "server_inv s" and "ip_ok (env_union e)"
  shows "server_inv s'"
proof -
  let ?b = "bpb\<lparr>bb_pos := 0, bb_udp := 0\<rparr>"
  show ?thesis
  proof (cases "InPacket_Read (env_union e) ?b")
    case (Ret xc)
    obtain x c where xc: "xc = (x, c)" by fastforce
    let ?t = "s\<lparr>ethmappings := snd (EthMappings_Add (env_now e) (EthSource x) True (IpSource x) (ethmappings s))\<rparr>"
    have "s' = s \<or> s' = ?t"
      using assms(1) Ret xc by (auto simp: receive_raw_def receiveRawData_def obind_Ret_iff split: if_splits)
    moreover have "server_inv ?t"
      using Add_inv [OF _ InPacket_ip_ok [OF Ret [unfolded xc] assms(3)]] assms(2) by (simp add: server_inv_def)
    ultimately show ?thesis using assms(2) by auto
  qed (use assms in \<open>auto simp: receive_raw_def receiveRawData_def\<close>)
qed

lemma handle_inv:
  assumes "handle e ev s = Ret s'" and "server_inv s" and "ip_ok (env_union e)"
  shows "server_inv s'"
proof (cases ev)
  case (Datagram bs endpoint ipv4)
  with assms show ?thesis by (auto intro: receive_inv)
next
  case (Frame bpb)
  with assms show ?thesis by (auto intro: receive_raw_inv)
next
  case (RuleTool c)
  with assms show ?thesis by (auto simp: obind_Ret_iff server_inv_def)
qed

lemma reachable_inv: "reachable s0 s \<Longrightarrow> server_inv s0 \<Longrightarrow> server_inv s"
  by (induction rule: reachable.induct) (auto intro: handle_inv)

end
