(* ===== verification/Dns_Session.thy ===== *)
theory Dns_Session
  imports Dns_Server
begin

text \<open>
  What a client sees of the server: a query is forwarded to every upstream server under an identifier
  of its own and stays registered while other traffic passes, and the first reply is relayed to the
  client with the identifier of the query. Everything is stated for datagrams, so that the codec, the
  digest, the rule engine and the request table take part.
\<close>

section \<open>Packets that differ in their header\<close>

definition query_digest :: "DnsPacket \<Rightarrow> byte list" where
  "query_digest p = fips_sha256 (concat (map digest_input (questions p)))"

definition with_id :: "u16 \<Rightarrow> DnsPacket \<Rightarrow> DnsPacket" where
  "with_id i p = p\<lparr>header := map_option (\<lambda>h. h\<lparr>ID := i\<rparr>) (header p)\<rparr>"

definition with_ra :: "DnsPacket \<Rightarrow> DnsPacket" where
  "with_ra p = p\<lparr>header := map_option (SetRecursionAvailable True) (header p)\<rparr>"

text \<open>The reply \<open>p\<close> of an upstream server as the client with the identifier \<open>i\<close> gets it.\<close>

definition relayed :: "u16 \<Rightarrow> DnsPacket \<Rightarrow> DnsPacket" where
  "relayed i p = with_id i (with_ra p)"

lemma header_with [simp]:
  "header (with_id i p) = map_option (\<lambda>h. h\<lparr>ID := i\<rparr>) (header p)"
  "header (with_ra p) = map_option (SetRecursionAvailable True) (header p)"
  "questions (with_id i p) = questions p" "questions (with_ra p) = questions p"
  by (simp_all add: with_id_def with_ra_def)

lemma with_id_with_id [simp]: "with_id j (with_id i p) = with_id j p"
  by (simp add: with_id_def option.map_comp comp_def)

lemma SetId_eq: "header p = Some h \<Longrightarrow> SetId i p = Ret (with_id i p)"
  by (simp add: SetId_def with_header_def header_of_def with_id_def)

lemma SetRA_eq: "header p = Some h \<Longrightarrow> SetPacketRecursionAvailable True p = Ret (with_ra p)"
  by (simp add: SetPacketRecursionAvailable_def with_header_def header_of_def with_ra_def)

lemma GetId_eq: "header p = Some h \<Longrightarrow> GetId p = Ret (ID h)"
  by (simp add: GetId_def header_of_def)

lemma packet_ok_header: "packet_ok p \<Longrightarrow> \<exists>h. header p = Some h"
  by (auto simp: packet_ok_def packet_wf_def)

lemma packet_ok_with [simp]:
  "packet_ok (with_id i p) = packet_ok p" "packet_ok (with_ra p) = packet_ok p"
  by (auto simp: packet_ok_def packet_wf_def with_id_def with_ra_def SetRecursionAvailable_def)

lemma length_packet_bytes_with [simp]:
  "length (packet_bytes (with_id i p)) = length (packet_bytes p)"
  "length (packet_bytes (with_ra p)) = length (packet_bytes p)"
  by (simp_all add: packet_bytes_def with_id_def with_ra_def header_bytes_def split: option.splits)

lemma query_digest_with [simp]:
  "query_digest (with_id i p) = query_digest p" "query_digest (with_ra p) = query_digest p"
  by (simp_all add: query_digest_def)

lemma Hash_eq: "packet_ok p \<Longrightarrow> length junk = 64 \<Longrightarrow> DnsPacket_Hash junk p = Ret (query_digest p)"
  by (simp add: packet_ok_def query_digest_def DnsPacket_Hash_fips)

section \<open>Packets up to the offsets of their names\<close>

lemma digest_input_Start [simp]: "digest_input (q\<lparr>Start := n\<rparr>) = digest_input q"
  by (simp add: digest_input_def)

lemma bytes_Start [simp]:
  "question_bytes (q\<lparr>Start := n\<rparr>) = question_bytes q" "record_bytes (r\<lparr>Start := n\<rparr>) = record_bytes r"
  "record_ok (r\<lparr>Start := n\<rparr>) = record_ok r"
  by (simp_all add: question_bytes_def record_bytes_def record_ok_def)

lemma core_header [simp]: "header (packet_core p) = header p"
  by (simp add: packet_core_def)

lemma core_with_id: "packet_core (with_id i p) = with_id i (packet_core p)"
  by (simp add: packet_core_def with_id_def)

lemma core_with_ra: "packet_core (with_ra p) = with_ra (packet_core p)"
  by (simp add: packet_core_def with_ra_def)

lemma packet_bytes_core [simp]: "packet_bytes (packet_core p) = packet_bytes p"
  by (simp add: packet_bytes_def packet_core_def comp_def)

lemma query_digest_core [simp]: "query_digest (packet_core p) = query_digest p"
  by (simp add: query_digest_def packet_core_def comp_def)

lemma packet_ok_core [simp]: "packet_ok (packet_core p) = packet_ok p"
  by (simp add: packet_ok_def packet_wf_def packet_core_def list.pred_map comp_def)

text \<open>Reading a packet's own bytes gives a packet that the server cannot tell from it.\<close>

definition same_packet :: "DnsPacket \<Rightarrow> DnsPacket \<Rightarrow> bool" where
  "same_packet p q \<longleftrightarrow> packet_core p = packet_core q"

lemma same_packetD:
  assumes "same_packet q p"
  shows "header q = header p" "packet_ok q = packet_ok p" "query_digest q = query_digest p"
    "packet_bytes (with_id i q) = packet_bytes (with_id i p)"
    "packet_bytes (relayed i q) = packet_bytes (relayed i p)"
    "length (packet_bytes q) = length (packet_bytes p)"
proof -
  note c = assms [unfolded same_packet_def]
  show "header q = header p" using arg_cong [OF c, of header] by simp
  show "packet_ok q = packet_ok p" using arg_cong [OF c, of packet_ok] by simp
  show "query_digest q = query_digest p" using arg_cong [OF c, of query_digest] by simp
  show "packet_bytes (with_id i q) = packet_bytes (with_id i p)"
    using arg_cong [OF c, of "\<lambda>p. packet_bytes (with_id i p)"] by (simp flip: core_with_id)
  show "packet_bytes (relayed i q) = packet_bytes (relayed i p)"
    using arg_cong [OF c, of "\<lambda>p. packet_bytes (relayed i p)"]
    by (simp add: relayed_def flip: core_with_id core_with_ra)
  show "length (packet_bytes q) = length (packet_bytes p)"
    using arg_cong [OF c, of "\<lambda>p. length (packet_bytes p)"] by simp
qed

lemma read_filled:
  assumes "packet_ok p"
  shows "\<exists>q. DnsPacket_Read (filled (packet_bytes p) b) =
     Ret (q, (filled (packet_bytes p) b)\<lparr>bb_pos := length (packet_bytes p)\<rparr>) \<and> same_packet q p"
proof -
  have "ahead (filled (packet_bytes p) b) (packet_bytes p @ [])"
    by (simp add: ahead_def bb_wf_def filled_def)
  from packet_codec.rd_ahead [OF assms this] show ?thesis
    by (auto simp: same_packet_def filled_def)
qed

section \<open>Sending to several end points\<close>

definition bump_queries :: "'ep UpstreamServerInfo \<Rightarrow> 'ep UpstreamServerInfo" where
  "bump_queries server = server\<lparr>queries := queries server + 1\<rparr>"

lemma forward_ok:
  assumes "packet_ok p" and "length (packet_bytes p) < MAX_PACKET_SZ" and "k + n \<le> length (servers s)"
  shows "\<exists>s'. forward r p k n s = Ret s' \<and>
     sent s' = sent s @ map (\<lambda>server. (us_endpoint server, us_ipv4 server, packet_bytes p)) (take n (drop k (servers s))) \<and>
     servers s' = take k (servers s) @ map bump_queries (take n (drop k (servers s))) @ drop (k + n) (servers s)"
  using assms(3)
proof (induction n arbitrary: k s)
  case (Suc n)
  let ?s = "upd_requests (\<lambda>p. put_record r ((requests p ! r)\<lparr>sentTo := Some k\<rparr>) p) s"
  let ?srv = "servers s ! k"
  let ?t = "?s\<lparr>servers := (servers s)[k := bump_queries ?srv],
     sent := sent s @ [(us_endpoint ?srv, us_ipv4 ?srv, packet_bytes p)]\<rparr>"
  from Suc.prems have k: "k < length (servers s)" by simp
  have step: "forward r p k (Suc n) s = forward r p (k + 1) n ?t"
    by (simp add: Let_def sendPacket_ok [OF assms(1,2)] bump_queries_def)
  from Suc.prems have "k + 1 + n \<le> length (servers ?t)" by simp
  from Suc.IH [OF this] k show ?case
    unfolding step by (auto simp: take_Suc_conv_app_nth Cons_nth_drop_Suc [symmetric] take_update_swap list_update_append)
qed simp

lemma answer_sources_ok:
  assumes "packet_ok p" and "length (packet_bytes p) < MAX_PACKET_SZ"
  shows "answer_sources p srcs s = Ret (s\<lparr>sent := sent s @
     map (\<lambda>src. (src_endpoint src, src_ipv4 src, packet_bytes (with_id (originalId src) p))) srcs\<rparr>)"
  using assms
proof (induction srcs arbitrary: p s)
  case (Cons src srcs)
  from packet_ok_header [OF Cons.prems(1)] obtain h where "header p = Some h" ..
  with Cons show ?case by (simp add: SetId_eq sendPacket_ok)
qed simp

section \<open>Forwarding a new query\<close>

lemma resolve_new_total:
  assumes "header p = Some h" and "fair (env_draw e)" and "length (inflight (requests (peerRequests s))) < MAX_FWD_QUERIES"
  shows "\<exists>r p' s'. resolve_new e digest p ep v s = Ret (Some r, p', s')"
proof -
  let ?new = "GetNewRecord (env_record e) (env_now e) False (peerRequests s)"
  have "length (recent (env_now e) (requests (peerRequests s))) < MAX_FWD_QUERIES"
    using assms(3) by (simp add: recent_def le_less_trans [OF length_filter_le])
  then obtain r q where new: "?new = (Some r, q)"
    using GetNewRecord_None(3) [of "env_record e" "env_now e" False "peerRequests s"]
    by (metis not_less option.exhaust surj_pair)
  let ?q = "put_record r ((requests q ! r)\<lparr>source := (source (requests q ! r))\<lparr>originalId := ID h,
      src_endpoint := ep, src_ipv4 := v\<rparr>\<rparr>) q"
  note slot = GetNewRecord_Some [OF new]
  have "length (inflight (requests ?q)) = length (inflight (requests q))"
    using slot(1) by (simp add: free_slot_def inflight_same)
  also have "\<dots> \<le> length (inflight (requests (peerRequests s)))" using slot(3) by (rule list_emb_length)
  finally obtain i t where "GetNewId (env_draw e) ?q = Some (i, t)"
    using GetNewId_total [OF assms(2), of ?q] assms(3) by auto
  with new assms(1) show ?thesis
    by (simp add: resolve_new_def addSource_def GetId_eq SetId_eq)
qed

lemma source_assigned:
  "src = src\<lparr>originalId := i, src_endpoint := ep, src_ipv4 := v\<rparr> \<Longrightarrow>
     src = \<lparr>src_endpoint = ep, src_ipv4 = v, originalId = i\<rparr>"
  by (cases src) simp

lemma resolve_forwards:
  assumes inv: "server_inv s" and srv: "servers s \<noteq> []"
    and p: "packet_ok p" "length (packet_bytes p) < MAX_PACKET_SZ" "header p = Some h"
    and e: "length (env_digest e) = 64" "fair (env_draw e)"
    and room: "length (inflight (requests (peerRequests s))) < MAX_FWD_QUERIES"
    and new: "LookupByQuery (query_digest p) 0 7 (peerRequests s) = None"
  shows "\<exists>s' i rec. resolve e p ep v s = Ret s' \<and> server_inv s' \<and>
     content (peerRequests s') (i, query_digest p) = Some rec \<and> req_time rec = env_now e \<and>
     source rec = \<lparr>src_endpoint = ep, src_ipv4 = v, originalId = ID h\<rparr> \<and> source_next rec = [] \<and>
     servers s' = map bump_queries (servers s) \<and>
     sent s' = sent s @ map (\<lambda>server. (us_endpoint server, us_ipv4 server, packet_bytes (with_id i p))) (servers s)"
proof -
  let ?d = "query_digest p"
  from inv have ri: "requests_inv (peerRequests s)" and ti: "tidy (peerRequests s)" by (auto simp: server_inv_def)
  from resolve_new_total [OF p(3) e(2) room] obtain r p' t where rn: "resolve_new e ?d p ep v s = Ret (Some r, p', t)" by blast
  note n = resolve_new_Some [OF rn ri new]
  let ?rec = "requests (peerRequests t) ! r"
  let ?i = "newId ?rec"
  from n(5) p(3) have p': "p' = with_id ?i p" by (simp add: SetId_eq)
  from forward_ok [of p' 0 "length (servers t)" t r] p p' n(9) obtain s' where fwd: "forward r p' 0 (length (servers t)) t = Ret s'"
    and sent: "sent s' = sent t @ map (\<lambda>server. (us_endpoint server, us_ipv4 server, packet_bytes p')) (servers s)"
    and srv': "servers s' = map bump_queries (servers s)" by auto
  have res: "resolve e p ep v s = Ret s'"
    using srv rn fwd new by (simp add: resolve_def Hash_eq [OF p(1) e(1)])
  let ?rec' = "?rec\<lparr>sentTo := Some (length (servers s) - 1)\<rparr>"
  have "r < length (requests (peerRequests t))" using n(2) by (simp add: free_slot_def)
  from forward_tables [OF fwd this] n(9) srv
  have "requests (peerRequests s') = requests (put_record r ?rec' (peerRequests t))" by simp
  then have "content (peerRequests s') = (content (peerRequests t))(request_key ?rec' \<mapsto> ?rec')"
    using put_record_inv(2) [OF n(1-3)] by (simp add: content_def)
  then have "content (peerRequests s') (?i, ?d) = Some ?rec'" using n(4) by (simp add: request_key_def)
  moreover have "source ?rec' = \<lparr>src_endpoint = ep, src_ipv4 = v, originalId = ID h\<rparr>"
    using n(6) GetId_eq [OF p(3)] source_assigned [of "source ?rec"] by auto
  moreover have "source_next ?rec' = []"
    using n(12) [OF ti] n(2) by (auto simp: tidy_def free_slot_def list_all_length)
  moreover have "req_time ?rec' = env_now e" using n(10) by simp
  ultimately show ?thesis
    using res resolve_inv [OF res inv] sent srv' n(8) p'
    by (intro exI [of _ s'] exI [of _ ?i] exI [of _ ?rec']) simp
qed

section \<open>Relaying a reply\<close>

lemma Lookup_of_content:
  assumes "requests_inv p" and "content p (i, d) = Some rec"
  obtains r where "Lookup i d p = Some r" "requests p ! r = rec"
  using Lookup_content [OF assms(1), of "(i, d)"] assms(2) by (cases "Lookup i d p") auto

lemma upstream_reply_relayed:
  assumes inv: "server_inv s" and k: "k < length (servers s)" "us_endpoint (servers s ! k) = ep"
    and p: "packet_ok p" "length (packet_bytes p) < MAX_PACKET_SZ" "header p = Some h"
      "DnsHeader_Validate IncomingResponse h = E_NOERROR"
    and e: "length (env_digest e) = 64"
    and rec: "content (peerRequests s) (ID h, query_digest p) = Some rec"
  shows "\<exists>s'. processUpstreamResponse e p ep s = Ret s' \<and>
     sent s' = sent s @ map (\<lambda>src. (src_endpoint src, src_ipv4 src, packet_bytes (relayed (originalId src) p)))
       (source rec # source_next rec) \<and>
     content (peerRequests s') = (content (peerRequests s))((ID h, query_digest p) := None) \<and>
     map us_endpoint (servers s') = map us_endpoint (servers s)"
proof -
  from inv have ri: "requests_inv (peerRequests s)" by (simp add: server_inv_def)
  from Lookup_of_content [OF ri rec] obtain r where r: "Lookup (ID h) (query_digest p) (peerRequests s) = Some r"
    "requests (peerRequests s) ! r = rec" .
  have "find_index (\<lambda>server. us_endpoint server = ep) (servers s) \<noteq> None"
    using k nth_mem [OF k(1)] by auto
  then obtain j where j: "find_index (\<lambda>server. us_endpoint server = ep) (servers s) = Some j" by blast
  note jl = find_index_Some [OF j]
  have valid: "DnsPacket_Validate IncomingResponse p = Ret ()"
    using p by (simp add: DnsPacket_Validate_def)
  let ?t0 = "if GetResponseCode h \<noteq> 0 then upd_server j (\<lambda>server. server\<lparr>failed := failed server + 1\<rparr>) s else s"
  let ?t = "upd_server j (update_latency (env_now e - forwardTimestamp rec)) ?t0"
  let ?s' = "upd_requests (FreePeerRequestRecord r) (?t\<lparr>sent := sent ?t @ map (\<lambda>src. (src_endpoint src, src_ipv4 src,
     packet_bytes (with_id (originalId src) (with_ra p)))) (source rec # source_next rec)\<rparr>)"
  have "processUpstreamResponse e p ep s = Ret ?s'"
    using p by (simp add: processUpstreamResponse_def j valid Hash_eq [OF p(1) e] GetId_eq r Let_def
        GetPacketResponseCode_def header_of_def SetRA_eq answer_sources_ok del: list.map answer_sources.simps)
  moreover have "peerRequests ?t = peerRequests s" "sent ?t = sent s" by (simp_all add: upd_server_def)
  moreover have "map us_endpoint (servers ?t) = map us_endpoint (servers s)"
    using jl(1) by (simp add: upd_server_def update_latency_def Let_def map_update list_update_same_conv nth_list_update)
  ultimately show ?thesis
    using free_content [OF ri, of "(ID h, query_digest p)" r] r(1)
    by (intro exI [of _ ?s']) (simp add: relayed_def)
qed

lemma upstream_reply_unmatched:
  assumes j: "find_index (\<lambda>server. us_endpoint server = ep) (servers s) = Some j"
    and p: "packet_ok p" "header p = Some h" "DnsHeader_Validate IncomingResponse h = E_NOERROR"
    and e: "length (env_digest e) = 64" and inv: "server_inv s"
    and none: "content (peerRequests s) (ID h, query_digest p) = None"
  shows "processUpstreamResponse e p ep s = Ret (upd_server j (\<lambda>server. server\<lparr>nosources := nosources server + 1\<rparr>) s)"
proof -
  have "Lookup (ID h) (query_digest p) (peerRequests s) = None"
    using Lookup_content [of "peerRequests s" "(ID h, query_digest p)"] inv none by (simp add: server_inv_def)
  moreover have "DnsPacket_Validate IncomingResponse p = Ret ()" using p by (simp add: DnsPacket_Validate_def)
  ultimately show ?thesis
    using p by (simp add: processUpstreamResponse_def j Hash_eq [OF p(1) e] GetId_eq)
qed

section \<open>A pending query and the rest of the traffic\<close>

text \<open>A datagram that is a packet with the questions of the digest \<open>d\<close>.\<close>

fun mentions :: "'ep env \<Rightarrow> 'ep event \<Rightarrow> byte list \<Rightarrow> 'ep DnsServer \<Rightarrow> bool" where
  "mentions e (Datagram bs ep v) d s =
     (case DnsPacket_Read (filled bs (if v then recvBuffer4 s else recvBuffer6 s)) of
        Ret (p, bb) \<Rightarrow> DnsPacket_Hash (env_digest e) p = Ret d
      | _ \<Rightarrow> False)"
| "mentions e (Frame bpb) d s = False"
| "mentions e (RuleTool c) d s = False"

lemma recent_pending:
  assumes "requests_inv p" and "requests_inv q" and "recent now (requests q) = recent now (requests p)"
    and "content p k = Some rec" and "now - req_time rec < TIMEOUT"
  shows "content q k = Some rec"
proof -
  from assms(4,5) have "rec \<in> set (recent now (requests p))" "request_key rec = k"
    by (auto simp: content_Some [OF assms(1)] recent_def)
  with assms(3) show ?thesis by (metis content_Some [OF assms(2)] filter_is_subset recent_def subsetD)
qed

lemma update_pending:
  assumes "requests_inv p" and "requests_inv (put_record r y p)" and "content p (i, d) = Some rec"
    and "req_hash (requests p ! r) \<noteq> d"
  shows "content (put_record r y p) (i, d) = Some rec"
proof -
  from assms(3) have rec: "rec \<in> set (requests p)" "sentTo rec \<noteq> None" "newId rec = i" "req_hash rec = d"
    by (auto simp: content_Some [OF assms(1)] set_inflight request_key_def)
  then obtain j where "j < length (requests p)" "requests p ! j = rec" by (auto simp: in_set_conv_nth)
  moreover from this rec(4) assms(4) have "r \<noteq> j" by auto
  ultimately have "rec \<in> set (requests (put_record r y p))"
    by (auto simp: in_set_conv_nth intro!: exI [of _ j])
  with rec show ?thesis by (simp add: content_Some [OF assms(2)] set_inflight request_key_def)
qed

lemma content_requests: "requests p = requests q \<Longrightarrow> content p = content q"
  by (simp add: content_def)

lemma same_tables_content: "same_tables s t \<Longrightarrow> content (peerRequests t) = content (peerRequests s)"
  by (auto simp: same_tables_def intro: content_requests)

lemma resolve_pending:
  assumes res: "resolve e p ep v s = Ret s'" and inv: "server_inv s"
    and pend: "content (peerRequests s) (i, d) = Some rec" "env_now e - req_time rec < TIMEOUT"
    and other: "DnsPacket_Hash (env_digest e) p \<noteq> Ret d"
  shows "content (peerRequests s') (i, d) = Some rec"
proof -
  from inv have ri: "requests_inv (peerRequests s)" by (simp add: server_inv_def)
  from resolve_inv [OF res inv] have ri': "requests_inv (peerRequests s')" by (simp add: server_inv_def)
  from res ri show ?thesis
  proof (cases rule: resolve_cases)
    case same
    with same_tables_content pend(1) show ?thesis by fastforce
  next
    case (refused q)
    from refused(2) GetNewRecord_None(1) [OF refused(1)]
    have "recent (env_now e) (requests (peerRequests s')) = recent (env_now e) (requests (peerRequests s))"
      by (simp add: same_tables_def)
    from recent_pending [OF ri ri' this pend] show ?thesis .
  next
    case (again d' r)
    let ?y = "(free_record (requests (peerRequests s) ! r))\<lparr>sentTo := Some (length (servers s) - 1)\<rparr>"
    note c = same_tables_content [OF again(3)] and l = LookupByQuery_Some [OF ri again(2)]
    have "requests_inv (put_record r ?y (peerRequests s))"
      using ri' requests_inv_requests [of "peerRequests s'" "put_record r ?y (peerRequests s)"] again(3)
      by (simp add: same_tables_def)
    from update_pending [OF ri this pend(1)] l(3) again(1) other c show ?thesis by simp
  next
    case (new d' r p' t)
    note n = resolve_new_Some [OF new(3) ri new(2)]
    from same_tables_content [OF new(4)] put_record_inv(2) [OF n(1-3)]
      recent_pending [OF ri n(1) n(11) pend] n(4) new(1) other show ?thesis by (auto simp: request_key_def)
  qed
qed

lemma processRequest_pending:
  assumes "processRequest e p ep v s = Ret s'" and "server_inv s"
    and "content (peerRequests s) (i, d) = Some rec" "env_now e - req_time rec < TIMEOUT"
    and "DnsPacket_Hash (env_digest e) p \<noteq> Ret d"
  shows "content (peerRequests s') (i, d) = Some rec"
proof (cases "DnsPacket_Validate IncomingRequest p")
  case (Ret u)
  with assms(1) obtain dc where dc: "(case dc of Do_Resolve \<Rightarrow> DnsServer_Resolve e p ep v s
      | Do_Redirect tgt \<Rightarrow> DnsServer_Redirect p ep v tgt s) = Ret s'"
    unfolding processRequest_def by (auto simp: obind_Ret_iff)
  then show ?thesis
  proof (cases dc)
    case Do_Resolve
    with dc resolve_pending [OF _ assms(2-5)] show ?thesis by (simp add: DnsServer_Resolve_def)
  next
    case (Do_Redirect tgt)
    with dc same_tables_content [OF Redirect_tables] assms(3) show ?thesis by fastforce
  qed
qed (use assms in \<open>auto simp: processRequest_def obind_Ret_iff\<close>)

lemma processUpstreamResponse_pending:
  assumes "processUpstreamResponse e p ep s = Ret s'" and "server_inv s"
    and "content (peerRequests s) (i, d) = Some rec"
    and "DnsPacket_Hash (env_digest e) p \<noteq> Ret d"
  shows "content (peerRequests s') (i, d) = Some rec"
  using assms(1)
proof (cases rule: processUpstreamResponse_cases)
  case dropped
  with same_tables_content assms(3) show ?thesis by fastforce
next
  case (answered k d' i' r p' t)
  from answered(9) obtain u where u: "answer_sources p' (source (requests (peerRequests s) ! r) #
       source_next (requests (peerRequests s) ! r)) t = Ret u" "s' = upd_requests (FreePeerRequestRecord r) u"
    by (auto simp: obind_Ret_iff)
  from same_tables_trans [OF answered(7) same_tables_answer [OF u(1)]]
  have "requests (peerRequests u) = requests (peerRequests s)" by (simp add: same_tables_def)
  then have "content (peerRequests s') = content (FreePeerRequestRecord r (peerRequests s))"
    unfolding u(2) by (intro content_requests) simp
  also have "\<dots> = (content (peerRequests s))((i', d') := None)"
    using free_content [of "peerRequests s" "(i', d')" r] answered(5) assms(2) by (simp add: server_inv_def)
  finally show ?thesis using assms(3,4) answered(3) by simp
qed

lemma store_buffer_sel [simp]:
  "peerRequests (store_buffer v b s) = peerRequests s" "servers (store_buffer v b s) = servers s"
  "sent (store_buffer v b s) = sent s" "ruleData (store_buffer v b s) = ruleData s"
  "ethmappings (store_buffer v b s) = ethmappings s"
  by (simp_all add: store_buffer_def)

lemma receive_pending:
  assumes "receive e bs ep v s = Ret s'" and inv: "server_inv s"
    and pend: "content (peerRequests s) (i, d) = Some rec" "env_now e - req_time rec < TIMEOUT"
    and other: "\<not> mentions e (Datagram bs ep v) d s"
  shows "content (peerRequests s') (i, d) = Some rec"
  using assms(1)
proof (cases rule: receive_cases)
  case (request p c)
  from request(2) show ?thesis by (rule processRequest_pending) (use request(1) inv pend other in auto)
next
  case (response p c)
  from response(2) show ?thesis by (rule processUpstreamResponse_pending) (use response(1) inv pend other in auto)
qed (use pend in simp)

lemma receive_raw_requests:
  assumes "receive_raw e bpb s = Ret s'"
  shows "peerRequests s' = peerRequests s \<and> servers s' = servers s \<and> sent s' = sent s"
  using assms
  by (cases "InPacket_Read (env_union e) (bpb\<lparr>bb_pos := 0, bb_udp := 0\<rparr>)")
    (auto simp: receive_raw_def receiveRawData_def obind_Ret_iff split: if_splits)

lemma handle_pending:
  assumes "handle e ev s = Ret s'" and "server_inv s"
    and "content (peerRequests s) (i, d) = Some rec" "env_now e - req_time rec < TIMEOUT"
    and "\<not> mentions e ev d s"
  shows "content (peerRequests s') (i, d) = Some rec"
proof (cases ev)
  case (Datagram bs ep v)
  with assms receive_pending show ?thesis by simp
next
  case (Frame bpb)
  with assms(1) receive_raw_requests [of e bpb s s'] assms(3) show ?thesis by simp
next
  case (RuleTool c)
  with assms show ?thesis by (auto simp: obind_Ret_iff)
qed

section \<open>The upstream servers stay the same\<close>

lemma endpoints_requests [simp]: "endpoints (s\<lparr>peerRequests := p\<rparr>) = endpoints s" "endpoints (store_buffer v b s) = endpoints s"
  by (simp_all add: endpoints_def)

lemma resolve_fixed:
  assumes "resolve e p ep v s = Ret s'" and "server_inv s"
  shows "endpoints s' = endpoints s \<and> ethmappings s' = ethmappings s"
proof -
  from assms(2) have ri: "requests_inv (peerRequests s)" by (simp add: server_inv_def)
  from assms(1) ri show ?thesis by (cases rule: resolve_cases) (auto simp: same_tables_def)
qed

lemma processRequest_fixed:
  assumes "processRequest e p ep v s = Ret s'" and "server_inv s"
  shows "endpoints s' = endpoints s \<and> ethmappings s' = ethmappings s"
proof (cases "DnsPacket_Validate IncomingRequest p")
  case (Ret u)
  with assms(1) obtain dc where dc: "(case dc of Do_Resolve \<Rightarrow> DnsServer_Resolve e p ep v s
      | Do_Redirect tgt \<Rightarrow> DnsServer_Redirect p ep v tgt s) = Ret s'"
    unfolding processRequest_def by (auto simp: obind_Ret_iff)
  then show ?thesis
    using resolve_fixed [OF _ assms(2)] Redirect_tables [of p ep v _ s s']
    by (cases dc) (auto simp: DnsServer_Resolve_def same_tables_def)
qed (use assms in \<open>auto simp: processRequest_def obind_Ret_iff\<close>)

lemma processUpstreamResponse_fixed:
  assumes "processUpstreamResponse e p ep s = Ret s'"
  shows "endpoints s' = endpoints s \<and> ethmappings s' = ethmappings s"
  using assms
proof (cases rule: processUpstreamResponse_cases)
  case dropped
  then show ?thesis by (simp add: same_tables_def)
next
  case (answered k d i r p' t)
  then show ?thesis
    by (auto simp: obind_Ret_iff same_tables_def simp del: answer_sources.simps dest!: same_tables_answer)
qed

lemma receive_fixed:
  assumes "receive e bs ep v s = Ret s'" and "server_inv s"
  shows "endpoints s' = endpoints s \<and> ethmappings s' = ethmappings s"
  using assms(1)
proof (cases rule: receive_cases)
  case (request p c)
  with processRequest_fixed [OF request(2)] assms(2) show ?thesis by simp
next
  case (response p c)
  with processUpstreamResponse_fixed [OF response(2)] show ?thesis by simp
qed simp

lemma handle_endpoints:
  assumes "handle e ev s = Ret s'" and "server_inv s"
  shows "endpoints s' = endpoints s"
proof (cases ev)
  case (Datagram bs ep v)
  with assms receive_fixed [of e bs ep v s s'] show ?thesis by simp
next
  case (Frame bpb)
  with assms(1) receive_raw_requests [of e bpb s s'] show ?thesis by (simp add: endpoints_def)
next
  case (RuleTool c)
  with assms show ?thesis by (auto simp: obind_Ret_iff endpoints_def)
qed

section \<open>Runs\<close>

text \<open>Events before the time \<open>t\<close> plus the timeout, none of them about the questions of \<open>d\<close>.\<close>

inductive quiet_run :: "byte list \<Rightarrow> int \<Rightarrow> 'ep DnsServer \<Rightarrow> 'ep DnsServer \<Rightarrow> bool" for d t s0 where
  quiet_start: "quiet_run d t s0 s0"
| quiet_step: "quiet_run d t s0 s \<Longrightarrow> ip_ok (env_union e) \<Longrightarrow> env_now e < t + TIMEOUT \<Longrightarrow>
    \<not> mentions e ev d s \<Longrightarrow> handle e ev s = Ret s' \<Longrightarrow> quiet_run d t s0 s'"

lemma quiet_run_pending:
  assumes "quiet_run d t s s'" and "server_inv s"
    and "content (peerRequests s) (i, d) = Some rec" and "req_time rec = t"
  shows "server_inv s' \<and> endpoints s' = endpoints s \<and> content (peerRequests s') (i, d) = Some rec"
  using assms
proof (induction rule: quiet_run.induct)
  case (quiet_step s1 e ev s2)
  then have s1: "server_inv s1" "endpoints s1 = endpoints s" "content (peerRequests s1) (i, d) = Some rec" by simp_all
  moreover have "env_now e - req_time rec < TIMEOUT" using quiet_step by simp
  ultimately show ?case
    using quiet_step handle_inv [of e ev s1 s2] handle_endpoints [of e ev s1 s2] handle_pending [of e ev s1 s2 i d rec]
    by simp
qed simp

section \<open>Datagrams\<close>

text \<open>A packet that travels as a datagram of its wire form and is not dropped for its size.\<close>

definition datagram_ok :: "DnsPacket \<Rightarrow> bool" where
  "datagram_ok p \<longleftrightarrow> packet_ok p \<and> sizeof_DnsHeader \<le> length (packet_bytes p) \<and> length (packet_bytes p) < MAX_PACKET_SZ"

text \<open>A valid query of a client that the rules hand to the upstream servers.\<close>

definition client_query :: "'ep env \<Rightarrow> DnsPacket \<Rightarrow> DnsHeader \<Rightarrow> 'ep \<Rightarrow> bool \<Rightarrow> 'ep DnsServer \<Rightarrow> bool" where
  "client_query e p h ep v s \<longleftrightarrow> datagram_ok p \<and> header p = Some h \<and>
     DnsHeader_Validate IncomingRequest h = E_NOERROR \<and> env_port e ep \<noteq> 0 \<and>
     Evaluate (request_input e ep v s) (ruleData s) = Ret Do_Resolve"

text \<open>The question is not in flight and there is room for it.\<close>

definition can_forward :: "'ep env \<Rightarrow> DnsPacket \<Rightarrow> 'ep DnsServer \<Rightarrow> bool" where
  "can_forward e p s \<longleftrightarrow> servers s \<noteq> [] \<and> length (inflight (requests (peerRequests s))) < MAX_FWD_QUERIES \<and>
     LookupByQuery (query_digest p) 0 7 (peerRequests s) = None \<and> length (env_digest e) = 64 \<and> fair (env_draw e)"

text \<open>A reply to the query \<open>p\<close> under the identifier \<open>i\<close>.\<close>

definition reply_to :: "DnsPacket \<Rightarrow> u16 \<Rightarrow> DnsPacket \<Rightarrow> bool" where
  "reply_to p i a \<longleftrightarrow> datagram_ok a \<and> query_digest a = query_digest p \<and>
     (\<exists>h. header a = Some h \<and> ID h = i \<and> DnsHeader_Validate IncomingResponse h = E_NOERROR)"

lemma Validate_direction:
  "DnsHeader_Validate IncomingRequest h = E_NOERROR \<Longrightarrow> \<not> GetQueryResponse h"
  "DnsHeader_Validate IncomingResponse h = E_NOERROR \<Longrightarrow> GetQueryResponse h"
  by (auto simp: DnsHeader_Validate_def split: if_splits)

lemma receive_packet:
  assumes "datagram_ok p" and "env_port e ep \<noteq> 0" and "header p = Some h"
  shows "\<exists>q c. same_packet q p \<and> receive e (packet_bytes p) ep v s =
     (if GetQueryResponse h then processUpstreamResponse e q ep (store_buffer v c s)
      else processRequest e q ep v (store_buffer v c s))"
proof -
  from assms(1) have p: "packet_ok p" "sizeof_DnsHeader \<le> length (packet_bytes p)" by (auto simp: datagram_ok_def)
  from read_filled [OF p(1), of "if v then recvBuffer4 s else recvBuffer6 s"] obtain q c where
    q: "DnsPacket_Read (filled (packet_bytes p) (if v then recvBuffer4 s else recvBuffer6 s)) = Ret (q, c)"
    "same_packet q p" by blast
  from same_packetD(1) [OF q(2)] assms(3) have "header q = Some h" by simp
  with q receive_eq [OF p(2) assms(2), of v s] show ?thesis
    by (intro exI [of _ q] exI [of _ c]) (simp add: IsRequest_def header_of_def)
qed

lemma processRequest_resolve:
  assumes "header p = Some h" and "DnsHeader_Validate IncomingRequest h = E_NOERROR"
    and "Evaluate (request_input e ep v s) (ruleData s) = Ret Do_Resolve"
  shows "processRequest e p ep v s = resolve e p ep v s"
  using assms by (simp add: processRequest_def DnsPacket_Validate_def DnsServer_Resolve_def)

lemma request_input_buffer [simp]: "request_input e ep v (store_buffer w b s) = request_input e ep v s"
  by (simp add: request_input_def)

lemma handle_query:
  assumes "server_inv s" and q: "client_query e p h ep v s" and c: "can_forward e p s"
  shows "\<exists>s' i rec. handle e (Datagram (packet_bytes p) ep v) s = Ret s' \<and> server_inv s' \<and>
     content (peerRequests s') (i, query_digest p) = Some rec \<and> req_time rec = env_now e \<and>
     source rec = \<lparr>src_endpoint = ep, src_ipv4 = v, originalId = ID h\<rparr> \<and> source_next rec = [] \<and>
     servers s' = map bump_queries (servers s) \<and>
     sent s' = sent s @ map (\<lambda>server. (us_endpoint server, us_ipv4 server, packet_bytes (with_id i p))) (servers s)"
proof -
  from q have p: "datagram_ok p" "header p = Some h" "DnsHeader_Validate IncomingRequest h = E_NOERROR" "env_port e ep \<noteq> 0"
    and ev: "Evaluate (request_input e ep v s) (ruleData s) = Ret Do_Resolve" by (auto simp: client_query_def)
  from receive_packet [OF p(1,4,2)] Validate_direction(1) [OF p(3)] obtain p' b where p': "same_packet p' p"
    and rc: "receive e (packet_bytes p) ep v s = processRequest e p' ep v (store_buffer v b s)" by fastforce
  note d = same_packetD [OF p']
  have "receive e (packet_bytes p) ep v s = resolve e p' ep v (store_buffer v b s)"
    unfolding rc using ev p d(1) by (intro processRequest_resolve) simp_all
  moreover from p(1) have "packet_ok p'" "length (packet_bytes p') < MAX_PACKET_SZ" using d by (auto simp: datagram_ok_def)
  ultimately show ?thesis
    using resolve_forwards [of "store_buffer v b s" p' h e ep v] assms(1) c p(2) d by (simp add: can_forward_def)
qed

lemma handle_reply:
  assumes "server_inv s" and "ep \<in> set (endpoints s)" and a: "reply_to p i a"
    and e: "env_port e ep \<noteq> 0" "length (env_digest e) = 64"
    and rec: "content (peerRequests s) (i, query_digest p) = Some rec"
  shows "\<exists>s'. handle e (Datagram (packet_bytes a) ep v) s = Ret s' \<and>
     sent s' = sent s @ map (\<lambda>src. (src_endpoint src, src_ipv4 src, packet_bytes (relayed (originalId src) a)))
       (source rec # source_next rec) \<and>
     content (peerRequests s') = (content (peerRequests s))((i, query_digest p) := None) \<and>
     endpoints s' = endpoints s"
proof -
  from a obtain h where h: "datagram_ok a" "header a = Some h" "ID h = i" "query_digest a = query_digest p"
    "DnsHeader_Validate IncomingResponse h = E_NOERROR" by (auto simp: reply_to_def)
  from receive_packet [OF h(1) e(1) h(2)] Validate_direction(2) [OF h(5)] obtain q b where q: "same_packet q a"
    and rc: "receive e (packet_bytes a) ep v s = processUpstreamResponse e q ep (store_buffer v b s)" by fastforce
  note d = same_packetD [OF q]
  from assms(2) obtain k where k: "k < length (servers s)" "us_endpoint (servers s ! k) = ep"
    by (auto simp: endpoints_def in_set_conv_nth)
  from h(1) have "packet_ok q" "length (packet_bytes q) < MAX_PACKET_SZ" using d by (auto simp: datagram_ok_def)
  with upstream_reply_relayed [of "store_buffer v b s" k ep q h e rec] assms(1) k h e(2) rec d show ?thesis
    by (simp add: rc endpoints_def)
qed

lemma handle_second_reply:
  assumes "server_inv s" and "ep \<in> set (endpoints s)" and a: "reply_to p i a"
    and e: "env_port e ep \<noteq> 0" "length (env_digest e) = 64"
    and rec: "content (peerRequests s) (i, query_digest p) = None"
  shows "\<exists>s'. handle e (Datagram (packet_bytes a) ep v) s = Ret s' \<and> sent s' = sent s"
proof -
  from a obtain h where h: "datagram_ok a" "header a = Some h" "ID h = i" "query_digest a = query_digest p"
    "DnsHeader_Validate IncomingResponse h = E_NOERROR" by (auto simp: reply_to_def)
  from receive_packet [OF h(1) e(1) h(2)] Validate_direction(2) [OF h(5)] obtain q b where q: "same_packet q a"
    and rc: "receive e (packet_bytes a) ep v s = processUpstreamResponse e q ep (store_buffer v b s)" by fastforce
  note d = same_packetD [OF q]
  from assms(2) have "find_index (\<lambda>server. us_endpoint server = ep) (servers (store_buffer v b s)) \<noteq> None"
    by (auto simp: endpoints_def)
  then obtain j where "find_index (\<lambda>server. us_endpoint server = ep) (servers (store_buffer v b s)) = Some j" by blast
  from upstream_reply_unmatched [OF this, of q h e] assms(1) h e(2) rec d show ?thesis
    by (simp add: rc datagram_ok_def)
qed

end
