(* ===== verification/Dns_Clients.thy ===== *)
theory Dns_Clients
  imports Dns_Session
begin

text \<open>
  The other handlings of a datagram or frame: a query answered by redirection, the hardware addresses
  the rules see, a repeated question and the client that it leaves unanswered, replies of strangers and datagrams that are too short.
\<close>

section \<open>Redirected queries\<close>

definition redirected :: "IpAddress \<Rightarrow> DnsPacket \<Rightarrow> DnsPacket" where
  "redirected tgt p = p\<lparr>
     header := map_option (\<lambda>h. (SetRecursionAvailable True (SetAuthoritativeAnswer True (SetQueryResponse True h)))
       \<lparr>AnswerCount := QuestionCount h\<rparr>) (header p),
     answers := map (\<lambda>q. redirect_answer tgt q zero_record) (questions p)\<rparr>"

lemma write_answers_eq: "n = length qs \<Longrightarrow> write_answers w n qs = Ret (map (\<lambda>q. w q zero_record) qs)"
  by (induction qs arbitrary: n) simp_all

lemma updateRedirectResponse_eq:
  assumes "packet_wf p" and "header p = Some h" and "QuestionCount h \<noteq> 0"
  shows "updateRedirectResponse tgt p = Ret (redirected tgt p)"
proof -
  have "unat (QuestionCount h) = length (questions p)" using packet_wfD(1) [OF assms(1,2)] .
  moreover from this assms(3) have "questions p \<noteq> []" by (auto simp: unat_eq_zero)
  ultimately show ?thesis
    using assms by (simp add: updateRedirectResponse_def redirected_def SetAsQueryResponse_def SetAsAuthoritativeAnswer_def
        SetPacketRecursionAvailable_def with_header_def header_of_def SetAnswers_def write_answers_eq
        SetRecursionAvailable_def SetAuthoritativeAnswer_def SetQueryResponse_def)
qed

lemma set_dotted: "set (dotted ls) = \<Union> (set ` set ls) \<union> (if ls = [] then {} else {DOT})"
  by (auto simp: dotted_def)

lemma c_str_valid: "name_valid nm \<Longrightarrow> c_str nm = nm"
proof -
  assume "name_valid nm"
  then have "\<forall>l \<in> set (split_dots nm). 0 \<notin> set l" by (auto simp: name_valid_def name_ok_def list_all_iff label_ok_def)
  then have "0 \<notin> set (dotted (split_dots nm))" by (auto simp: set_dotted)
  then have "0 \<notin> set nm" by (simp add: dotted_split)
  then show "c_str nm = nm" by (auto simp: c_str_def takeWhile_eq_all_conv)
qed

definition address_question :: "DnsQuestion \<Rightarrow> bool" where
  "address_question q \<longleftrightarrow> Type q = QT_A \<or> Type q = QT_AAAA"

lemma redirect_answer_ok:
  assumes "name_valid (Name q)" and "address_question q"
  shows "record_ok (redirect_answer tgt q zero_record) \<and> RecordType (redirect_answer tgt q zero_record) = Answer"
  using assms by (auto simp: redirect_answer_def UpdateFromQuestion_def zero_record_def record_ok_def Let_def
      c_str_valid address_question_def)

lemma redirected_ok:
  assumes "packet_ok p" and "list_all address_question (questions p)"
  shows "packet_ok (redirected tgt p)"
  using assms redirect_answer_ok
  by (auto simp: packet_ok_def packet_wf_def redirected_def list_all_iff SetRecursionAvailable_def
      SetAuthoritativeAnswer_def SetQueryResponse_def)

text \<open>The bytes of an answer: each 32-bit word of the target is written most significant byte first.\<close>

lemma redirect_answer_fields:
  "Name (redirect_answer tgt q r) = c_str (Name q)" "Type (redirect_answer tgt q r) = Type q"
  "Class (redirect_answer tgt q r) = Class q" "TTL (redirect_answer tgt q r) = 3600"
  "Type q = QT_A \<Longrightarrow> Len (redirect_answer tgt q r) = 4" "Type q = QT_AAAA \<Longrightarrow> Len (redirect_answer tgt q r) = 16"
  by (simp_all add: redirect_answer_def UpdateFromQuestion_def Let_def)

lemma rdata_redirect:
  assumes "ip_ok tgt"
  shows "Type q = QT_A \<Longrightarrow> rdata (Addr (redirect_answer tgt q r)) = rev (take 4 tgt)"
    and "Type q = QT_AAAA \<Longrightarrow> rdata (Addr (redirect_answer tgt q r)) =
      rev (take 4 tgt) @ rev (take 4 (drop 4 tgt)) @ rev (take 4 (drop 8 tgt)) @ rev (drop 12 tgt)"
proof -
  obtain a0 a1 a2 a3 a4 a5 a6 a7 a8 a9 a10 a11 a12 a13 a14 a15 where
    "tgt = [a0, a1, a2, a3, a4, a5, a6, a7, a8, a9, a10, a11, a12, a13, a14, a15]"
    using assms by (auto simp: ip_ok_def length_Suc_conv eval_nat_numeral)
  then show "Type q = QT_A \<Longrightarrow> rdata (Addr (redirect_answer tgt q r)) = rev (take 4 tgt)"
    and "Type q = QT_AAAA \<Longrightarrow> rdata (Addr (redirect_answer tgt q r)) =
      rev (take 4 tgt) @ rev (take 4 (drop 4 tgt)) @ rev (take 4 (drop 8 tgt)) @ rev (drop 12 tgt)"
    by (simp_all add: redirect_answer_def Let_def ip_word_def le32_def byte_simps)
qed

lemma redirect_cong:
  assumes "same_packet q p"
  shows "packet_bytes (redirected tgt q) = packet_bytes (redirected tgt p)"
    and "list_all address_question (questions q) = list_all address_question (questions p)"
proof -
  note c = assms [unfolded same_packet_def]
  have qs: "map (\<lambda>q. q\<lparr>Start := 0\<rparr>) (questions q) = map (\<lambda>q. q\<lparr>Start := 0\<rparr>) (questions p)"
    using arg_cong [OF c, of questions] by (simp add: packet_core_def)
  have ans: "record_bytes (redirect_answer tgt (x\<lparr>Start := 0\<rparr>) r) = record_bytes (redirect_answer tgt x r)" for x r
    by (simp add: redirect_answer_def UpdateFromQuestion_def Let_def record_bytes_def question_bytes_def)
  have "map (\<lambda>x. record_bytes (redirect_answer tgt x zero_record)) (questions q) =
      map (\<lambda>x. record_bytes (redirect_answer tgt x zero_record)) (questions p)"
    using arg_cong [OF qs, of "map (\<lambda>x. record_bytes (redirect_answer tgt x zero_record))"] by (simp add: comp_def ans)
  then have "packet_bytes (redirected tgt q) = packet_bytes (packet_core (redirected tgt q)) \<and>
      map record_bytes (answers (redirected tgt q)) = map record_bytes (answers (redirected tgt p))"
    by (simp add: redirected_def comp_def)
  moreover have "header q = header p" "map question_bytes (questions q) = map question_bytes (questions p)"
    "map record_bytes (authorities q) = map record_bytes (authorities p)"
    "map record_bytes (additionals q) = map record_bytes (additionals p)"
    using arg_cong [OF c, of header] arg_cong [OF c, of "map question_bytes \<circ> questions"]
      arg_cong [OF c, of "map record_bytes \<circ> authorities"] arg_cong [OF c, of "map record_bytes \<circ> additionals"]
    by (simp_all add: packet_core_def comp_def)
  ultimately show "packet_bytes (redirected tgt q) = packet_bytes (redirected tgt p)"
    by (simp add: packet_bytes_def redirected_def)
  have "address_question (x\<lparr>Start := 0\<rparr>) = address_question x" for x by (simp add: address_question_def)
  then show "list_all address_question (questions q) = list_all address_question (questions p)"
    using arg_cong [OF qs, of "list_all address_question"] by (simp add: list.pred_map comp_def)
qed

lemma handle_redirect:
  assumes p: "datagram_ok p" "header p = Some h" "DnsHeader_Validate IncomingRequest h = E_NOERROR" "env_port e ep \<noteq> 0"
    and ev: "Evaluate (request_input e ep v s) (ruleData s) = Ret (Do_Redirect tgt)"
    and q: "list_all address_question (questions p)" "length (packet_bytes (redirected tgt p)) < MAX_PACKET_SZ"
  shows "\<exists>b. handle e (Datagram (packet_bytes p) ep v) s =
     Ret ((store_buffer v b s)\<lparr>sent := sent s @ [(ep, v, packet_bytes (redirected tgt p))]\<rparr>)"
proof -
  from receive_packet [OF p(1,4,2)] Validate_direction(1) [OF p(3)] obtain p' b where p': "same_packet p' p"
    and rc: "receive e (packet_bytes p) ep v s = processRequest e p' ep v (store_buffer v b s)" by fastforce
  note d = same_packetD [OF p'] and r = redirect_cong [OF p']
  from p(1) d(2) have ok: "packet_ok p'" by (simp add: datagram_ok_def)
  then have wf: "packet_wf p'" by (simp add: packet_ok_def)
  have qc: "QuestionCount h \<noteq> 0" using p(3) by (auto simp: DnsHeader_Validate_def split: if_splits)
  have "DnsPacket_Validate IncomingRequest p' = Ret ()" using d(1) p by (simp add: DnsPacket_Validate_def)
  then have "processRequest e p' ep v (store_buffer v b s) = DnsServer_Redirect p' ep v tgt (store_buffer v b s)"
    using ev by (simp add: processRequest_def)
  also have "\<dots> = Ret ((store_buffer v b s)\<lparr>sent := sent s @ [(ep, v, packet_bytes (redirected tgt p))]\<rparr>)"
    using d(1) p(2) q r by (simp add: DnsServer_Redirect_def updateRedirectResponse_eq [OF wf _ qc] sendPacket_ok redirected_ok [OF ok])
  finally show ?thesis using rc by auto
qed

section \<open>Datagrams without effect\<close>

lemma handle_short:
  "length bs < sizeof_DnsHeader \<Longrightarrow> \<exists>b. handle e (Datagram bs ep v) s = Ret (store_buffer v b s)"
  by (auto simp: receive_def Let_def)

lemma handle_stranger:
  assumes "ep \<notin> set (endpoints s)" and "DnsPacket_Read (filled bs (if v then recvBuffer4 s else recvBuffer6 s)) = Ret (p, c)"
    and "header p = Some h" and "GetQueryResponse h"
  shows "\<exists>b. handle e (Datagram bs ep v) s = Ret (store_buffer v b s)"
proof (cases "sizeof_DnsHeader \<le> length bs \<and> env_port e ep \<noteq> 0")
  case True
  have "find_index (\<lambda>server. us_endpoint server = ep) (servers s) = None"
    using assms(1) by (auto simp: endpoints_def)
  with True assms receive_eq [of bs e ep v s] show ?thesis
    by (auto simp: IsRequest_def header_of_def processUpstreamResponse_def)
qed (auto simp: receive_def Let_def)

section \<open>A client that is never answered\<close>

text \<open>The client is not a source of any query in flight.\<close>

definition unknown :: "'ep \<Rightarrow> 'ep DnsServer \<Rightarrow> bool" where
  "unknown ep s \<longleftrightarrow> (\<forall>r \<in> set (inflight (requests (peerRequests s))). ep \<notin> src_endpoint ` set (source r # source_next r))"

text \<open>Between two states nothing is sent to the client.\<close>

definition silent :: "'ep \<Rightarrow> 'ep DnsServer \<Rightarrow> 'ep DnsServer \<Rightarrow> bool" where
  "silent ep s s' \<longleftrightarrow> (\<exists>xs. sent s' = sent s @ xs \<and> ep \<notin> fst ` set xs)"

lemma silent_refl: "sent s' = sent s \<Longrightarrow> silent ep s s'"
  by (simp add: silent_def)

lemma silent_trans: "silent ep s t \<Longrightarrow> silent ep t u \<Longrightarrow> silent ep s u"
  unfolding silent_def by (metis (no_types, lifting) Un_iff append.assoc image_Un set_append)

lemma silent_sent: "sent t = sent s \<Longrightarrow> silent ep t u \<Longrightarrow> silent ep s u"
  by (simp add: silent_def)

lemma unknown_subseq:
  assumes "subseq (inflight (requests q)) (inflight (requests (peerRequests s)))" and "unknown ep s"
  shows "unknown ep (t\<lparr>peerRequests := q\<rparr>)"
proof -
  have "set (inflight (requests q)) \<subseteq> set (inflight (requests (peerRequests s)))" using subseqD [OF assms(1)] by blast
  then show ?thesis using assms(2) unfolding unknown_def DnsServer.select_convs DnsServer.update_convs by fastforce
qed

lemma unknown_same: "same_tables s s' \<Longrightarrow> unknown ep s \<Longrightarrow> unknown ep s'"
  by (simp add: same_tables_def unknown_def)

lemma unknown_put:
  assumes "unknown ep (s\<lparr>peerRequests := p\<rparr>)" and "ep \<notin> src_endpoint ` set (source y # source_next y)"
  shows "unknown ep (s\<lparr>peerRequests := put_record r y p\<rparr>)"
proof -
  have "set (inflight ((requests p)[r := y])) \<subseteq> insert y (set (inflight (requests p)))"
    using set_update_subset_insert [of "requests p" r y] by (auto simp: set_inflight)
  with assms show ?thesis unfolding unknown_def by (auto simp del: image_insert)
qed

lemma send_silent: "sendPacket packet dst v s = Ret s' \<Longrightarrow> dst \<noteq> ep \<Longrightarrow> silent ep s s'"
  by (auto simp: sendPacket_def silent_def split: outcome.splits)

lemma refuse_silent: "refuse packet dst v s = Ret s' \<Longrightarrow> dst \<noteq> ep \<Longrightarrow> silent ep s s'"
  by (auto simp: refuse_def obind_Ret_iff intro: send_silent)

lemma answer_silent:
  "answer_sources packet srcs s = Ret s' \<Longrightarrow> ep \<notin> src_endpoint ` set srcs \<Longrightarrow> silent ep s s'"
proof (induction srcs arbitrary: packet s)
  case (Cons src srcs)
  from Cons.prems(1) obtain q u where u: "sendPacket q (src_endpoint src) (src_ipv4 src) s = Ret u" "answer_sources q srcs u = Ret s'"
    by (auto simp: obind_Ret_iff)
  have "silent ep s u" using send_silent [OF u(1)] Cons.prems(2) by auto
  moreover have "silent ep u s'" using Cons.IH [OF u(2)] Cons.prems(2) by simp
  ultimately show ?case by (rule silent_trans)
qed (simp add: silent_refl)

lemma forward_silent:
  assumes "forward r packet k n s = Ret s'" and "ep \<notin> set (endpoints s)" and "k + n \<le> length (servers s)"
  shows "silent ep s s'"
  using assms
proof (induction n arbitrary: k s)
  case (Suc n)
  let ?s = "upd_requests (\<lambda>p. put_record r ((requests p ! r)\<lparr>sentTo := Some k\<rparr>) p) s"
  let ?t = "?s\<lparr>servers := (servers ?s)[k := (servers ?s ! k)\<lparr>queries := queries (servers ?s ! k) + 1\<rparr>]\<rparr>"
  from Suc.prems(1) obtain u where send: "sendPacket packet (us_endpoint (servers s ! k)) (us_ipv4 (servers s ! k)) ?t = Ret u"
    and fwd: "forward r packet (k + 1) n u = Ret s'"
    by (auto simp: Let_def outcome_simps)
  have "us_endpoint (servers s ! k) \<in> set (endpoints s)" using Suc.prems(3) by (simp add: endpoints_def)
  with Suc.prems(2) have "us_endpoint (servers s ! k) \<noteq> ep" by auto
  from silent_sent [OF _ send_silent [OF send this]] have "silent ep s u" by simp
  moreover have eps: "endpoints u = endpoints s"
    using same_tables_send [OF send] by (simp add: same_tables_def endpoints_def map_update_same)
  from arg_cong [OF eps, of length] have "length (servers u) = length (servers s)" by (simp add: endpoints_def)
  with eps Suc.prems have "silent ep u s'" by (intro Suc.IH [OF fwd]) simp_all
  ultimately show ?case by (rule silent_trans)
qed (simp add: silent_refl)

lemma resolve_silent:
  assumes res: "resolve e packet dst v s = Ret s'" and dst: "dst \<noteq> ep" and ep: "ep \<notin> set (endpoints s)"
  shows "silent ep s s'"
proof (cases "servers s = []")
  case False
  with res obtain digest where h: "DnsPacket_Hash (env_digest e) packet = Ret digest"
    by (auto simp: resolve_def outcome_simps)
  show ?thesis
  proof (cases "LookupByQuery digest 0 7 (peerRequests s)")
    case None
    with False res h obtain ro packet' t where rn: "resolve_new e digest packet dst v s = Ret (ro, packet', t)"
      and s': "(case ro of None \<Rightarrow> Ret t | Some r \<Rightarrow> forward r packet' 0 (length (servers t)) t) = Ret s'"
      by (auto simp: resolve_def outcome_simps)
    show ?thesis
    proof (cases ro)
      case None
      obtain go q where g: "GetNewRecord (env_record e) (env_now e) False (peerRequests s) = (go, q)" by fastforce
      from rn None g s' have "refuse packet dst v (s\<lparr>peerRequests := q\<rparr>) = Ret s'"
        by (cases go; auto simp: resolve_new_def outcome_simps split: option.splits)
      from silent_sent [OF _ refuse_silent [OF this dst]] show ?thesis by simp
    next
      case (Some r)
      have t: "sent t = sent s \<and> servers t = servers s" by (rule resolve_new_SomeE [OF rn [unfolded Some]]) simp
      from s' Some have "forward r packet' 0 (length (servers t)) t = Ret s'" by simp
      from silent_sent [OF conjunct1 [OF t] forward_silent [OF this]] show ?thesis using ep t by (simp add: endpoints_def)
    qed
  next
    case (Some r)
    show ?thesis
    proof (cases "HasTimedOut (requests (peerRequests s) ! r)")
      case True
      with False res h Some have "forward r packet 0 (length (servers s)) (upd_requests (FreePeerRequestRecord r) s) = Ret s'"
        by (simp add: resolve_def)
      from silent_sent [OF _ forward_silent [OF this]] show ?thesis using ep by (simp add: endpoints_def)
    next
      case no: False
      with False res h Some have "resolve_repeat e r packet dst v s = Ret s'" by (simp add: resolve_def)
      from resolve_repeat_cases [OF this] show ?thesis
        using refuse_silent [OF _ dst] silent_sent [of "s\<lparr>peerRequests := handleMaxFwdQueries (env_now e) (peerRequests s)\<rparr>" s ep s']
        by (auto simp: silent_refl)
    qed
  qed
qed (use res in \<open>simp add: resolve_def silent_refl\<close>)

lemma resolve_unknown:
  assumes res: "resolve e packet dst v s = Ret s'" and dst: "dst \<noteq> ep" and inv: "server_inv s" and ep: "unknown ep s"
  shows "unknown ep s'"
proof -
  from inv have ri: "requests_inv (peerRequests s)" and ti: "tidy (peerRequests s)" by (auto simp: server_inv_def)
  have self: "s\<lparr>peerRequests := peerRequests s\<rparr> = s" by simp
  from res ri show ?thesis
  proof (cases rule: resolve_cases)
    case same
    then show ?thesis using ep by (rule unknown_same)
  next
    case (refused q)
    have "subseq (inflight (requests q)) (inflight (requests (peerRequests s)))"
      using inflight_expire GetNewRecord_None(1) [OF refused(1)] by simp
    from unknown_subseq [OF this ep] have "unknown ep (s\<lparr>peerRequests := q\<rparr>)" .
    with refused(2) show ?thesis by (rule unknown_same)
  next
    case (again digest r)
    note l = LookupByQuery_Some [OF ri again(2)]
    have "requests (peerRequests s) ! r \<in> set (inflight (requests (peerRequests s)))" using l by (simp add: set_inflight)
    with ep have "ep \<notin> src_endpoint ` set (source (requests (peerRequests s) ! r) # source_next (requests (peerRequests s) ! r))"
      unfolding unknown_def by blast
    then have "unknown ep (s\<lparr>peerRequests := put_record r ((free_record (requests (peerRequests s) ! r))
        \<lparr>sentTo := Some (length (servers s) - 1)\<rparr>) (peerRequests s)\<rparr>)"
      using ep by (intro unknown_put) (simp_all add: self free_record_def)
    with again(3) show ?thesis by (rule unknown_same)
  next
    case (new digest r packet' t)
    note n = resolve_new_Some [OF new(3) ri new(2)]
    obtain p src i q where
      g: "GetNewRecord (env_record e) (env_now e) False (peerRequests s) = (Some r, p)"
      and i: "GetNewId (env_draw e) (put_record r ((requests p ! r)\<lparr>source := src\<rparr>) p) = Some (i, q)"
      and t: "t = s\<lparr>peerRequests := put_record r ((requests q ! r)\<lparr>newId := i, req_hash := digest, flags := 0\<rparr>) q\<rparr>"
      by (rule resolve_new_SomeE [OF new(3)])
    note slot = GetNewRecord_Some [OF g]
    from slot(1) have r: "r < length (requests p)" "sentTo (requests p ! r) = None" by (auto simp: free_slot_def)
    have "inflight (requests (peerRequests t)) = inflight (requests p)"
      using r GetNewId_Some(2) [OF i] by (simp add: t inflight_same)
    with unknown_subseq [OF _ ep, of "peerRequests t" s] slot(3) have "unknown ep (s\<lparr>peerRequests := peerRequests t\<rparr>)" by simp
    moreover have "src_endpoint (source (requests (peerRequests t) ! r)) = dst"
      using n(6) by (metis PeerSource.select_convs(1) PeerSource.update_convs(1,2,3) PeerSource.surjective)
    moreover have "source_next (requests (peerRequests t) ! r) = []"
      using n(2) n(12) [OF ti] by (auto simp: free_slot_def tidy_def list_all_length)
    ultimately have "unknown ep (s\<lparr>peerRequests := put_record r ((requests (peerRequests t) ! r)
        \<lparr>sentTo := Some (length (servers s) - 1)\<rparr>) (peerRequests t)\<rparr>)"
      using dst by (intro unknown_put) simp_all
    with new(4) show ?thesis by (rule unknown_same)
  qed
qed

lemma processRequest_silent:
  assumes "processRequest e packet dst v s = Ret s'" and "dst \<noteq> ep" and "ep \<notin> set (endpoints s)" and "server_inv s" and "unknown ep s"
  shows "silent ep s s'" and "unknown ep s'"
proof -
  have "silent ep s s' \<and> unknown ep s'"
  proof (cases "DnsPacket_Validate IncomingRequest packet")
    case (Ret u)
    with assms(1) obtain d where d: "(case d of Do_Resolve \<Rightarrow> DnsServer_Resolve e packet dst v s
        | Do_Redirect tgt \<Rightarrow> DnsServer_Redirect packet dst v tgt s) = Ret s'"
      unfolding processRequest_def Let_def by (auto simp: obind_Ret_iff)
    show ?thesis
    proof (cases d)
      case Do_Resolve
      with d have "resolve e packet dst v s = Ret s'" by (simp add: DnsServer_Resolve_def)
      from resolve_silent [OF this assms(2,3)] resolve_unknown [OF this assms(2,4,5)] show ?thesis by blast
    next
      case (Do_Redirect tgt)
      with d have r: "DnsServer_Redirect packet dst v tgt s = Ret s'" by simp
      then have "silent ep s s'" using send_silent [OF _ assms(2)] by (auto simp: DnsServer_Redirect_def obind_Ret_iff)
      with unknown_same [OF Redirect_tables [OF r] assms(5)] show ?thesis by blast
    qed
  qed (use assms in \<open>auto simp: processRequest_def obind_Ret_iff silent_refl\<close>)
  then show "silent ep s s'" "unknown ep s'" by auto
qed

lemma processUpstreamResponse_silent:
  assumes "processUpstreamResponse e packet dst s = Ret s'" and "unknown ep s"
  shows "silent ep s s'" and "unknown ep s'"
proof -
  have "silent ep s s' \<and> unknown ep s'"
    using assms(1)
  proof (cases rule: processUpstreamResponse_cases)
    case dropped
    then show ?thesis using unknown_same [OF _ assms(2)] by (simp add: silent_refl)
  next
    case (answered k digest i r packet' t)
    from answered(9) obtain u where u: "answer_sources packet' (source (requests (peerRequests s) ! r) #
         source_next (requests (peerRequests s) ! r)) t = Ret u" "s' = upd_requests (FreePeerRequestRecord r) u"
      by (auto simp: obind_Ret_iff)
    have "requests (peerRequests s) ! r \<in> set (inflight (requests (peerRequests s)))"
      using answered(5) by (auto simp: Lookup_def set_inflight dest!: find_index_Some)
    with assms(2) have "ep \<notin> src_endpoint ` set (source (requests (peerRequests s) ! r) # source_next (requests (peerRequests s) ! r))"
      unfolding unknown_def by blast
    from silent_sent [OF answered(8) answer_silent [OF u(1) this]] have "silent ep s u" .
    moreover have "unknown ep u" using unknown_same [OF same_tables_trans [OF answered(7) same_tables_answer [OF u(1)]] assms(2)] .
    from unknown_subseq [OF free_subseq [of r] this] have "unknown ep s'" by (simp only: u(2))
    ultimately show ?thesis by (simp add: u(2) silent_def)
  qed
  then show "silent ep s s'" "unknown ep s'" by auto
qed

lemma handle_silent:
  assumes h: "handle e ev s = Ret s'" and ev: "\<forall>bs v. ev \<noteq> Datagram bs ep v" and ep: "ep \<notin> set (endpoints s)"
    and inv: "server_inv s" and un: "unknown ep s"
  shows "silent ep s s' \<and> unknown ep s'"
proof (cases ev)
  case (Datagram bs dst v)
  with ev have dst: "dst \<noteq> ep" by auto
  have buf: "sent (store_buffer v b s) = sent s" "unknown ep (store_buffer v b s)" "server_inv (store_buffer v b s)"
    "ep \<notin> set (endpoints (store_buffer v b s))" for b using un inv ep by (simp_all add: unknown_def)
  from h Datagram have "receive e bs dst v s = Ret s'" by simp
  then show ?thesis
  proof (cases rule: receive_cases)
    case (dropped b)
    with buf [of b] show ?thesis by (simp add: silent_refl)
  next
    case (request p c)
    from processRequest_silent [OF request(2) dst buf(4,3,2)] silent_sent [OF buf(1) [of c]] show ?thesis by blast
  next
    case (response p c)
    from processUpstreamResponse_silent [OF response(2) buf(2)] silent_sent [OF buf(1) [of c]] show ?thesis by blast
  qed
next
  case (Frame bpb)
  with h have "peerRequests s' = peerRequests s \<and> sent s' = sent s"
    by (auto simp: receive_raw_def receiveRawData_def obind_Ret_iff split: outcome.splits if_splits)
  with un show ?thesis by (simp add: silent_refl unknown_def)
next
  case (RuleTool c)
  with h un show ?thesis by (auto simp: obind_Ret_iff silent_refl unknown_def)
qed

text \<open>Whatever happens while the client sends nothing.\<close>

inductive without :: "'ep \<Rightarrow> 'ep DnsServer \<Rightarrow> 'ep DnsServer \<Rightarrow> bool" for ep s0 where
  without_start: "without ep s0 s0"
| without_step: "without ep s0 s \<Longrightarrow> \<forall>bs v. ev \<noteq> Datagram bs ep v \<Longrightarrow> length (env_digest e) = 64 \<Longrightarrow> ip_ok (env_union e) \<Longrightarrow>
    handle e ev s = Ret s' \<Longrightarrow> without ep s0 s'"

lemma without_reachable: "without ep s0 s \<Longrightarrow> reachable s0 s"
  by (induction rule: without.induct) (auto intro: reachable.intros)

lemma without_silent:
  assumes "without ep s0 s" and "server_inv s0" and "ep \<notin> set (endpoints s0)" and "unknown ep s0"
  shows "silent ep s0 s \<and> unknown ep s \<and> endpoints s = endpoints s0"
  using assms
proof (induction rule: without.induct)
  case (without_step s ev e s')
  then have ih: "silent ep s0 s" "unknown ep s" "endpoints s = endpoints s0" by auto
  have inv: "server_inv s" using reachable_inv [OF without_reachable [OF without_step.hyps(1)] without_step.prems(1)] .
  from handle_silent [OF without_step.hyps(5,2) _ inv ih(2)] ih without_step.prems(2)
  have "silent ep s s'" "unknown ep s'" by auto
  with ih silent_trans handle_endpoints [OF without_step.hyps(5) inv] show ?case by metis
qed (simp add: silent_refl)

section \<open>The same question again\<close>

text \<open>
  A question that is in flight since later than ten seconds after the epoch counts as timed out. Its
  record is freed and at once marked as sent again, with the client and the identifier of the first
  query; the packet goes out with the identifier of the new client.
\<close>

lemma resolve_duplicate:
  assumes inv: "server_inv s" and srv: "servers s \<noteq> []"
    and p: "packet_ok p" "length (packet_bytes p) < MAX_PACKET_SZ"
    and e: "length (env_digest e) = 64"
    and r: "LookupByQuery (query_digest p) 0 7 (peerRequests s) = Some r"
    and late: "req_time (requests (peerRequests s) ! r) > TIMEOUT"
  shows "\<exists>s'. resolve e p ep v s = Ret s' \<and>
     sent s' = sent s @ map (\<lambda>server. (us_endpoint server, us_ipv4 server, packet_bytes p)) (servers s) \<and>
     map source (requests (peerRequests s')) = map source (requests (peerRequests s)) \<and>
     map newId (requests (peerRequests s')) = map newId (requests (peerRequests s)) \<and>
     source_next (requests (peerRequests s') ! r) = [] \<and> (unknown ep s \<longrightarrow> unknown ep s')"
proof -
  let ?t = "upd_requests (FreePeerRequestRecord r) s"
  from inv have ri: "requests_inv (peerRequests s)" by (simp add: server_inv_def)
  note l = LookupByQuery_Some [OF ri r]
  from forward_ok [OF p, of 0 "length (servers s)" ?t r] obtain s' where
    fwd: "forward r p 0 (length (servers s)) ?t = Ret s'"
    and sent: "sent s' = sent s @ map (\<lambda>server. (us_endpoint server, us_ipv4 server, packet_bytes p)) (servers s)" by auto
  have "resolve e p ep v s = Ret s'"
    using srv r late fwd by (simp add: resolve_def Hash_eq [OF p(1) e] HasTimedOut_def)
  moreover from forward_tables [OF fwd] l(1) srv have
    "requests (peerRequests s') = (requests (peerRequests s))[r := (free_record (requests (peerRequests s) ! r))
       \<lparr>sentTo := Some (length (servers s) - 1)\<rparr>]" by simp
  moreover have "unknown ep s'" if "unknown ep s"
  proof -
    have "requests (peerRequests s) ! r \<in> set (inflight (requests (peerRequests s)))" using l by (simp add: set_inflight)
    with that have "ep \<notin> src_endpoint ` set (source (requests (peerRequests s) ! r) # source_next (requests (peerRequests s) ! r))"
      unfolding unknown_def by blast
    then have "unknown ep (s\<lparr>peerRequests := put_record r ((free_record (requests (peerRequests s) ! r))
        \<lparr>sentTo := Some (length (servers s) - 1)\<rparr>) (peerRequests s)\<rparr>)"
      using that by (intro unknown_put) (simp_all add: free_record_def)
    with calculation(2) show ?thesis by (simp add: unknown_def)
  qed
  ultimately show ?thesis
    using sent l(1) by (simp add: map_update_same free_record_def)
qed

text \<open>The datagram of such a client with a question that is in flight.\<close>

lemma handle_duplicate:
  assumes inv: "server_inv s" and srv: "servers s \<noteq> []" and q: "client_query e p h ep v s" and e: "length (env_digest e) = 64"
    and r: "LookupByQuery (query_digest p) 0 7 (peerRequests s) = Some r"
    and late: "req_time (requests (peerRequests s) ! r) > TIMEOUT"
  shows "\<exists>s'. handle e (Datagram (packet_bytes p) ep v) s = Ret s' \<and>
     sent s' = sent s @ map (\<lambda>server. (us_endpoint server, us_ipv4 server, packet_bytes p)) (servers s) \<and>
     map source (requests (peerRequests s')) = map source (requests (peerRequests s)) \<and>
     map newId (requests (peerRequests s')) = map newId (requests (peerRequests s)) \<and>
     server_inv s' \<and> endpoints s' = endpoints s \<and> (unknown ep s \<longrightarrow> unknown ep s')"
proof -
  from q have p: "datagram_ok p" "header p = Some h" "DnsHeader_Validate IncomingRequest h = E_NOERROR" "env_port e ep \<noteq> 0"
    and ev: "Evaluate (request_input e ep v s) (ruleData s) = Ret Do_Resolve" by (auto simp: client_query_def)
  from receive_packet [OF p(1,4,2)] Validate_direction(1) [OF p(3)] obtain p' b where p': "same_packet p' p"
    and rc: "receive e (packet_bytes p) ep v s = processRequest e p' ep v (store_buffer v b s)" by fastforce
  let ?s = "store_buffer v b s"
  note d = same_packetD [OF p']
  have bytes: "packet_bytes p' = packet_bytes p" using p' by (metis packet_bytes_core same_packet_def)
  have res: "receive e (packet_bytes p) ep v s = resolve e p' ep v ?s"
    unfolding rc using ev p d(1) by (intro processRequest_resolve) simp_all
  from p(1) have ok: "packet_ok p'" "length (packet_bytes p') < MAX_PACKET_SZ" using d by (auto simp: datagram_ok_def)
  have "\<exists>s'. resolve e p' ep v ?s = Ret s' \<and>
     sent s' = sent ?s @ map (\<lambda>server. (us_endpoint server, us_ipv4 server, packet_bytes p')) (servers ?s) \<and>
     map source (requests (peerRequests s')) = map source (requests (peerRequests ?s)) \<and>
     map newId (requests (peerRequests s')) = map newId (requests (peerRequests ?s)) \<and>
     source_next (requests (peerRequests s') ! r) = [] \<and> (unknown ep ?s \<longrightarrow> unknown ep s')"
    using inv srv r late d(3) by (intro resolve_duplicate [OF _ _ ok e]) simp_all
  then obtain s' where s': "resolve e p' ep v ?s = Ret s'"
    "sent s' = sent s @ map (\<lambda>server. (us_endpoint server, us_ipv4 server, packet_bytes p)) (servers s)"
    "map source (requests (peerRequests s')) = map source (requests (peerRequests s))"
    "map newId (requests (peerRequests s')) = map newId (requests (peerRequests s))" "unknown ep s \<longrightarrow> unknown ep s'"
    by (auto simp: bytes unknown_def)
  have "handle e (Datagram (packet_bytes p) ep v) s = Ret s'" using res s'(1) by simp
  moreover have "server_inv s'" using resolve_inv [OF s'(1)] inv by simp
  moreover have "endpoints s' = endpoints s" using handle_endpoints [OF calculation(1) inv] .
  ultimately show ?thesis using s' by blast
qed

section \<open>Hardware addresses\<close>

text \<open>A DNS query in a frame: its destination port and the bit that marks responses.\<close>

lemma handle_frame:
  assumes "InPacket_Read (env_union e) (bpb\<lparr>bb_pos := 0, bb_udp := 0\<rparr>) = Ret (x, bb)"
    and "DestinationPort x = dnsPort s" and "ahead bb (a # b # c # rest)" and "c AND 0x80 = 0"
  shows "handle e (Frame bpb) s = Ret (s\<lparr>ethmappings :=
     snd (EthMappings_Add (env_now e) (EthSource x) True (IpSource x) (ethmappings s))\<rparr>)"
proof -
  have "PEEK_BYTE bb 2 = Ret c" using PEEK_BYTE_ahead [OF assms(3), of 2] by simp
  moreover have "bb_pos bb + 2 \<le> bb_size bb" using assms(3) by (simp add: ahead_def)
  ultimately show ?thesis using assms by (simp add: receive_raw_def receiveRawData_def)
qed

text \<open>Every mapping is stored as one for IPv4.\<close>

definition only_ipv4 :: "'ep DnsServer \<Rightarrow> bool" where
  "only_ipv4 s \<longleftrightarrow> list_all mac_ipv4 (used_records (ethmappings s))"

lemma Add_only_ipv4:
  assumes "mappings_inv m" and "list_all mac_ipv4 (used_records m)"
  shows "list_all mac_ipv4 (used_records (snd (EthMappings_Add now hw True ip m)))"
proof (cases "fst (EthMappings_Add now hw True ip m)")
  case True
  from Add_success [OF assms(1) True] obtain r where
    "set (used_records (snd (EthMappings_Add now hw True ip m))) \<subseteq> insert (fill_record now hw True ip r) (set (used_records m))"
    by metis
  moreover have "mac_ipv4 (fill_record now hw True ip r)" by (simp add: fill_record_def)
  ultimately show ?thesis using assms(2) by (auto simp: list_all_iff)
next
  case False
  with Add_failure [OF assms(1) False] assms(2) show ?thesis by simp
qed

lemma receive_raw_only_ipv4:
  assumes "receive_raw e bpb s = Ret s'" and "server_inv s" and "only_ipv4 s"
  shows "only_ipv4 s'"
proof (cases "InPacket_Read (env_union e) (bpb\<lparr>bb_pos := 0, bb_udp := 0\<rparr>)")
  case (Ret x)
  obtain y b where x: "x = (y, b)" by fastforce
  have "mappings_inv (ethmappings s)" using assms(2) by (simp add: server_inv_def)
  with assms Ret x show ?thesis
    by (auto simp: receive_raw_def receiveRawData_def obind_Ret_iff only_ipv4_def Add_only_ipv4 split: if_splits)
qed (use assms in \<open>auto simp: receive_raw_def receiveRawData_def\<close>)

lemma handle_only_ipv4:
  assumes "handle e ev s = Ret s'" and "server_inv s" and "only_ipv4 s"
  shows "only_ipv4 s'"
proof (cases ev)
  case (Datagram bs ep v)
  with assms receive_fixed [of e bs ep v s s'] show ?thesis by (simp add: only_ipv4_def)
next
  case (Frame bpb)
  with assms receive_raw_only_ipv4 show ?thesis by fastforce
next
  case (RuleTool c)
  with assms show ?thesis by (auto simp: obind_Ret_iff only_ipv4_def)
qed

lemma reachable_only_ipv4:
  "reachable s0 s \<Longrightarrow> server_inv s0 \<Longrightarrow> only_ipv4 s0 \<Longrightarrow> only_ipv4 s"
  by (induction rule: reachable.induct) (auto intro: handle_only_ipv4 reachable_inv)

lemma only_ipv4_LookUp: "only_ipv4 s \<Longrightarrow> EthMappings_LookUp ip False (ethmappings s) = None"
  by (auto simp: only_ipv4_def EthMappings_LookUp_def find_None_iff list_all_iff)

text \<open>After a DNS query of a station in a frame, the rules see its hardware address.\<close>

lemma learned_input:
  assumes "mappings_inv (ethmappings s)" and "length ipsrc = 4" and "ip_ok junk"
    and "fst (EthMappings_Add now src True (ipsrc @ drop 4 junk) (ethmappings s))"
    and "\<forall>r \<in> set (used_records (ethmappings s)). ethaddress r \<noteq> src \<longrightarrow> mac_ipv4 r \<longrightarrow> take 4 (ipaddress r) \<noteq> ipsrc"
    and "ethmappings t = snd (EthMappings_Add now src True (ipsrc @ drop 4 junk) (ethmappings s))"
    and "env_address e ep = ipsrc"
  shows "request_input e ep True t = \<lparr>in_ipv4 = True, in_ethaddr = src, in_ipaddr = ipsrc @ replicate 12 0\<rparr>"
proof -
  have word: "ip_word a 0 = ip_word b 0 \<longleftrightarrow> take 4 a = take 4 b" if len: "4 \<le> length a" "4 \<le> length b" for a b
  proof -
    obtain a0 a1 a2 a3 a' where a: "a = a0 # a1 # a2 # a3 # a'"
      using len(1) by (auto simp: Suc_le_length_iff numeral_eq_Suc)
    obtain b0 b1 b2 b3 b' where b: "b = b0 # b1 # b2 # b3 # b'"
      using len(2) by (auto simp: Suc_le_length_iff numeral_eq_Suc)
    show ?thesis by (auto simp: a b ip_word_def le32_def be32_inject)
  qed
  let ?ip = "ipsrc @ drop 4 junk"
  have ok: "ip_ok ?ip" using assms(2,3) by (simp add: ip_ok_def)
  have "\<forall>r \<in> set (used_records (ethmappings s)). ip_ok (ipaddress r)"
    using assms(1) by (auto simp: mappings_inv_def record_wf_def list_all_iff used_records_def dest: in_set_takeD)
  then have "\<forall>r \<in> set (used_records (ethmappings s)). ethaddress r \<noteq> src \<longrightarrow>
      (mac_ipv4 r, ip_key (mac_ipv4 r) (ipaddress r)) \<noteq> (True, ip_key True ?ip)"
    using assms(2,5) ok by (auto simp: ip_key_def word ip_ok_def)
  from LookUp_after_Add [OF assms(1) ok assms(4) this] obtain r where
    r: "EthMappings_LookUp ?ip True (ethmappings t) = Some r" "ethaddress r = src" using assms(6) by auto
  have "ip_word (ipsrc @ replicate 12 0) 0 = ip_word ?ip 0" using assms(2,3) by (simp add: word ip_ok_def)
  then have "EthMappings_LookUp (ipsrc @ replicate 12 0) True (ethmappings t) = EthMappings_LookUp ?ip True (ethmappings t)"
    by (simp add: EthMappings_LookUp_def)
  with r assms(7) show ?thesis by (simp add: request_input_def client_address_def)
qed

end
