(* ===== verification/Option_Printer.thy ===== *)
theory Option_Printer
  imports Prelude "HOL-Library.List_Lexorder" "HOL-Library.Char_ord"
begin

text \<open>
  \<^verbatim>\<open>src/tp/customoptiondescription.cpp\<close> and \<^verbatim>\<open>src/tp/optionprinter.cpp\<close>: the help texts. An
  \<open>option_description\<close> and a \<open>positional_options_description\<close> of the options library are records of what
  their member functions return; a stream is the text written to it.
\<close>

section \<open>Options\<close>

record option_description =
  canonical_display_name :: "nat \<Rightarrow> string"
  is_required :: bool
  max_tokens :: nat
  od_description :: string
  format_name :: string

record positional_options =
  max_total_count :: nat
  name_for_position :: "nat \<Rightarrow> string"

record CustomOptionDescription =
  optionID :: string
  optionDisplayName :: string
  optionDescription :: string
  optionFormatName :: string
  required :: bool
  hasShort :: bool
  hasArgument :: bool
  isPositional :: bool

abbreviation (input) LONG_NON_PREPENDED_IF_EXIST_ELSE_PREPENDED_SHORT :: nat where
  "LONG_NON_PREPENDED_IF_EXIST_ELSE_PREPENDED_SHORT \<equiv> 0"
abbreviation (input) LONG_PREPENDED_IF_EXIST_ELSE_PREPENDED_SHORT :: nat where
  "LONG_PREPENDED_IF_EXIST_ELSE_PREPENDED_SHORT \<equiv> 1"
abbreviation (input) SHORT_PREPENDED_IF_EXIST_ELSE_LONG :: nat where
  "SHORT_PREPENDED_IF_EXIST_ELSE_LONG \<equiv> 4"
abbreviation (input) SHORT_OPTION_STRING_LENGTH :: nat where "SHORT_OPTION_STRING_LENGTH \<equiv> 2"
abbreviation (input) ADEQUATE_WIDTH_FOR_OPTION_NAME :: nat where "ADEQUATE_WIDTH_FOR_OPTION_NAME \<equiv> 20"

definition custom_option :: "option_description \<Rightarrow> CustomOptionDescription" where
  "custom_option opt =
     (let short = canonical_display_name opt SHORT_PREPENDED_IF_EXIST_ELSE_LONG;
          has = (length short = SHORT_OPTION_STRING_LENGTH)
      in \<lparr>optionID = (if has then short else canonical_display_name opt LONG_NON_PREPENDED_IF_EXIST_ELSE_PREPENDED_SHORT),
          optionDisplayName = (if has then short else canonical_display_name opt LONG_PREPENDED_IF_EXIST_ELSE_PREPENDED_SHORT),
          optionDescription = od_description opt, optionFormatName = format_name opt, required = is_required opt,
          hasShort = has, hasArgument = (max_tokens opt > 0), isPositional = False\<rparr>)"

text \<open>The loop of \<open>checkIfPositional\<close>, true for its \<open>break\<close>.\<close>

function find_position :: "positional_options \<Rightarrow> string \<Rightarrow> nat \<Rightarrow> string \<Rightarrow> bool" where
  "find_position p oid i prev =
     (if i < max_total_count p then
        let current = name_for_position p i in
        if oid = current then True
        else if max_total_count p > 1000 \<and> current = prev then False
        else find_position p oid (i + 1) current
      else False)"
  by pat_completeness auto
termination
  by (relation "measure (\<lambda>(p, oid, i, prev). max_total_count p - i)") auto

declare find_position.simps [simp del]

definition checkIfPositional :: "positional_options \<Rightarrow> CustomOptionDescription \<Rightarrow> CustomOptionDescription" where
  "checkIfPositional p c =
     (if find_position p (optionID c) 0 []
      then c\<lparr>optionDisplayName := filter (\<lambda>x. x \<noteq> CHR ''-'') (optionDisplayName c), isPositional := True\<rparr>
      else c)"

text \<open>\<open>std::setw\<close> with \<open>std::left\<close>.\<close>

definition padded :: "string \<Rightarrow> string" where
  "padded s = s @ replicate (ADEQUATE_WIDTH_FOR_OPTION_NAME - length s) CHR '' ''"

definition tab :: string where "tab = [CHR 0x09]"

definition endl :: string where "endl = [CHR 0x0A]"

definition getOptionUsageString :: "CustomOptionDescription \<Rightarrow> string" where
  "getOptionUsageString c =
     (if isPositional c then tab @ padded (optionDisplayName c) @ tab @ optionDescription c
      else tab @ padded (optionFormatName c) @ tab @ optionDescription c)"

text \<open>A \<open>std::map\<close> built from a list of pairs is walked in the order of its keys.\<close>

definition std_map :: "(string \<times> string) list \<Rightarrow> (string \<times> string) list" where
  "std_map xs = map (\<lambda>k. (k, the (map_of xs k))) (sort (remdups (map fst xs)))"

definition getPositionalOptionUsageString ::
  "string \<Rightarrow> (string \<times> string) list \<Rightarrow> CustomOptionDescription \<Rightarrow> string" where
  "getPositionalOptionUsageString subCommand subCommands c =
     (if optionID c = subCommand then
        tab @ ''A command can be one of the following (each with its own set of options):'' @ endl @
        concat (map (\<lambda>(name, what). tab @ padded name @ tab @ what @ endl) (std_map subCommands))
      else if optionID c \<noteq> ''subargs'' then
        tab @ padded (optionDisplayName c) @ tab @ optionDescription c @ endl
      else [])"

section \<open>The printer\<close>

record OptionPrinter =
  op_options :: "CustomOptionDescription list"
  positionalOptions :: "CustomOptionDescription list"

definition addOption :: "CustomOptionDescription \<Rightarrow> OptionPrinter \<Rightarrow> OptionPrinter" where
  "addOption c op =
     (if isPositional c then op\<lparr>positionalOptions := positionalOptions op @ [c]\<rparr>
      else op\<lparr>op_options := op_options op @ [c]\<rparr>)"

text \<open>\<open>operator[]\<close> at the length of the text is the terminating zero.\<close>

definition char_at :: "string \<Rightarrow> nat \<Rightarrow> char" where
  "char_at s i = (if i < length s then s ! i else CHR 0x00)"

definition usage :: "OptionPrinter \<Rightarrow> string" where
  "usage op =
     (let shorts = filter (\<lambda>c. hasShort c \<and> \<not> hasArgument c \<and> \<not> required c) (op_options op)
      in ''['' @ (if shorts = [] then [] else ''-'') @ map (\<lambda>c. char_at (optionDisplayName c) 1) shorts @ ''] '' @
         concat (map (\<lambda>c. ''['' @ optionDisplayName c @ ''] '')
           (filter (\<lambda>c. \<not> hasShort c \<and> \<not> hasArgument c \<and> \<not> required c) (op_options op))) @
         concat (map (\<lambda>c. ''['' @ optionDisplayName c @ '' ARG] '')
           (filter (\<lambda>c. hasArgument c \<and> \<not> required c) (op_options op))) @
         concat (map (\<lambda>c. optionDisplayName c @ '' ARG '')
           (filter (\<lambda>c. hasArgument c \<and> required c) (op_options op))) @
         concat (map (\<lambda>c. optionDisplayName c @ '' '') (positionalOptions op)))"

definition positionalOptionDetails :: "string \<Rightarrow> (string \<times> string) list \<Rightarrow> OptionPrinter \<Rightarrow> string" where
  "positionalOptionDetails subCommand subCommands op =
     concat (map (getPositionalOptionUsageString subCommand subCommands) (positionalOptions op))"

definition optionDetails :: "OptionPrinter \<Rightarrow> string" where
  "optionDetails op = concat (map (\<lambda>c. getOptionUsageString c @ endl) (op_options op))"

definition fill_printer ::
  "option_description list \<Rightarrow> positional_options option \<Rightarrow> OptionPrinter" where
  "fill_printer desc positionalDesc =
     fold (\<lambda>opt. addOption (case positionalDesc of None \<Rightarrow> custom_option opt | Some p \<Rightarrow> checkIfPositional p (custom_option opt)))
       desc \<lparr>op_options = [], positionalOptions = []\<rparr>"

definition printStandardAppDesc ::
  "string \<Rightarrow> option_description list \<Rightarrow> string \<Rightarrow> (string \<times> string) list \<Rightarrow> positional_options option \<Rightarrow> string" where
  "printStandardAppDesc appName desc subCommand subCommands positionalDesc =
     (let op = fill_printer desc positionalDesc
      in ''Usage: '' @ appName @ '' '' @ usage op @ endl @ endl @ ''-- Option Descriptions --'' @ endl @ endl @
         (if positionalOptions op \<noteq> []
          then ''Commands:'' @ endl @ positionalOptionDetails subCommand subCommands op @ endl else []) @
         (if op_options op \<noteq> [] then ''Option Arguments:'' @ endl @ optionDetails op @ endl else []))"

text \<open>\<open>formatRequiredOptionError\<close>: the name without the dashes in front.\<close>

definition formatRequiredOptionError :: "string \<Rightarrow> string" where
  "formatRequiredOptionError name = dropWhile (\<lambda>c. c = CHR ''-'') name"

section \<open>Which options are positional\<close>

text \<open>
  With the early exit, the loop finds every name of a description whose names are pairwise different up to the
  last one, which then repeats.
\<close>

lemma find_position_step:
  "find_position p oid i prev \<longleftrightarrow> i < max_total_count p \<and>
     (oid = name_for_position p i \<or>
      \<not> (max_total_count p > 1000 \<and> name_for_position p i = prev) \<and> find_position p oid (i + 1) (name_for_position p i))"
  by (subst find_position.simps) (auto simp: Let_def)

lemma find_position_sound:
  "find_position p oid i prev \<Longrightarrow> \<exists>j < max_total_count p. name_for_position p j = oid"
proof (induction "max_total_count p - i" arbitrary: i prev)
  case 0
  then show ?case by (simp add: find_position_step [of p oid i])
next
  case (Suc n)
  from Suc.prems consider "i < max_total_count p" "oid = name_for_position p i"
    | "find_position p oid (i + 1) (name_for_position p i)"
    by (auto simp: find_position_step [of p oid i])
  then show ?case
  proof cases
    case 2
    with Suc.hyps(1) [of "i + 1"] Suc.hyps(2) show ?thesis by simp
  qed auto
qed

lemma find_position_complete:
  assumes "j < max_total_count p" and "name_for_position p j = oid" and "i \<le> j" and "prev \<noteq> name_for_position p i"
    and distinct: "\<And>k. k < j \<Longrightarrow> name_for_position p k \<noteq> name_for_position p (k + 1)"
  shows "find_position p oid i prev"
  using assms
proof (induction "j - i" arbitrary: i prev)
  case 0
  then show ?case by (simp add: find_position_step [of p oid i])
next
  case (Suc n)
  then have "find_position p oid (i + 1) (name_for_position p i)"
    by (intro Suc.hyps(1)) auto
  with Suc.prems show ?case by (auto simp: find_position_step [of p oid i])
qed

section \<open>What the help shows\<close>

definition shown :: "positional_options option \<Rightarrow> option_description \<Rightarrow> CustomOptionDescription" where
  "shown pos opt = (case pos of None \<Rightarrow> custom_option opt | Some p \<Rightarrow> checkIfPositional p (custom_option opt))"

lemma fill_printer_eq:
  "fill_printer desc pos =
     \<lparr>op_options = filter (\<lambda>c. \<not> isPositional c) (map (shown pos) desc),
      positionalOptions = filter isPositional (map (shown pos) desc)\<rparr>"
proof -
  have "fold (\<lambda>opt. addOption (shown pos opt)) desc op =
      op\<lparr>op_options := op_options op @ filter (\<lambda>c. \<not> isPositional c) (map (shown pos) desc),
         positionalOptions := positionalOptions op @ filter isPositional (map (shown pos) desc)\<rparr>" for op
    by (induction desc arbitrary: op) (auto simp: addOption_def)
  then show ?thesis by (simp add: fill_printer_def shown_def [abs_def])
qed

lemma help_line_of_option:
  assumes "opt \<in> set desc" and "\<not> isPositional (shown pos opt)"
  shows "\<exists>u v. printStandardAppDesc appName desc sub subs pos = u @ getOptionUsageString (shown pos opt) @ endl @ v"
proof -
  let ?op = "fill_printer desc pos"
  from assms have c: "shown pos opt \<in> set (op_options ?op)" by (simp add: fill_printer_eq)
  then obtain xs ys where "op_options ?op = xs @ shown pos opt # ys" by (meson split_list)
  then have "\<exists>u v. optionDetails ?op = u @ getOptionUsageString (shown pos opt) @ endl @ v"
    unfolding optionDetails_def by auto
  then obtain u v where d: "optionDetails ?op = u @ getOptionUsageString (shown pos opt) @ endl @ v" by blast
  from c have ne: "op_options ?op \<noteq> []" by auto
  have split: "\<exists>w. printStandardAppDesc appName desc sub subs pos = w @ optionDetails ?op @ endl"
    unfolding printStandardAppDesc_def Let_def using ne by simp
  then obtain w where "printStandardAppDesc appName desc sub subs pos = w @ optionDetails ?op @ endl" ..
  with d show ?thesis by (intro exI [of _ "w @ u"] exI [of _ "v @ endl"]) simp
qed

end
