(* ===== verification/Host.thy ===== *)
theory Host
  imports Shm_Rules Config_Reader Option_Printer
begin

text \<open>
  What the processes of the program share on one machine, and the constructor and destructor of the rule
  engine, \<^verbatim>\<open>src/rule/shm.cpp\<close>. A name of the operating system refers to an object; removing the name, or
  creating a new object under it, leaves the old object to the processes that have it open. A named mutex stays
  locked when its process ends. Creating and sizing a shared memory object gives zeros, so that is what the
  placement of \<open>RuleData\<close>, which initialises nothing but the mutex, leaves.

  An action runs on the host and ends with a value, an exception or undefined behaviour; what it has
  changed before an exception stays changed.
\<close>

record host =
  shm_name :: "nat option"
  shm_object :: "nat \<Rightarrow> RuleData"
  shm_next :: nat
  mutex_name :: "nat option"
  mutex_locked :: "nat \<Rightarrow> bool"
  mutex_next :: nat
  files :: "string \<Rightarrow> string option"
  may_read :: "string \<Rightarrow> bool"
  may_write :: "string \<Rightarrow> bool"
  console :: string

type_synonym 'a act = "host \<Rightarrow> 'a attempt \<times> host"

definition sreturn :: "'a \<Rightarrow> 'a act" where
  "sreturn x = (\<lambda>h. (Done x, h))"

definition sbind :: "'a act \<Rightarrow> ('a \<Rightarrow> 'b act) \<Rightarrow> 'b act" where
  "sbind m f = (\<lambda>h. case m h of (r, h) \<Rightarrow>
     (case r of Done x \<Rightarrow> f x h | Throw e \<Rightarrow> (Throw e, h) | Undefined u \<Rightarrow> (Undefined u, h)))"

definition slift :: "'a attempt \<Rightarrow> 'a act" where
  "slift r = (\<lambda>h. (r, h))"

definition print :: "string \<Rightarrow> unit act" where
  "print s = (\<lambda>h. (Done (), h\<lparr>console := console h @ s\<rparr>))"

lemma sbind_sreturn [simp]: "sbind (sreturn x) f = f x"
  by (simp add: sbind_def sreturn_def)

lemma sbind_slift [simp]:
  "sbind (slift (Done x)) f = f x"
  "sbind (slift (Throw e)) f = slift (Throw e)"
  "sbind (slift (Undefined u)) f = slift (Undefined u)"
  by (simp_all add: sbind_def slift_def fun_eq_iff)

lemma sbind_Done: "m h = (Done x, h') \<Longrightarrow> sbind m f h = f x h'"
  by (simp add: sbind_def)

lemma sbind_Throw: "m h = (Throw e, h') \<Longrightarrow> sbind m f h = (Throw e, h')"
  by (simp add: sbind_def)

lemma slift_apply [simp]: "slift r h = (r, h)"
  by (simp add: slift_def)

lemma sreturn_apply [simp]: "sreturn x h = (Done x, h)"
  by (simp add: sreturn_def)

section \<open>Shared memory\<close>

definition fresh_rules :: RuleData where
  "fresh_rules = \<lparr>policy = \<lparr>action = Dns, targetIpv4 = replicate 16 0, targetIpv6 = replicate 16 0\<rparr>,
     rd_size = 0, rd_data = replicate DATA_SIZE 0\<rparr>"

definition ShmRuleEngine_new :: "bool \<Rightarrow> nat act" where
  "ShmRuleEngine_new mainProcess = (\<lambda>h.
     if mainProcess then
       (let i = shm_next h
        in (Done i, h\<lparr>shm_name := Some i, shm_object := (shm_object h)(i := fresh_rules), shm_next := i + 1\<rparr>))
     else (case shm_name h of None \<Rightarrow> (Throw (library_error ''interprocess_exception''), h) | Some i \<Rightarrow> (Done i, h)))"

definition ShmRuleEngine_delete :: "bool \<Rightarrow> host \<Rightarrow> host" where
  "ShmRuleEngine_delete mainProcess h = (if mainProcess then h\<lparr>shm_name := None\<rparr> else h)"

text \<open>An operation of the engine on its object; none of them ends with a return code.\<close>

definition with_rules :: "nat \<Rightarrow> (RuleData \<Rightarrow> (bool \<times> RuleData) outcome) \<Rightarrow> bool act" where
  "with_rules i f = (\<lambda>h. case f (shm_object h i) of
     Ret (b, d) \<Rightarrow> (Done b, h\<lparr>shm_object := (shm_object h)(i := d)\<rparr>)
   | Fail c \<Rightarrow> (Throw (library_error []), h)
   | Undef u \<Rightarrow> (Undefined u, h))"

lemma with_rules_Ret:
  "f (shm_object h i) = Ret (b, d) \<Longrightarrow>
     with_rules i f h = (Done b, h\<lparr>shm_object := (shm_object h)(i := d)\<rparr>)"
  by (simp add: with_rules_def)

lemma fresh_rules_holds: "holds fresh_rules []"
  by (simp add: holds_def fresh_rules_def mem_at_def)

end
