(* ===== verification/Rule_Command.thy ===== *)
theory Rule_Command
  imports Host
begin

text \<open>
  \<^verbatim>\<open>src/rule/parse.cpp\<close> and the stream operators of \<^verbatim>\<open>src/rule/shm.cpp\<close>: the commands on rules, from the
  command line and from a file.

  The options library is a record of parameters: \<open>po_run\<close> parses a token list for a description, \<open>po_store\<close>
  gives the variables map, \<open>po_unrecognized\<close> is \<open>collect_unrecognized\<close> with positional arguments, and
  \<open>split_unix\<close> splits a line; so are \<open>inet_pton\<close> and \<open>inet_ntop\<close>. \<open>stack\<close> is what the uninitialised locals of
  \<open>RuleParser::Parse\<close> hold. A line of a rules file can itself load a file, so parsing has fuel, the number of
  loads that can be nested; log messages are left out.
\<close>

section \<open>The options library\<close>

datatype opt_type = FlagT | TextT | SizeT | BoolT | TextsT

datatype opt_value = FlagV | TextV string | SizeV nat | BoolV bool | TextsV "string list"

type_synonym opt_spec = "string \<times> opt_type \<times> string"
type_synonym positions = "(string \<times> int) list"
type_synonym vmap = "string \<Rightarrow> opt_value option"

record locals =
  j_ipd :: IpAddressData
  j_target :: IpAddressData
  j_eth :: "byte list"
  j_ip4 :: "byte list"
  j_ip6 :: "byte list"

record 'p lib =
  po_run :: "opt_spec list \<Rightarrow> positions \<Rightarrow> bool \<Rightarrow> string list \<Rightarrow> 'p attempt"
  po_store :: "'p \<Rightarrow> vmap \<Rightarrow> vmap attempt"
  po_unrecognized :: "'p \<Rightarrow> string list"
  split_unix :: "string \<Rightarrow> string list"
  describe :: "opt_spec \<Rightarrow> option_description"
  describe_positions :: "positions \<Rightarrow> positional_options"
  inet_pton :: "bool \<Rightarrow> string \<Rightarrow> byte list \<Rightarrow> int \<times> byte list"
  inet_ntop :: "bool \<Rightarrow> byte list \<Rightarrow> string option"
  stack :: "host \<Rightarrow> locals"

definition as_text :: "vmap \<Rightarrow> string \<Rightarrow> string attempt" where
  "as_text vm name = (case vm name of Some (TextV s) \<Rightarrow> Done s | _ \<Rightarrow> Throw (library_error ''bad_any_cast''))"

definition as_size :: "vmap \<Rightarrow> string \<Rightarrow> nat attempt" where
  "as_size vm name = (case vm name of Some (SizeV n) \<Rightarrow> Done n | _ \<Rightarrow> Throw (library_error ''bad_any_cast''))"

definition erase_first :: "'a list \<Rightarrow> 'a list attempt" where
  "erase_first xs = (case xs of [] \<Rightarrow> Undefined EmptyErase | _ # xs \<Rightarrow> Done xs)"

text \<open>\<open>command_line_parser(opts).options(desc).positional(pos).allow_unregistered().run()\<close> with \<open>store\<close>.\<close>

definition parse_options :: "'p lib \<Rightarrow> opt_spec list \<Rightarrow> positions \<Rightarrow> string list \<Rightarrow> ('p \<times> vmap) attempt" where
  "parse_options L desc pos opts =
     abind (po_run L desc pos True opts) (\<lambda>p. abind (po_store L p Map.empty) (\<lambda>vm. Done (p, vm)))"

section \<open>Descriptions\<close>

abbreviation (input) help_option :: opt_spec where
  "help_option \<equiv> (''help,h'', FlagT, ''produce help message'')"

definition rules_desc :: "opt_spec list" where
  "rules_desc = [help_option, (''command'', TextT, ''command to execute''),
     (''subargs'', TextsT, ''Arguments for command'')]"

definition rules_pos :: positions where
  "rules_pos = [(''command'', 1), (''subargs'', - 1)]"

definition add_desc :: "opt_spec list" where
  "add_desc = [help_option,
     (''index,n'', SizeT, ''index of entry to be added (by default add at the end)''),
     (''ipaddr,i'', TextT, ''ip address to match''),
     (''macaddr,m'', TextT, ''mac address to match''),
     (''action,a'', TextT, ''action to be taken. should be either dns/redirect''),
     (''target,t'', TextT, ''target IP address for redirect'')]"

definition delete_desc :: "opt_spec list" where
  "delete_desc = [help_option, (''index,n'', SizeT, ''index of entry to be added'')]"

definition policy_desc :: "opt_spec list" where
  "policy_desc = [help_option,
     (''action,a'', TextT, ''policy action to be taken. should be either dns/redirect''),
     (''target4,4'', TextT, ''target IPv4 address for redirect''),
     (''target6,6'', TextT, ''target IPv6 address for redirect'')]"

definition file_desc :: "opt_spec list" where
  "file_desc = [help_option, (''file,f'', TextT, ''file to load/save rules from'')]"

definition line_desc :: "opt_spec list" where
  "line_desc = [(''command'', TextT, ''command to execute''), (''subargs'', TextsT, ''Arguments for command'')]"

definition PrintOptions ::
  "'p lib \<Rightarrow> string \<Rightarrow> opt_spec list \<Rightarrow> string \<Rightarrow> (string \<times> string) list \<Rightarrow> positions option \<Rightarrow> unit act" where
  "PrintOptions L appName desc subCommand subCommands pos =
     print (printStandardAppDesc appName (map (describe L) desc) subCommand subCommands
       (map_option (describe_positions L) pos))"

definition PrintSubCommandOptions :: "'p lib \<Rightarrow> string \<Rightarrow> opt_spec list \<Rightarrow> unit act" where
  "PrintSubCommandOptions L subCommand desc =
     PrintOptions L (''dns-wrapper '' @ subCommand) desc [] [] None"

definition printSubCommandOptions :: "'p lib \<Rightarrow> opt_spec list \<Rightarrow> positions \<Rightarrow> unit act" where
  "printSubCommandOptions L desc pos =
     PrintOptions L ''dns-wrapper rules'' desc ''command''
       [(''add'', ''Adds a rule towards the end or at specific position''), (''delete'', ''Deletes a rule''),
        (''clear'', ''Clears all rules''), (''list'', ''Lists all rules (default)''),
        (''policy'', ''Sets the policy to use''), (''load'', ''Loads rule from a file''),
        (''save'', ''Saves rules from a file'')] (Some pos)"

section \<open>Values\<close>

datatype ExitCode = NoExit | ExitWithNoError | ExitWithError | ExitWithUnlock

definition parseIpAddress :: "'p lib \<Rightarrow> string \<Rightarrow> string \<Rightarrow> byte list \<Rightarrow> (bool \<times> byte list) attempt" where
  "parseIpAddress L ipa optName addr =
     (let ipv4 = (case GetIpAddressType ipa of Ipv4 \<Rightarrow> True | Ipv6 \<Rightarrow> False | none \<Rightarrow> False);
          (r, addr) = ToIpAddress (inet_pton L) ipa ipv4 addr
      in if r \<noteq> 1 then Throw (validation_error invalid_option_value optName ipa) else Done (ipv4, addr))"

definition getActionType :: "string \<Rightarrow> ActionType attempt" where
  "getActionType act =
     (if act = ''dns'' then Done Dns
      else if act = ''redirect'' then Done Redirect
      else Throw (validation_error invalid_option_value ''action'' act))"

section \<open>Adding a rule\<close>

abbreviation (input) SIZE_MAX :: nat where "SIZE_MAX \<equiv> 18446744073709551615"

definition has_option :: "vmap \<Rightarrow> string \<Rightarrow> bool" where
  "has_option vm name \<longleftrightarrow> vm name \<noteq> None"

definition ip_option :: "'p lib \<Rightarrow> vmap \<Rightarrow> string \<Rightarrow> IpAddressData \<Rightarrow> IpAddressData attempt" where
  "ip_option L vm name d =
     (if has_option vm name then
        abind (as_text vm name) (\<lambda>ipa.
        abind (parseIpAddress L ipa name (ipaddr d)) (\<lambda>(v4, a).
        Done (d\<lparr>ipd_ipv4 := v4, ipaddr := a\<rparr>)))
      else Done d)"

definition mac_option :: "vmap \<Rightarrow> byte list \<Rightarrow> byte list attempt" where
  "mac_option vm e =
     (if has_option vm ''macaddr'' then
        abind (as_text vm ''macaddr'') (\<lambda>etha.
        abind (ToEthAddress etha e) (\<lambda>(r, e).
        if r \<noteq> 1 then Throw (validation_error invalid_option_value ''macaddr'' etha) else Done e))
      else Done e)"

text \<open>The part before the call of the engine: the index and the rule.\<close>

definition add_request :: "'p lib \<Rightarrow> locals \<Rightarrow> vmap \<Rightarrow> (nat \<times> Rule) attempt" where
  "add_request L s vm =
     abind (if has_option vm ''index'' then as_size vm ''index'' else Done SIZE_MAX) (\<lambda>index.
     abind (ip_option L vm ''ipaddr'' (j_ipd s)) (\<lambda>d.
     abind (mac_option vm (j_eth s)) (\<lambda>e.
     if \<not> has_option vm ''ipaddr'' \<and> \<not> has_option vm ''macaddr''
     then Throw (validation_error at_least_one_value_required ''ipaddr or macaddr'' [])
     else
       let rt = (if has_option vm ''macaddr'' then
                   if has_option vm ''ipaddr'' then IpAndEthAddress else EthAddress
                 else IpAddress)
       in abind (ip_option L vm ''target'' (j_target s)) (\<lambda>t.
          if has_option vm ''action'' then
            abind (as_text vm ''action'') (\<lambda>a.
            abind (getActionType a) (\<lambda>at.
            Done (index, mk_rule rt at (Some d) (Some e) (Some t))))
          else Throw (validation_error at_least_one_value_required ''action'' []))))) "

definition rules_add :: "'p lib \<Rightarrow> bool \<Rightarrow> nat \<Rightarrow> string list \<Rightarrow> ExitCode act" where
  "rules_add L help engine opts =
     sbind (slift (parse_options L add_desc [] opts)) (\<lambda>(p, vm2).
     if help then sbind (PrintSubCommandOptions L ''rules add'' add_desc) (\<lambda>_. sreturn ExitWithNoError)
     else (\<lambda>h.
       sbind (slift (add_request L (stack L h) vm2)) (\<lambda>(index, r).
       sbind (if index = SIZE_MAX then with_rules engine (AppendRule r)
              else with_rules engine (InsertRule r index)) (\<lambda>res.
       sreturn (if \<not> res then ExitWithError else ExitWithNoError))) h))"

section \<open>Other commands\<close>

definition rules_delete :: "'p lib \<Rightarrow> bool \<Rightarrow> nat \<Rightarrow> string list \<Rightarrow> ExitCode act" where
  "rules_delete L help engine opts =
     sbind (slift (parse_options L delete_desc [] opts)) (\<lambda>(p, vm2).
     if help then sbind (PrintSubCommandOptions L ''rules delete'' delete_desc) (\<lambda>_. sreturn ExitWithNoError)
     else if has_option vm2 ''index'' then
       sbind (slift (as_size vm2 ''index'')) (\<lambda>index.
       sbind (with_rules engine (DeleteRule index)) (\<lambda>res.
       sreturn (if \<not> res then ExitWithError else ExitWithNoError)))
     else slift (Throw (validation_error at_least_one_value_required ''index'' [])))"

definition policy_target :: "'p lib \<Rightarrow> vmap \<Rightarrow> string \<Rightarrow> byte list \<Rightarrow> byte list attempt" where
  "policy_target L vm name a =
     (if has_option vm name then
        abind (as_text vm name) (\<lambda>ipt. abind (parseIpAddress L ipt name a) (\<lambda>(v4, a). Done a))
      else Throw (validation_error at_least_one_value_required name []))"

definition policy_request :: "'p lib \<Rightarrow> locals \<Rightarrow> vmap \<Rightarrow> (ActionType \<times> byte list \<times> byte list) attempt" where
  "policy_request L s vm =
     abind (if has_option vm ''action'' then abind (as_text vm ''action'') getActionType
            else Throw (validation_error at_least_one_value_required ''action'' [])) (\<lambda>at.
     abind (policy_target L vm ''target4'' (j_ip4 s)) (\<lambda>a4.
     abind (policy_target L vm ''target6'' (j_ip6 s)) (\<lambda>a6.
     Done (at, a4, a6))))"

definition rules_policy :: "'p lib \<Rightarrow> bool \<Rightarrow> nat \<Rightarrow> string list \<Rightarrow> ExitCode act" where
  "rules_policy L help engine opts =
     sbind (slift (parse_options L policy_desc [] opts)) (\<lambda>(p, vm2).
     if help then sbind (PrintSubCommandOptions L ''rules add'' policy_desc) (\<lambda>_. sreturn ExitWithNoError)
     else (\<lambda>h.
       sbind (slift (policy_request L (stack L h) vm2)) (\<lambda>(at, a4, a6).
       sbind (with_rules engine (SetPolicy at a4 a6)) (\<lambda>res.
       sreturn (if \<not> res then ExitWithError else ExitWithNoError))) h))"

section \<open>Rules as text\<close>

fun decimal :: "nat \<Rightarrow> string" where
  "decimal n = (if n < 10 then [''0123456789'' ! n] else decimal (n div 10) @ [''0123456789'' ! (n mod 10)])"

declare decimal.simps [simp del]

definition showParam :: "string \<Rightarrow> bool \<Rightarrow> string" where
  "showParam what spaced = (if spaced then '' '' else []) @ ''--'' @ what @ '' ''"

definition show_ip :: "'p lib \<Rightarrow> byte list \<Rightarrow> bool \<Rightarrow> string \<Rightarrow> string" where
  "show_ip L a v4 address = snd (IpAddressToString (inet_ntop L) a v4 address)"

definition show_rule :: "'p lib \<Rightarrow> nat \<Rightarrow> Rule \<Rightarrow> string outcome" where
  "show_rule L i r =
     obind (if has_ip (rule_header r)
            then obind (deref (ipd r)) (\<lambda>d. Ret (showParam ''ipaddr'' False @ show_ip L (ipaddr d) (ipd_ipv4 d) []))
            else Ret []) (\<lambda>ip.
     obind (if has_eth (rule_header r)
            then obind (deref (eth r)) (\<lambda>e. Ret (showParam ''macaddr'' (has_ip (rule_header r)) @ EthAddressToString e))
            else Ret []) (\<lambda>mac.
     obind (if actionType (rule_header r) = Redirect
            then obind (deref (target r)) (\<lambda>t. Ret (showParam ''target'' True @ show_ip L (ipaddr t) (ipd_ipv4 t) []))
            else Ret []) (\<lambda>tgt.
     Ret (''add '' @ ip @ mac @ showParam ''action'' True @
       (if actionType (rule_header r) = Dns then ''dns'' else ''redirect'') @ tgt @ '' # '' @ decimal i @ endl))))"

fun show_rules :: "'p lib \<Rightarrow> byte list \<Rightarrow> nat \<Rightarrow> nat \<Rightarrow> nat \<Rightarrow> string outcome" where
  "show_rules L m 0 i t = Ret []"
| "show_rules L m (Suc n) i t =
     obind (nextRule m t) (\<lambda>(r, t).
     obind (show_rule L i r) (\<lambda>line.
     obind (show_rules L m n (i + 1) t) (\<lambda>rest. Ret (line @ rest))))"

definition show_policy :: "'p lib \<Rightarrow> Policy \<Rightarrow> string" where
  "show_policy L p =
     ''policy '' @ showParam ''action'' True @ '' '' @ (if action p = Dns then ''dns'' else ''redirect'') @
     (if action p = Redirect then
        let a4 = show_ip L (targetIpv4 p) True []; a6 = show_ip L (targetIpv6 p) False a4
        in showParam ''target4'' True @ a4 @ showParam ''target6'' True @ a6
      else []) @ endl"

definition show_engine :: "'p lib \<Rightarrow> RuleData \<Rightarrow> string outcome" where
  "show_engine L d =
     obind (show_rules L (rd_data d) (rd_size d) 0 0) (\<lambda>s.
     Ret (''# start'' @ endl @ s @ show_policy L (policy d) @ ''# end'' @ endl))"

text \<open>The loop of \<open>operator>>\<close>, with \<open>parse\<close> for \<open>ruleParser.Parse\<close>.\<close>

definition strip_comment :: "string \<Rightarrow> string" where
  "strip_comment line = takeWhile (\<lambda>c. c \<noteq> CHR ''#'') line"

fun load_lines :: "'p lib \<Rightarrow> ('p \<Rightarrow> vmap \<Rightarrow> ExitCode act) \<Rightarrow> string list \<Rightarrow> unit act" where
  "load_lines L parse [] = sreturn ()"
| "load_lines L parse (line # ls) =
     (if strip_comment line = [] then load_lines L parse ls
      else
        sbind (slift (parse_options L line_desc rules_pos (split_unix L (''rules '' @ strip_comment line)))) (\<lambda>(p, vm).
        sbind (parse p vm) (\<lambda>code.
        if code \<noteq> ExitWithNoError then sreturn () else load_lines L parse ls)))"

definition load_engine :: "'p lib \<Rightarrow> ('p \<Rightarrow> vmap \<Rightarrow> ExitCode act) \<Rightarrow> string \<Rightarrow> unit act" where
  "load_engine L parse text = load_lines L parse (getlines CHR 0x0A text)"

section \<open>The command line\<close>

definition rules_file ::
  "'p lib \<Rightarrow> ('p \<Rightarrow> vmap \<Rightarrow> ExitCode act) \<Rightarrow> bool \<Rightarrow> nat \<Rightarrow> string \<Rightarrow> string list \<Rightarrow> ExitCode act" where
  "rules_file L parse help engine cmd opts =
     sbind (slift (parse_options L file_desc [] opts)) (\<lambda>(p, vm2).
     if help then sbind (PrintSubCommandOptions L (''rules '' @ cmd) file_desc) (\<lambda>_. sreturn ExitWithNoError)
     else if has_option vm2 ''file'' then
       sbind (slift (as_text vm2 ''file'')) (\<lambda>fileName h.
       if cmd = ''save'' then
         if \<not> may_write h fileName then (Done ExitWithError, h)
         else
           (case show_engine L (shm_object h engine) of
              Ret t \<Rightarrow> (Done ExitWithNoError, h\<lparr>files := (files h)(fileName \<mapsto> t)\<rparr>)
            | Fail c \<Rightarrow> (Throw (library_error []), h)
            | Undef u \<Rightarrow> (Undefined u, h))
       else
         (case if may_read h fileName then files h fileName else None of
            None \<Rightarrow> (Done ExitWithError, h)
          | Some t \<Rightarrow> sbind (load_engine L parse t) (\<lambda>_. sreturn ExitWithNoError) h))
     else slift (Throw (validation_error at_least_one_value_required ''file'' [])))"

definition rules_list :: "'p lib \<Rightarrow> nat \<Rightarrow> ExitCode act" where
  "rules_list L engine = (\<lambda>h.
     case show_engine L (shm_object h engine) of
       Ret t \<Rightarrow> (Done ExitWithNoError, h\<lparr>console := console h @ t @ endl\<rparr>)
     | Fail c \<Rightarrow> (Throw (library_error []), h)
     | Undef u \<Rightarrow> (Undefined u, h))"

definition rules_dispatch ::
  "'p lib \<Rightarrow> ('p \<Rightarrow> vmap \<Rightarrow> ExitCode act) \<Rightarrow> bool \<Rightarrow> nat \<Rightarrow> string \<Rightarrow> string list \<Rightarrow> ExitCode act" where
  "rules_dispatch L parse help engine cmd opts =
     (if cmd = ''add'' then rules_add L help engine opts
      else if cmd = ''delete'' then rules_delete L help engine opts
      else if cmd = ''clear'' \<or> cmd = ''list'' then
        if help then
          sbind (print (''Usage: dns-wrapper rules '' @ cmd @ '' -h [--help]'' @ endl)) (\<lambda>_. sreturn ExitWithNoError)
        else if cmd = ''clear'' then sbind (with_rules engine ClearRules) (\<lambda>_. sreturn ExitWithNoError)
        else rules_list L engine
      else if cmd = ''policy'' then rules_policy L help engine opts
      else if cmd = ''load'' \<or> cmd = ''save'' then rules_file L parse help engine cmd opts
      else sbind (printSubCommandOptions L rules_desc rules_pos) (\<lambda>_. sreturn ExitWithError))"

fun RuleParser_Parse :: "nat \<Rightarrow> 'p lib \<Rightarrow> 'p \<Rightarrow> vmap \<Rightarrow> ExitCode act" where
  "RuleParser_Parse 0 L parsed vm = slift (Undefined NoReturn)"
| "RuleParser_Parse (Suc n) L parsed vm =
     sbind (slift (erase_first (po_unrecognized L parsed))) (\<lambda>opts.
     sbind (slift (parse_options L rules_desc rules_pos opts)) (\<lambda>(ruleParsed, vm1).
     if has_option vm1 ''command'' then
       sbind (ShmRuleEngine_new False) (\<lambda>engine.
       sbind (slift (as_text vm1 ''command'')) (\<lambda>cmd.
       sbind (slift (erase_first (po_unrecognized L ruleParsed))) (\<lambda>opts.
       rules_dispatch L (RuleParser_Parse n L) (has_option vm ''help'') engine cmd opts)))
     else if has_option vm ''help'' then
       sbind (printSubCommandOptions L rules_desc rules_pos) (\<lambda>_. sreturn ExitWithNoError)
     else sreturn ExitWithNoError))"

definition RuleParser_Parse_strings :: "string list \<Rightarrow> bool" where
  "RuleParser_Parse_strings ruleStrings = True"

end
