(* ===== verification/Rule_Files.thy ===== *)
theory Rule_Files
  imports Rule_Command
begin

text \<open>
  Rules that are written to a file and read again. The laws of the options library and of the conversions of
  IP addresses that this rests on are predicates on the record of parameters.
\<close>

declare RuleParser_Parse.simps [simp del]

section \<open>Words and plain text\<close>

definition special :: string where
  "special = [CHR ''#'', CHR 0x22, CHR 0x27, CHR 0x5C, CHR 0x09, CHR 0x0A]"

definition plain :: "string \<Rightarrow> bool" where
  "plain s \<longleftrightarrow> list_all (\<lambda>c. c \<notin> set special) s"

definition is_word :: "string \<Rightarrow> bool" where
  "is_word w \<longleftrightarrow> w \<noteq> [] \<and> plain w \<and> CHR '' '' \<notin> set w \<and> hd w \<noteq> CHR ''-''"

definition words :: "string \<Rightarrow> string list" where
  "words s = filter (\<lambda>w. w \<noteq> []) (getlines CHR '' '' s)"

definition flat :: "(string \<times> string) list \<Rightarrow> string list" where
  "flat kvs = concat (map (\<lambda>(n, v). [''--'' @ n, v]) kvs)"

definition long_name :: "opt_spec \<Rightarrow> string" where
  "long_name spec = takeWhile (\<lambda>c. c \<noteq> CHR '','') (fst spec)"

section \<open>Laws of the libraries\<close>

text \<open>
  Splitting a line without quotes and escapes gives its words. For the two descriptions that a line of a saved
  file is parsed with, named options with their values in the next token are stored under their names. Words in
  front are positional, and the options of a line, none of which begins a registered name of the outer
  descriptions, are unregistered there, so all tokens are collected again. An address has a text, in the notation
  of its family, that converts back to the bytes of the address; for IPv4 these are the first four of the union.
\<close>

definition split_law :: "'p lib \<Rightarrow> bool" where
  "split_law L \<longleftrightarrow> (\<forall>s. plain s \<longrightarrow> split_unix L s = words s)"

definition named_law :: "'p lib \<Rightarrow> bool" where
  "named_law L \<longleftrightarrow> (\<forall>desc kvs. desc \<in> {add_desc, policy_desc} \<longrightarrow> distinct (map fst kvs) \<longrightarrow>
     (\<forall>(n, v) \<in> set kvs. is_word v \<and> (\<exists>what. (\<exists>spec \<in> set desc. long_name spec = n \<and> snd spec = (TextT, what)))) \<longrightarrow>
     (\<exists>p vm. parse_options L desc [] (flat kvs) = Done (p, vm) \<and> (\<forall>n. vm n = map_option TextV (map_of kvs n))))"

abbreviation (input) line_names :: "string list" where
  "line_names \<equiv> [''ipaddr'', ''macaddr'', ''action'', ''target'', ''target4'', ''target6'']"

definition positional_law :: "'p lib \<Rightarrow> bool" where
  "positional_law L \<longleftrightarrow> (\<forall>desc ws kvs. desc \<in> {rules_desc, line_desc} \<longrightarrow> ws \<noteq> [] \<longrightarrow> list_all is_word ws \<longrightarrow>
     (\<forall>(n, v) \<in> set kvs. n \<in> set line_names \<and> is_word v) \<longrightarrow>
     (\<exists>p vm. parse_options L desc rules_pos (ws @ flat kvs) = Done (p, vm) \<and>
        vm ''command'' = Some (TextV (hd ws)) \<and> vm ''help'' = None \<and> po_unrecognized L p = ws @ flat kvs))"

definition dotted_quad :: "string \<Rightarrow> bool" where
  "dotted_quad t \<longleftrightarrow> (\<exists>a b c d. octet a \<and> octet b \<and> octet c \<and> octet d \<and> t = a @ CHR ''.'' # b @ CHR ''.'' # c @ CHR ''.'' # d)"

definition ipv6_text :: "string \<Rightarrow> bool" where
  "ipv6_text t \<longleftrightarrow> t \<noteq> [] \<and> list_all (\<lambda>c. c \<in> set ''0123456789abcdefABCDEF:.'') t \<and>
     ((\<exists>u v. t = u @ ''::'' @ v) \<or> 7 \<le> count_list t CHR '':'')"

definition ip_text :: "'p lib \<Rightarrow> bool \<Rightarrow> byte list \<Rightarrow> string \<Rightarrow> bool" where
  "ip_text L v4 a t \<longleftrightarrow> inet_ntop L v4 a = Some t \<and> (if v4 then dotted_quad t else ipv6_text t) \<and>
     (\<forall>b. length b = 16 \<longrightarrow> inet_pton L v4 t b = (1, if v4 then take 4 a @ drop 4 b else a))"

section \<open>Words of a line\<close>

lemma getlines_word: "w \<noteq> [] \<Longrightarrow> d \<notin> set w \<Longrightarrow> getlines d (w @ d # s) = w # getlines d s"
proof (cases w)
  case (Cons c u)
  assume "d \<notin> set w"
  with Cons have "\<forall>x \<in> set u. x \<noteq> d" "c \<noteq> d" by auto
  then have "takeWhile (\<lambda>x. x \<noteq> d) (u @ d # s) = u" by (simp add: takeWhile_append2)
  with Cons \<open>c \<noteq> d\<close> show ?thesis by simp
qed simp

lemma getlines_last: "w \<noteq> [] \<Longrightarrow> d \<notin> set w \<Longrightarrow> getlines d w = [w]"
proof (cases w)
  case (Cons c u)
  assume "d \<notin> set w"
  with Cons have u: "takeWhile (\<lambda>x. x \<noteq> d) u = u" and "c \<noteq> d" by (auto simp: takeWhile_eq_all_conv)
  then show ?thesis using Cons by (simp add: u del: takeWhile_eq_all_conv)
qed simp

lemma words_word: "w \<noteq> [] \<Longrightarrow> CHR '' '' \<notin> set w \<Longrightarrow> words (w @ CHR '' '' # s) = w # words s"
  by (simp add: words_def getlines_word)

lemma words_space [simp]: "words (CHR '' '' # s) = words s" "words [] = []"
  by (simp_all add: words_def)

lemma plain_append [simp]: "plain (a @ b) \<longleftrightarrow> plain a \<and> plain b" "plain []"
  by (simp_all add: plain_def)

lemma plain_Cons: "plain (c # s) \<longleftrightarrow> c \<notin> set special \<and> plain s"
  by (simp add: plain_def)

text \<open>A named option as it stands in a line.\<close>

definition param :: "string \<times> string \<Rightarrow> string" where
  "param = (\<lambda>(n, v). '' --'' @ n @ '' '' @ v)"

lemma words_params:
  assumes "\<forall>(n, v) \<in> set kvs. is_word n \<and> is_word v"
  shows "words (concat (map param kvs) @ '' '') = flat kvs"
  using assms
proof (induction kvs)
  case Nil
  show ?case by (simp add: flat_def)
next
  case (Cons kv kvs)
  obtain n v where kv: "kv = (n, v)" by fastforce
  with Cons.prems have nv: "CHR '' '' \<notin> set n" "v \<noteq> []" "CHR '' '' \<notin> set v" by (auto simp: is_word_def)
  have rest: "words (concat (map param kvs) @ '' '') = flat kvs" using Cons by auto
  obtain s where s: "concat (map param kvs) @ '' '' = CHR '' '' # s"
    by (cases kvs) (auto simp: param_def split: prod.splits)
  have pkv: "param kv = CHR '' '' # ''--'' @ n @ CHR '' '' # v" by (simp add: kv param_def)
  have "words (concat (map param (kv # kvs)) @ '' '') = words (CHR '' '' # (''--'' @ n) @ CHR '' '' # v @ CHR '' '' # s)"
    using s by (simp add: pkv)
  also have "\<dots> = (''--'' @ n) # v # words s"
    using nv words_word [of "''--'' @ n" "v @ CHR '' '' # s"] words_word [of v s] by simp
  also have "words s = flat kvs" using rest s by simp
  finally show ?case by (simp add: kv flat_def)
qed

section \<open>Texts of addresses\<close>

lemma digits_plain:
  "list_all (\<lambda>c. c \<notin> set special \<and> c \<noteq> CHR '' '' \<and> c \<noteq> CHR ''-'') ''0123456789abcdefABCDEF:.''"
  by code_simp

lemma address_char:
  "c \<in> set ''0123456789abcdefABCDEF:.'' \<Longrightarrow> c \<notin> set special" "c \<in> set ''0123456789abcdefABCDEF:.'' \<Longrightarrow> c \<noteq> CHR '' ''"
  "c \<in> set ''0123456789abcdefABCDEF:.'' \<Longrightarrow> c \<noteq> CHR ''-''"
  using digits_plain unfolding list_all_iff by blast+

lemma address_word:
  assumes "t \<noteq> []" and "list_all (\<lambda>c. c \<in> set ''0123456789abcdefABCDEF:.'') t"
  shows "is_word t"
  using assms address_char unfolding is_word_def plain_def list_all_iff by (metis hd_in_set)

lemma digits_address: "set ''0123456789'' \<subseteq> set ''0123456789abcdefABCDEF:.''"
  by auto

lemma octet_address: "octet w \<Longrightarrow> w \<noteq> [] \<and> list_all (\<lambda>c. c \<in> set ''0123456789abcdefABCDEF:.'') w"
  using digits_address unfolding octet_def list_all_iff by fastforce

lemma ipv4_text_word: "dotted_quad t \<Longrightarrow> is_word t"
proof (rule address_word)
  have "CHR ''.'' \<in> set ''0123456789abcdefABCDEF:.''" by simp
  then show "dotted_quad t \<Longrightarrow> list_all (\<lambda>c. c \<in> set ''0123456789abcdefABCDEF:.'') t"
    by (auto simp: dotted_quad_def octet_address simp del: list.set)
qed (auto simp: dotted_quad_def)

lemma ipv6_text_word: "ipv6_text t \<Longrightarrow> is_word t"
  unfolding ipv6_text_def by (blast intro: address_word)

lemma ip_text_word: "ip_text L v4 a t \<Longrightarrow> is_word t"
  by (auto simp: ip_text_def ipv4_text_word ipv6_text_word split: if_splits)

lemma dotted_quad_type: "dotted_quad t \<Longrightarrow> GetIpAddressType t = Ipv4"
proof -
  assume "dotted_quad t"
  then obtain a b c d where t: "octet a" "octet b" "octet c" "octet d"
    "t = a @ CHR ''.'' # b @ CHR ''.'' # c @ CHR ''.'' # d" unfolding dotted_quad_def by blast
  moreover have "\<not> line_end CHR ''.''" by (simp add: line_end_def)
  ultimately have "regex_match t ipRegex4" unfolding ipRegex4_iff by blast
  then show ?thesis by (simp add: GetIpAddressType_def)
qed

lemma ipRegex4_few_colons: "regex_match t ipRegex4 \<Longrightarrow> count_list t CHR '':'' \<le> 3"
  unfolding ipRegex4_iff by (auto simp: count_octet)

lemma ipv6_text_type: "ipv6_text t \<Longrightarrow> GetIpAddressType t \<noteq> Ipv4"
proof -
  assume t: "ipv6_text t"
  then consider u v where "t = u @ ''::'' @ v" | "7 \<le> count_list t CHR '':''"
    unfolding ipv6_text_def by blast
  then show ?thesis
  proof cases
    case 1
    then show ?thesis using GetIpAddressType_double_colon [of u v] by simp
  next
    case 2
    then have "\<not> regex_match t ipRegex4" using ipRegex4_few_colons [of t] by linarith
    then show ?thesis by (simp add: GetIpAddressType_def)
  qed
qed

lemma parse_ip_text:
  assumes "ip_text L v4 a t" and "length b = 16"
  shows "parseIpAddress L t name b = Done (v4, if v4 then take 4 a @ drop 4 b else a)"
proof -
  have "(case GetIpAddressType t of Ipv4 \<Rightarrow> True | Ipv6 \<Rightarrow> False | none \<Rightarrow> False) = v4"
    using assms(1) dotted_quad_type [of t] ipv6_text_type [of t]
    by (cases "GetIpAddressType t") (auto simp: ip_text_def split: if_splits)
  with assms show ?thesis
    by (auto simp: parseIpAddress_def ToIpAddress_def ip_text_def Let_def)
qed

lemma hex2_chars: "list_all (\<lambda>c. c \<in> set ''0123456789abcdefABCDEF:.'') (hex2 b)"
proof -
  have "list_all (\<lambda>n. hex_char n \<in> set ''0123456789abcdefABCDEF:.'') [0..<16]" by code_simp
  then have "n < 16 \<Longrightarrow> hex_char n \<in> set ''0123456789abcdefABCDEF:.''" for n
    unfolding list_all_iff by (metis atLeastLessThan_iff le0 set_upt)
  from this [OF nibbles(1) [of b]] this [OF nibbles(2) [of b]] show ?thesis
    by (simp add: hex2_def del: list.set nth_Cons_numeral)
qed

lemma EthAddressToString_word:
  assumes "length a = 6"
  shows "is_word (EthAddressToString a)"
proof -
  have colon: "CHR '':'' \<in> set ''0123456789abcdefABCDEF:.''" by simp
  have join: "list_all (\<lambda>c. c \<in> set ''0123456789abcdefABCDEF:.'') (colon_join (map hex2 bs))" for bs
    by (induction bs) (use colon in \<open>simp_all add: hex2_chars del: list.set\<close>)
  have "a \<noteq> []" using assms by auto
  then show ?thesis
    by (intro address_word) (simp_all add: EthAddressToString_join hex2_facts hex2_chars join del: list.set)
qed

section \<open>A rule as a line\<close>

definition saved_ip :: "'p lib \<Rightarrow> IpAddressData \<Rightarrow> string" where
  "saved_ip L d = the (inet_ntop L (ipd_ipv4 d) (ipaddr d))"

definition ip_saved :: "'p lib \<Rightarrow> IpAddressData \<Rightarrow> bool" where
  "ip_saved L d \<longleftrightarrow> ip_text L (ipd_ipv4 d) (ipaddr d) (saved_ip L d)"

definition rule_kvs :: "'p lib \<Rightarrow> Rule \<Rightarrow> (string \<times> string) list" where
  "rule_kvs L r =
     (if has_ip (rule_header r) then [(''ipaddr'', saved_ip L (the (ipd r)))] else []) @
     (if has_eth (rule_header r) then [(''macaddr'', EthAddressToString (the (eth r)))] else []) @
     [(''action'', if actionType (rule_header r) = Dns then ''dns'' else ''redirect'')] @
     (if actionType (rule_header r) = Redirect then [(''target'', saved_ip L (the (target r)))] else [])"

text \<open>The IP addresses of the rule have texts.\<close>

definition rule_printable :: "'p lib \<Rightarrow> Rule \<Rightarrow> bool" where
  "rule_printable L r \<longleftrightarrow> (has_ip (rule_header r) \<longrightarrow> ip_saved L (the (ipd r))) \<and>
     (actionType (rule_header r) = Redirect \<longrightarrow> ip_saved L (the (target r)))"

lemma show_ip_saved: "ip_saved L d \<Longrightarrow> show_ip L (ipaddr d) (ipd_ipv4 d) address = saved_ip L d"
  by (simp add: ip_saved_def ip_text_def show_ip_def IpAddressToString_def)

lemma rule_ok_cases:
  assumes "rule_ok r"
  obtains "ruleType (rule_header r) = IpAddress" | "ruleType (rule_header r) = EthAddress"
  | "ruleType (rule_header r) = IpAndEthAddress"
  using assms by (auto simp: rule_ok_def rule_args_ok_def)

lemma rule_ok_fields:
  assumes "rule_ok r"
  shows "has_ip (rule_header r) \<Longrightarrow> \<exists>d. ipd r = Some d \<and> ipd_ok d"
    and "has_eth (rule_header r) \<Longrightarrow> \<exists>e. eth r = Some e \<and> eth_ok e"
    and "actionType (rule_header r) = Redirect \<Longrightarrow> \<exists>t. target r = Some t \<and> ipd_ok t"
    and "actionType (rule_header r) = Dns \<or> actionType (rule_header r) = Redirect"
    and "\<not> has_ip (rule_header r) \<Longrightarrow> ipd r = None" and "\<not> has_eth (rule_header r) \<Longrightarrow> eth r = None"
    and "actionType (rule_header r) \<noteq> Redirect \<Longrightarrow> target r = None"
    and "has_ip (rule_header r) \<or> has_eth (rule_header r)"
proof -
  from assms have a: "rule_args_ok r" and s: "stored r = r" by (auto simp: rule_ok_def)
  from a show "has_ip (rule_header r) \<Longrightarrow> \<exists>d. ipd r = Some d \<and> ipd_ok d"
    "has_eth (rule_header r) \<Longrightarrow> \<exists>e. eth r = Some e \<and> eth_ok e"
    "actionType (rule_header r) = Redirect \<Longrightarrow> \<exists>t. target r = Some t \<and> ipd_ok t"
    "actionType (rule_header r) = Dns \<or> actionType (rule_header r) = Redirect"
    "has_ip (rule_header r) \<or> has_eth (rule_header r)"
    by (auto simp: rule_args_ok_def has_ip_def has_eth_def)
  have "ipd (stored r) = (if has_ip (rule_header r) then ipd r else None)"
    "eth (stored r) = (if has_eth (rule_header r) then eth r else None)"
    "target (stored r) = (if actionType (rule_header r) = Redirect then target r else None)"
    by (simp_all add: stored_def)
  with s show "\<not> has_ip (rule_header r) \<Longrightarrow> ipd r = None" "\<not> has_eth (rule_header r) \<Longrightarrow> eth r = None"
    "actionType (rule_header r) \<noteq> Redirect \<Longrightarrow> target r = None"
    by (simp_all split: if_splits)
qed

lemma show_rule_line:
  assumes "rule_ok r" and "rule_printable L r"
  shows "show_rule L i r = Ret (''add'' @ concat (map param (rule_kvs L r)) @ '' # '' @ decimal i @ endl)"
  using rule_ok_fields [OF assms(1)] assms(2)
  by (auto simp: show_rule_def rule_kvs_def rule_printable_def deref_def show_ip_saved param_def showParam_def)

lemma name_words:
  "list_all is_word [''ipaddr'', ''macaddr'', ''action'', ''target'', ''target4'', ''target6'', ''dns'', ''redirect'', ''rules'', ''add'', ''policy'']"
  by code_simp

lemma rule_kvs_words:
  assumes "rule_ok r" and "rule_printable L r"
  shows "\<forall>(n, v) \<in> set (rule_kvs L r). is_word n \<and> is_word v"
  using name_words rule_ok_fields [OF assms(1)] assms(2)
  by (auto simp: rule_kvs_def rule_printable_def ip_saved_def ip_text_word EthAddressToString_word eth_ok_def)

lemma params_plain:
  assumes "\<forall>(n, v) \<in> set kvs. is_word n \<and> is_word v"
  shows "plain (concat (map param kvs))"
proof -
  have "plain ('' --'')" "plain '' ''" by code_simp+
  with assms show ?thesis
    by (induction kvs) (auto simp: param_def is_word_def simp del: append.simps)
qed

lemma strip_comment_line: "plain s \<Longrightarrow> strip_comment (s @ CHR ''#'' # t) = s"
proof -
  assume "plain s"
  then have "\<forall>c \<in> set s. c \<noteq> CHR ''#''" by (auto simp: plain_def list_all_iff special_def)
  then show ?thesis by (simp add: strip_comment_def takeWhile_append2)
qed

lemma strip_comment_plain: "plain s \<Longrightarrow> strip_comment s = s"
  by (auto simp: strip_comment_def plain_def list_all_iff special_def takeWhile_eq_all_conv)

section \<open>Running a line\<close>

lemma words_trailing: "words (s @ '' '') = words s"
proof -
  have "filter (\<lambda>w. w \<noteq> []) (getlines d (s @ [d])) = filter (\<lambda>w. w \<noteq> []) (getlines d s)" for d
  proof (induction d s rule: getlines.induct)
    case (2 d c s)
    show ?case
    proof (cases "c = d")
      case False
      show ?thesis
      proof (cases "d \<in> set s")
        case True
        let ?w = "takeWhile (\<lambda>x. x \<noteq> d) s"
        have tw: "takeWhile (\<lambda>x. x \<noteq> d) (s @ [d]) = ?w" using True by (simp add: takeWhile_append1)
        have "dropWhile (\<lambda>x. x \<noteq> d) s \<noteq> []" using True by (auto simp: dropWhile_eq_Nil_conv)
        moreover have "length s = length ?w + length (dropWhile (\<lambda>x. x \<noteq> d) s)"
          by (metis length_append takeWhile_dropWhile_id)
        ultimately have "length ?w < length s" by simp
        then have "drop (length ?w + 1) (s @ [d]) = drop (length ?w + 1) s @ [d]" by simp
        with False tw "2.IH"(2) [OF False] show ?thesis by simp
      next
        case no: False
        then have all: "\<forall>x \<in> set s. x \<noteq> d" by auto
        then have u: "takeWhile (\<lambda>x. x \<noteq> d) s = s" "takeWhile (\<lambda>x. x \<noteq> d) (s @ [d]) = s"
          by (simp_all add: takeWhile_eq_all_conv takeWhile_append2)
        with False show ?thesis by (simp add: u del: takeWhile_eq_all_conv)
      qed
    qed (use "2.IH"(1) in simp)
  qed simp
  then show ?thesis by (simp add: words_def)
qed

lemma words_command:
  assumes "is_word c" and "\<forall>(n, v) \<in> set kvs. is_word n \<and> is_word v"
  shows "words (''rules '' @ c @ concat (map param kvs) @ '' '') = [''rules'', c] @ flat kvs"
proof -
  obtain s where s: "concat (map param kvs) @ '' '' = CHR '' '' # s"
    by (cases kvs) (auto simp: param_def split: prod.splits)
  then have "words s = flat kvs" using words_params [OF assms(2)] by simp
  moreover have "words (''rules'' @ CHR '' '' # c @ CHR '' '' # s) = [''rules'', c] @ words s"
    using assms(1) words_word [of "''rules''" "c @ CHR '' '' # s"] words_word [of c s]
    by (simp add: is_word_def)
  ultimately show ?thesis using s by simp
qed

text \<open>What \<open>positional_law\<close> rests on: no option of a line begins a name that the outer descriptions register.\<close>

lemma line_names_unregistered:
  "list_all (\<lambda>n. list_all (\<lambda>spec. take (length n) (long_name spec) \<noteq> n) (rules_desc @ line_desc)) line_names"
  by code_simp

lemma positional_command:
  assumes "positional_law L" and "desc \<in> {rules_desc, line_desc}" and "ws \<noteq> []" and "list_all is_word ws"
    and "\<forall>(n, v) \<in> set kvs. n \<in> set line_names \<and> is_word v"
  obtains p vm where "parse_options L desc rules_pos (ws @ flat kvs) = Done (p, vm)"
    and "vm ''command'' = Some (TextV (hd ws))" and "vm ''help'' = None" and "po_unrecognized L p = ws @ flat kvs"
  using assms that unfolding positional_law_def by blast

lemma load_command_line:
  assumes "positional_law L" and "strip_comment line = s" and "s \<noteq> []"
    and "split_unix L (''rules '' @ s) = [''rules'', c] @ flat kvs" and "is_word c"
    and "\<forall>(n, v) \<in> set kvs. n \<in> set line_names \<and> is_word v" and "shm_name h = Some i"
  shows "load_lines L (RuleParser_Parse (Suc n) L) (line # ls) h =
    sbind (rules_dispatch L (RuleParser_Parse n L) False i c (flat kvs)) (\<lambda>code.
      if code \<noteq> ExitWithNoError then sreturn () else load_lines L (RuleParser_Parse (Suc n) L) ls) h"
proof -
  have w: "list_all is_word [''rules'', c]" using assms(5) name_words by simp
  obtain p vm where p: "parse_options L line_desc rules_pos ([''rules'', c] @ flat kvs) = Done (p, vm)"
    "vm ''help'' = None" "po_unrecognized L p = [''rules'', c] @ flat kvs"
    by (rule positional_command [OF assms(1) _ _ w assms(6), of line_desc]) auto
  obtain q vm1 where q: "parse_options L rules_desc rules_pos ([c] @ flat kvs) = Done (q, vm1)"
    "vm1 ''command'' = Some (TextV c)" "po_unrecognized L q = [c] @ flat kvs"
    by (rule positional_command [OF assms(1) _ _ _ assms(6), of rules_desc "[c]"]) (use assms(5) in auto)
  have parse: "RuleParser_Parse (Suc n) L p vm h = rules_dispatch L (RuleParser_Parse n L) False i c (flat kvs) h"
    using p(2,3) q assms(7)
    by (simp add: RuleParser_Parse.simps erase_first_def has_option_def as_text_def ShmRuleEngine_new_def sbind_def slift_def)
  have "load_lines L (RuleParser_Parse (Suc n) L) (line # ls) h =
      sbind (RuleParser_Parse (Suc n) L p vm) (\<lambda>code.
        if code \<noteq> ExitWithNoError then sreturn () else load_lines L (RuleParser_Parse (Suc n) L) ls) h"
    using p(1) assms(2-4) by simp
  then show ?thesis unfolding sbind_def parse .
qed

section \<open>Loading a saved rule\<close>

definition locals_ok :: "locals \<Rightarrow> bool" where
  "locals_ok s \<longleftrightarrow> ipd_ok (j_ipd s) \<and> ipd_ok (j_target s) \<and> eth_ok (j_eth s) \<and> length (j_ip4 s) = 16 \<and> length (j_ip6 s) = 16"

text \<open>The same rule, up to the bytes of an address that its family does not use.\<close>

definition same_ip :: "IpAddressData \<Rightarrow> IpAddressData \<Rightarrow> bool" where
  "same_ip d d' \<longleftrightarrow> ipd_ipv4 d' = ipd_ipv4 d \<and>
     (if ipd_ipv4 d then take 4 (ipaddr d') = take 4 (ipaddr d) else ipaddr d' = ipaddr d)"

definition same_rule :: "Rule \<Rightarrow> Rule \<Rightarrow> bool" where
  "same_rule r r' \<longleftrightarrow> rule_header r' = rule_header r \<and> rel_option same_ip (ipd r) (ipd r') \<and> eth r' = eth r \<and>
     rel_option same_ip (target r) (target r')"

lemma ip_option_saved:
  assumes "vm name = Some (TextV (saved_ip L d))" and "ip_saved L d" and "ipd_ok d" and "ipd_ok j"
  shows "\<exists>d'. ip_option L vm name j = Done d' \<and> ipd_ok d' \<and> same_ip d d'"
proof -
  from assms have "length (ipaddr j) = 16" "length (ipaddr d) = 16" by (auto simp: ipd_ok_def ip_ok_def)
  with assms show ?thesis
    by (auto simp: ip_option_def has_option_def as_text_def ip_saved_def parse_ip_text ipd_ok_def ip_ok_def same_ip_def)
qed

lemma ip_option_None: "vm name = None \<Longrightarrow> ip_option L vm name j = Done j"
  by (simp add: ip_option_def has_option_def)

lemma mac_option_saved:
  assumes "vm ''macaddr'' = Some (TextV (EthAddressToString e))" and "eth_ok e" and "eth_ok j"
  shows "mac_option vm j = (if list_ex has_f e then Done e
     else Throw (validation_error invalid_option_value ''macaddr'' (EthAddressToString e)))"
proof -
  have "ToEthAddress (EthAddressToString e) j = (if list_ex has_f e then Done (1, e) else Done (- 1, j))"
    using assms by (intro printed_address_read) (simp_all add: eth_ok_def)
  with assms(1) show ?thesis by (simp add: mac_option_def has_option_def as_text_def)
qed

lemma mac_option_None: "vm ''macaddr'' = None \<Longrightarrow> mac_option vm j = Done j"
  by (simp add: mac_option_def has_option_def)

lemma rule_kvs_lookup:
  assumes "\<forall>n. vm n = map_option TextV (map_of (rule_kvs L r) n)"
  shows "vm ''index'' = None"
    and "vm ''ipaddr'' = (if has_ip (rule_header r) then Some (TextV (saved_ip L (the (ipd r)))) else None)"
    and "vm ''macaddr'' = (if has_eth (rule_header r) then Some (TextV (EthAddressToString (the (eth r)))) else None)"
    and "vm ''action'' = Some (TextV (if actionType (rule_header r) = Dns then ''dns'' else ''redirect''))"
    and "vm ''target'' = (if actionType (rule_header r) = Redirect then Some (TextV (saved_ip L (the (target r)))) else None)"
  using assms by (simp_all add: rule_kvs_def)

lemma add_request_saved:
  assumes ok: "rule_ok r" and pr: "rule_printable L r" and lo: "locals_ok s"
    and vm: "\<forall>n. vm n = map_option TextV (map_of (rule_kvs L r) n)"
    and mac: "has_eth (rule_header r) \<Longrightarrow> list_ex has_f (the (eth r))"
  shows "\<exists>r'. add_request L s vm = Done (SIZE_MAX, r') \<and> rule_args_ok r' \<and> same_rule r (stored r')"
proof -
  note f = rule_ok_fields [OF ok] and l = rule_kvs_lookup [OF vm]
  have "\<exists>d. ip_option L vm ''ipaddr'' (j_ipd s) = Done d \<and> ipd_ok d \<and>
      (has_ip (rule_header r) \<longrightarrow> same_ip (the (ipd r)) d)"
  proof (cases "has_ip (rule_header r)")
    case True
    with f(1) pr lo l(2) ip_option_saved [of vm "''ipaddr''" L "the (ipd r)" "j_ipd s"] show ?thesis
      by (auto simp: rule_printable_def locals_ok_def)
  qed (use l(2) lo in \<open>auto simp: ip_option_None locals_ok_def\<close>)
  then obtain d where d: "ip_option L vm ''ipaddr'' (j_ipd s) = Done d" "ipd_ok d"
    "has_ip (rule_header r) \<Longrightarrow> same_ip (the (ipd r)) d" by blast
  have "\<exists>t. ip_option L vm ''target'' (j_target s) = Done t \<and> ipd_ok t \<and>
      (actionType (rule_header r) = Redirect \<longrightarrow> same_ip (the (target r)) t)"
  proof (cases "actionType (rule_header r) = Redirect")
    case True
    with f(3) pr lo l(5) ip_option_saved [of vm "''target''" L "the (target r)" "j_target s"] show ?thesis
      by (auto simp: rule_printable_def locals_ok_def)
  qed (use l(5) lo in \<open>auto simp: ip_option_None locals_ok_def\<close>)
  then obtain t where t: "ip_option L vm ''target'' (j_target s) = Done t" "ipd_ok t"
    "actionType (rule_header r) = Redirect \<Longrightarrow> same_ip (the (target r)) t" by blast
  have "\<exists>e. mac_option vm (j_eth s) = Done e \<and> eth_ok e \<and> (has_eth (rule_header r) \<longrightarrow> e = the (eth r))"
  proof (cases "has_eth (rule_header r)")
    case True
    with f(2) lo l(3) mac mac_option_saved [of vm "the (eth r)" "j_eth s"] show ?thesis
      by (auto simp: locals_ok_def)
  qed (use l(3) lo in \<open>auto simp: mac_option_None locals_ok_def\<close>)
  then obtain e where e: "mac_option vm (j_eth s) = Done e" "eth_ok e" "has_eth (rule_header r) \<Longrightarrow> e = the (eth r)" by blast
  let ?rt = "ruleType (rule_header r)" and ?at = "actionType (rule_header r)"
  let ?r = "mk_rule ?rt ?at (Some d) (Some e) (Some t)"
  have at: "getActionType (if ?at = Dns then ''dns'' else ''redirect'') = Done ?at"
    using f(4) by (auto simp: getActionType_def)
  have rt: "(if has_eth (rule_header r) then if has_ip (rule_header r) then IpAndEthAddress else EthAddress else IpAddress) = ?rt"
    using ok by (rule rule_ok_cases) (simp_all add: has_ip_def has_eth_def)
  have hdr: "rule_header ?r = rule_header r" by (simp add: mk_rule_def)
  have act: "abind (as_text vm ''action'') (\<lambda>a. abind (getActionType a) g) = g ?at" for g :: "ActionType \<Rightarrow> (nat \<times> Rule) attempt"
    using l(4) at by (simp add: as_text_def split del: if_split)
  have has: "has_option vm ''index'' = False" "has_option vm ''action'' = True"
    "has_option vm ''ipaddr'' = has_ip (rule_header r)" "has_option vm ''macaddr'' = has_eth (rule_header r)"
    using l(1-4) by (simp_all add: has_option_def)
  have "add_request L s vm = Done (SIZE_MAX, ?r)"
    unfolding add_request_def has d(1) t(1) e(1) act rt Let_def using f(8) by (auto simp: d t e act)
  moreover have "rule_args_ok ?r"
    using ok d(2) t(2) e(2) by (simp add: rule_args_ok_def rule_ok_def hdr) (simp add: mk_rule_def)
  moreover have "same_rule r (stored ?r)"
    using f d(3) t(3) e(3) unfolding same_rule_def stored_def hdr
    by (cases "has_ip (rule_header r)"; cases "has_eth (rule_header r)"; cases "?at = Redirect") (auto simp: mk_rule_def)
  ultimately show ?thesis by blast
qed

lemma add_names:
  "list_all (\<lambda>n. list_ex (\<lambda>spec. long_name spec = n \<and> fst (snd spec) = TextT) add_desc) [''ipaddr'', ''macaddr'', ''action'', ''target'']"
  "list_all (\<lambda>n. list_ex (\<lambda>spec. long_name spec = n \<and> fst (snd spec) = TextT) policy_desc) [''action'', ''target4'', ''target6'']"
  by code_simp+

lemma registered_text:
  assumes "list_all (\<lambda>n. list_ex (\<lambda>spec. long_name spec = n \<and> fst (snd spec) = TextT) desc) ns" and "n \<in> set ns"
  shows "\<exists>what. \<exists>spec \<in> set desc. long_name spec = n \<and> snd spec = (TextT, what)"
  using assms unfolding list_all_iff list_ex_iff by (metis prod.collapse)

lemma named_options:
  assumes "named_law L" and "desc \<in> {add_desc, policy_desc}" and "distinct (map fst kvs)"
    and "list_all (\<lambda>n. list_ex (\<lambda>spec. long_name spec = n \<and> fst (snd spec) = TextT) desc) ns"
    and "\<forall>(n, v) \<in> set kvs. n \<in> set ns \<and> is_word v"
  obtains p vm where "parse_options L desc [] (flat kvs) = Done (p, vm)" and "\<forall>n. vm n = map_option TextV (map_of kvs n)"
proof -
  have "\<forall>(n, v) \<in> set kvs. is_word v \<and> (\<exists>what. (\<exists>spec \<in> set desc. long_name spec = n \<and> snd spec = (TextT, what)))"
    using assms(5) registered_text [OF assms(4)] by fast
  with assms(1-3) that show thesis unfolding named_law_def by blast
qed

lemma rule_kvs_names:
  assumes "rule_ok r" and "rule_printable L r"
  shows "\<forall>(n, v) \<in> set (rule_kvs L r). n \<in> set [''ipaddr'', ''macaddr'', ''action'', ''target''] \<and> is_word v"
  using rule_kvs_words [OF assms] by (auto simp: rule_kvs_def)

lemma rule_kvs_distinct: "distinct (map fst (rule_kvs L r))"
  by (simp add: rule_kvs_def)

text \<open>A line that \<open>show_rule\<close> wrote, without its end.\<close>

definition rule_line :: "'p lib \<Rightarrow> nat \<Rightarrow> Rule \<Rightarrow> string" where
  "rule_line L i r = ''add'' @ concat (map param (rule_kvs L r)) @ '' # '' @ decimal i"

definition lib_laws :: "'p lib \<Rightarrow> bool" where
  "lib_laws L \<longleftrightarrow> split_law L \<and> named_law L \<and> positional_law L \<and> (\<forall>h. locals_ok (stack L h))"

lemma load_rule_line:
  assumes laws: "lib_laws L" and ok: "rule_ok r" and pr: "rule_printable L r" and h: "shm_name h = Some i"
  shows "load_lines L (RuleParser_Parse (Suc n) L) (rule_line L k r # ls) h =
    sbind (rules_add L False i (flat (rule_kvs L r))) (\<lambda>code.
      if code \<noteq> ExitWithNoError then sreturn () else load_lines L (RuleParser_Parse (Suc n) L) ls) h"
proof -
  let ?kvs = "rule_kvs L r"
  let ?s = "''add'' @ concat (map param ?kvs) @ '' ''"
  have w: "\<forall>(n, v) \<in> set ?kvs. is_word n \<and> is_word v" by (rule rule_kvs_words [OF ok pr])
  have pl: "plain ''add''" "plain '' ''" "plain ''rules ''" by code_simp+
  then have s: "plain ?s" using params_plain [OF w] by (simp del: append.simps)
  have "rule_line L k r = ?s @ CHR ''#'' # '' '' @ decimal k" by (simp add: rule_line_def)
  then have strip: "strip_comment (rule_line L k r) = ?s" using strip_comment_line [OF s] by simp
  have add: "is_word ''add''" using name_words by simp
  have "split_unix L (''rules '' @ ?s) = [''rules'', ''add''] @ flat ?kvs"
    using laws pl(3) s words_command [OF add w] by (simp add: lib_laws_def split_law_def del: append.simps)
  moreover have "\<forall>(n, v) \<in> set ?kvs. n \<in> set line_names \<and> is_word v" using rule_kvs_names [OF ok pr] by auto
  moreover have "positional_law L" using laws by (simp add: lib_laws_def)
  ultimately have "load_lines L (RuleParser_Parse (Suc n) L) (rule_line L k r # ls) h =
      sbind (rules_dispatch L (RuleParser_Parse n L) False i ''add'' (flat ?kvs)) (\<lambda>code.
        if code \<noteq> ExitWithNoError then sreturn () else load_lines L (RuleParser_Parse (Suc n) L) ls) h"
    by (intro load_command_line [OF _ strip _ _ add _ h]) simp_all
  then show ?thesis by (simp add: rules_dispatch_def)
qed

lemma rules_add_saved:
  assumes laws: "lib_laws L" and ok: "rule_ok r" and pr: "rule_printable L r"
    and mac: "has_eth (rule_header r) \<Longrightarrow> list_ex has_f (the (eth r))"
    and d: "holds (shm_object h i) rs" and fits: "rule_fits rs r"
  shows "\<exists>d' r'. rules_add L False i (flat (rule_kvs L r)) h = (Done ExitWithNoError, h\<lparr>shm_object := (shm_object h)(i := d')\<rparr>) \<and>
    holds d' (rs @ [r']) \<and> same_rule r r' \<and> policy d' = policy (shm_object h i)"
proof -
  have nl: "named_law L" using laws by (simp add: lib_laws_def)
  obtain p vm where vm: "parse_options L add_desc [] (flat (rule_kvs L r)) = Done (p, vm)"
    "\<forall>n. vm n = map_option TextV (map_of (rule_kvs L r) n)"
    by (rule named_options [OF nl _ rule_kvs_distinct add_names(1) rule_kvs_names [OF ok pr]]) simp
  have "locals_ok (stack L h)" using laws by (simp add: lib_laws_def)
  from add_request_saved [OF ok pr this vm(2) mac] obtain r' where r':
    "add_request L (stack L h) vm = Done (SIZE_MAX, r')" "rule_args_ok r'" "same_rule r (stored r')" by blast
  have "rule_fits rs r'"
    using fits r'(3) by (simp add: rule_fits_def same_rule_def rule_size_def)
  with append_step [OF d r'(2)] obtain d' where d': "AppendRule r' (shm_object h i) = Ret (True, d')"
    "policy d' = policy (shm_object h i)" "holds d' (rs @ [stored r'])" by auto
  have "rules_add L False i (flat (rule_kvs L r)) h = (Done ExitWithNoError, h\<lparr>shm_object := (shm_object h)(i := d')\<rparr>)"
    using vm(1) r'(1) with_rules_Ret [of "AppendRule r'" h i, OF d'(1)]
    by (simp add: rules_add_def sbind_Done)
  with d' r'(3) show ?thesis by blast
qed

section \<open>Loading the saved rules\<close>

definition rule_lines :: "'p lib \<Rightarrow> nat \<Rightarrow> Rule list \<Rightarrow> string list" where
  "rule_lines L k rs = map (\<lambda>(j, r). rule_line L j r) (enumerate k rs)"

text \<open>
  A printed rule loads again when its hardware address, if it has one, has the digit that reading asks for.
  Otherwise the line throws, and nothing has changed.
\<close>

definition mac_loadable :: "Rule \<Rightarrow> bool" where
  "mac_loadable r \<longleftrightarrow> (has_eth (rule_header r) \<longrightarrow> list_ex has_f (the (eth r)))"

definition mac_error :: "Rule \<Rightarrow> exn" where
  "mac_error r = validation_error invalid_option_value ''macaddr'' (EthAddressToString (the (eth r)))"

lemma rules_add_refused:
  assumes laws: "lib_laws L" and ok: "rule_ok r" and pr: "rule_printable L r" and mac: "\<not> mac_loadable r"
  shows "rules_add L False i (flat (rule_kvs L r)) h = (Throw (mac_error r), h)"
proof -
  have nl: "named_law L" using laws by (simp add: lib_laws_def)
  obtain p vm where vm: "parse_options L add_desc [] (flat (rule_kvs L r)) = Done (p, vm)"
    "\<forall>n. vm n = map_option TextV (map_of (rule_kvs L r) n)"
    by (rule named_options [OF nl _ rule_kvs_distinct add_names(1) rule_kvs_names [OF ok pr]]) simp
  let ?s = "stack L h"
  have lo: "locals_ok ?s" using laws by (simp add: lib_laws_def)
  note f = rule_ok_fields [OF ok] and l = rule_kvs_lookup [OF vm(2)]
  from mac have e: "has_eth (rule_header r)" "\<not> list_ex has_f (the (eth r))" by (simp_all add: mac_loadable_def)
  have "\<exists>d. ip_option L vm ''ipaddr'' (j_ipd ?s) = Done d"
  proof (cases "has_ip (rule_header r)")
    case True
    with f(1) pr lo l(2) ip_option_saved [of vm "''ipaddr''" L "the (ipd r)" "j_ipd ?s"] show ?thesis
      by (auto simp: rule_printable_def locals_ok_def)
  qed (use l(2) in \<open>auto simp: ip_option_None\<close>)
  then obtain d where d: "ip_option L vm ''ipaddr'' (j_ipd ?s) = Done d" by blast
  have "mac_option vm (j_eth ?s) = Throw (mac_error r)"
    using e f(2) lo l(3) mac_option_saved [of vm "the (eth r)" "j_eth ?s"] by (auto simp: locals_ok_def mac_error_def)
  moreover have "has_option vm ''index'' = False" using l(1) by (simp add: has_option_def)
  ultimately have "add_request L ?s vm = Throw (mac_error r)"
    unfolding add_request_def using d by simp
  with vm(1) show ?thesis by (simp add: rules_add_def sbind_def slift_def)
qed

lemma show_rules_lines:
  "list_all rule_ok rs \<Longrightarrow> list_all (rule_printable L) rs \<Longrightarrow> mem_at m p (concat (map rule_bytes rs)) \<Longrightarrow>
     show_rules L m (length rs) k p = Ret (concat (map (\<lambda>l. l @ endl) (rule_lines L k rs)))"
proof (induction rs arbitrary: k p)
  case (Cons r rs)
  then have "nextRule m p = Ret (r, p + length (rule_bytes r))" by (simp add: nextRule_at mem_at_append)
  moreover have "show_rule L k r = Ret (rule_line L k r @ endl)"
    using Cons.prems show_rule_line [of r L k] by (simp add: rule_line_def)
  moreover have "show_rules L m (length rs) (k + 1) (p + length (rule_bytes r)) =
      Ret (concat (map (\<lambda>l. l @ endl) (rule_lines L (k + 1) rs)))"
    using Cons by (intro Cons.IH) (simp_all add: mem_at_append)
  ultimately show ?case by (simp add: rule_lines_def)
qed (simp add: rule_lines_def)

lemma load_rule_lines:
  assumes "lib_laws L" and "list_all rule_ok rs" and "list_all (rule_printable L) rs" and "list_all mac_loadable rs"
    and "shm_name h = Some i" and "holds (shm_object h i) rs0" and "sum_list (map rule_size (rs0 @ rs)) \<le> DATA_SIZE"
  shows "\<exists>d' rs'. (\<forall>ls. load_lines L (RuleParser_Parse (Suc n) L) (rule_lines L k rs @ ls) h =
      load_lines L (RuleParser_Parse (Suc n) L) ls (h\<lparr>shm_object := (shm_object h)(i := d')\<rparr>)) \<and>
    holds d' (rs0 @ rs') \<and> list_all2 same_rule rs rs' \<and> policy d' = policy (shm_object h i)"
  using assms(2-7)
proof (induction rs arbitrary: k h rs0)
  case Nil
  then show ?case
    by (intro exI [of _ "shm_object h i"] exI [of _ "[]"]) (simp add: rule_lines_def)
next
  case (Cons r rs)
  then have r: "rule_ok r" "rule_printable L r" "has_eth (rule_header r) \<Longrightarrow> list_ex has_f (the (eth r))" "rule_fits rs0 r"
    by (auto simp: mac_loadable_def rule_fits_def)
  from rules_add_saved [OF assms(1) r(1-3) Cons.prems(5) r(4)] obtain d1 r' where a:
    "rules_add L False i (flat (rule_kvs L r)) h = (Done ExitWithNoError, h\<lparr>shm_object := (shm_object h)(i := d1)\<rparr>)"
    "holds d1 (rs0 @ [r'])" "same_rule r r'" "policy d1 = policy (shm_object h i)" by blast
  let ?h = "h\<lparr>shm_object := (shm_object h)(i := d1)\<rparr>"
  have size: "rule_size r' = rule_size r" using a(3) by (simp add: same_rule_def rule_size_def)
  have "shm_name ?h = Some i" "holds (shm_object ?h i) (rs0 @ [r'])" using Cons.prems(4) a(2) by simp_all
  then have "\<exists>d' rs'. (\<forall>ls. load_lines L (RuleParser_Parse (Suc n) L) (rule_lines L (k + 1) rs @ ls) ?h =
      load_lines L (RuleParser_Parse (Suc n) L) ls (?h\<lparr>shm_object := (shm_object ?h)(i := d')\<rparr>)) \<and>
    holds d' ((rs0 @ [r']) @ rs') \<and> list_all2 same_rule rs rs' \<and> policy d' = policy (shm_object ?h i)"
    using Cons.prems size by (intro Cons.IH) simp_all
  then obtain d' rs' where b:
    "\<And>ls. load_lines L (RuleParser_Parse (Suc n) L) (rule_lines L (k + 1) rs @ ls) ?h =
      load_lines L (RuleParser_Parse (Suc n) L) ls (h\<lparr>shm_object := (shm_object h)(i := d')\<rparr>)"
    "holds d' (rs0 @ r' # rs')" "list_all2 same_rule rs rs'" "policy d' = policy (shm_object h i)"
    using a(4) by auto
  have step: "load_lines L (RuleParser_Parse (Suc n) L) (rule_lines L k (r # rs) @ ls) h =
      load_lines L (RuleParser_Parse (Suc n) L) ls (h\<lparr>shm_object := (shm_object h)(i := d')\<rparr>)" for ls
    using load_rule_line [OF assms(1) r(1,2) Cons.prems(4), of n k "rule_lines L (k + 1) rs @ ls"] a(1) b(1) [of ls]
    by (simp add: rule_lines_def sbind_Done)
  show ?case
    by (intro exI [of _ d'] exI [of _ "r' # rs'"] conjI allI) (rule step, use b(2-4) a(3) in simp_all)
qed

section \<open>Loading the saved policy\<close>

definition policy_kvs :: "'p lib \<Rightarrow> Policy \<Rightarrow> (string \<times> string) list" where
  "policy_kvs L p = (if action p = Redirect
     then [(''target4'', the (inet_ntop L True (targetIpv4 p))), (''target6'', the (inet_ntop L False (targetIpv6 p)))] else [])"

definition action_text :: "Policy \<Rightarrow> string" where
  "action_text p = (if action p = Dns then ''dns'' else ''redirect'')"

definition policy_printable :: "'p lib \<Rightarrow> Policy \<Rightarrow> bool" where
  "policy_printable L p \<longleftrightarrow> action p = Dns \<or> action p = Redirect \<and> ip_ok (targetIpv4 p) \<and>
     ip_text L True (targetIpv4 p) (the (inet_ntop L True (targetIpv4 p))) \<and>
     ip_text L False (targetIpv6 p) (the (inet_ntop L False (targetIpv6 p)))"

definition policy_line :: "'p lib \<Rightarrow> Policy \<Rightarrow> string" where
  "policy_line L p = ''policy  --action  '' @ action_text p @ concat (map param (policy_kvs L p))"

lemma show_ip_text: "ip_text L v4 a t \<Longrightarrow> show_ip L a v4 address = t"
  by (simp add: ip_text_def show_ip_def IpAddressToString_def)

lemma show_policy_line: "policy_printable L p \<Longrightarrow> show_policy L p = policy_line L p @ endl"
  by (auto simp: policy_printable_def show_policy_def policy_line_def policy_kvs_def action_text_def param_def
      showParam_def show_ip_text Let_def)

lemma policy_kvs_words: "policy_printable L p \<Longrightarrow> \<forall>(n, v) \<in> set (policy_kvs L p). is_word n \<and> is_word v"
  using name_words by (auto simp: policy_kvs_def policy_printable_def dest: ip_text_word)

lemma action_text_word: "is_word (action_text p)"
  using name_words by (simp add: action_text_def)

lemma policy_line_plain: "policy_printable L p \<Longrightarrow> plain (policy_line L p)"
proof -
  have "plain ''policy  --action  ''" by code_simp
  then show "policy_printable L p \<Longrightarrow> plain (policy_line L p)"
    using params_plain [OF policy_kvs_words] action_text_word
    by (simp add: policy_line_def is_word_def del: append.simps)
qed

lemma words_policy_line:
  assumes "policy_printable L p"
  shows "words (''rules '' @ policy_line L p) = [''rules'', ''policy''] @ flat ((''action'', action_text p) # policy_kvs L p)"
proof -
  note w = policy_kvs_words [OF assms] and aw = action_text_word [of p]
  obtain s where s: "concat (map param (policy_kvs L p)) @ '' '' = CHR '' '' # s"
    by (cases "policy_kvs L p") (auto simp: param_def split: prod.splits)
  then have "words s = flat (policy_kvs L p)" using words_params [OF w] by simp
  then have "words (action_text p @ CHR '' '' # s) = action_text p # flat (policy_kvs L p)"
    using aw words_word [of "action_text p" s] by (simp add: is_word_def)
  moreover have "words (''rules '' @ policy_line L p) =
      words (''rules'' @ CHR '' '' # ''policy'' @ CHR '' '' # CHR '' '' # ''--action'' @ CHR '' '' # CHR '' '' # action_text p @ CHR '' '' # s)"
    using words_trailing [of "''rules '' @ policy_line L p"] s by (simp add: policy_line_def)
  moreover have "words (''rules'' @ CHR '' '' # ''policy'' @ CHR '' '' # CHR '' '' # ''--action'' @ CHR '' '' # CHR '' '' # x) =
      [''rules'', ''policy'', ''--action''] @ words x" for x
    using words_word [of "''rules''"] words_word [of "''policy''"] words_word [of "''--action''"] by simp
  ultimately show ?thesis by (simp add: flat_def)
qed

lemma policy_request_saved:
  assumes "policy_printable L p" and "locals_ok s"
    and vm: "\<forall>n. vm n = map_option TextV (map_of ((''action'', action_text p) # policy_kvs L p) n)"
  shows "policy_request L s vm =
    (if action p = Dns then Throw (validation_error at_least_one_value_required ''target4'' [])
     else Done (Redirect, take 4 (targetIpv4 p) @ drop 4 (j_ip4 s), targetIpv6 p))"
proof (cases "action p = Dns")
  case True
  with vm show ?thesis
    by (simp add: policy_request_def policy_target_def has_option_def as_text_def getActionType_def action_text_def policy_kvs_def)
next
  case False
  with assms(1) have p: "action p = Redirect" "ip_text L True (targetIpv4 p) (the (inet_ntop L True (targetIpv4 p)))"
    "ip_text L False (targetIpv6 p) (the (inet_ntop L False (targetIpv6 p)))" by (auto simp: policy_printable_def)
  from assms(2) have len: "length (j_ip4 s) = 16" "length (j_ip6 s) = 16" by (auto simp: locals_ok_def)
  from vm p(1) have v: "vm ''action'' = Some (TextV ''redirect'')"
    "vm ''target4'' = Some (TextV (the (inet_ntop L True (targetIpv4 p))))"
    "vm ''target6'' = Some (TextV (the (inet_ntop L False (targetIpv6 p))))"
    by (simp_all add: policy_kvs_def action_text_def)
  show ?thesis
    using p(1) parse_ip_text [OF p(2) len(1), of "''target4''"] parse_ip_text [OF p(3) len(2), of "''target6''"]
    by (simp add: policy_request_def policy_target_def has_option_def as_text_def v getActionType_def)
qed

text \<open>What loading the line of a policy does.\<close>

definition policy_loaded :: "locals \<Rightarrow> Policy \<Rightarrow> RuleData \<Rightarrow> unit attempt \<times> RuleData" where
  "policy_loaded s p d =
     (if action p = Dns then (Throw (validation_error at_least_one_value_required ''target4'' []), d)
      else (Done (), d\<lparr>policy := \<lparr>action = Redirect, targetIpv4 = take 4 (targetIpv4 p) @ drop 4 (j_ip4 s),
         targetIpv6 = targetIpv6 p\<rparr>\<rparr>))"

lemma load_policy_line:
  assumes laws: "lib_laws L" and pr: "policy_printable L p" and h: "shm_name h = Some i"
    and loaded: "policy_loaded (stack L h) p (shm_object h i) = (x, d')"
  shows "load_lines L (RuleParser_Parse (Suc n) L) [policy_line L p, ''# end''] h =
    (x, h\<lparr>shm_object := (shm_object h)(i := d')\<rparr>)"
proof -
  let ?kvs = "(''action'', action_text p) # policy_kvs L p"
  have ne: "policy_line L p \<noteq> []" by (simp add: policy_line_def)
  have pl: "plain (policy_line L p)" by (rule policy_line_plain [OF pr])
  have "plain (''rules '' @ policy_line L p)" using pl by (simp add: plain_Cons special_def)
  then have sp: "split_unix L (''rules '' @ policy_line L p) = [''rules'', ''policy''] @ flat ?kvs"
    using laws words_policy_line [OF pr] by (simp add: lib_laws_def split_law_def)
  have nv: "\<forall>(n, v) \<in> set ?kvs. n \<in> set [''action'', ''target4'', ''target6''] \<and> is_word v"
    using policy_kvs_words [OF pr] action_text_word [of p] by (auto simp: policy_kvs_def)
  have sub: "set [''action'', ''target4'', ''target6''] \<subseteq> set line_names" by auto
  have ln: "\<forall>(n, v) \<in> set ?kvs. n \<in> set line_names \<and> is_word v"
    by (rule ballI) (use nv sub in \<open>force simp del: list.set\<close>)
  have wp: "is_word ''policy''" using name_words by simp
  have "positional_law L" "named_law L" using laws by (simp_all add: lib_laws_def)
  have dist: "distinct (map fst ?kvs)" by (cases "action p = Redirect") (simp_all add: policy_kvs_def)
  have lo: "locals_ok (stack L h)" using laws by (simp add: lib_laws_def)
  obtain q vm where vm: "parse_options L policy_desc [] (flat ?kvs) = Done (q, vm)"
    "\<forall>n. vm n = map_option TextV (map_of ?kvs n)"
    by (rule named_options [OF \<open>named_law L\<close> _ dist add_names(2) nv]) simp
  have "load_lines L (RuleParser_Parse (Suc n) L) (policy_line L p # [''# end'']) h =
      sbind (rules_dispatch L (RuleParser_Parse n L) False i ''policy'' (flat ?kvs)) (\<lambda>code.
        if code \<noteq> ExitWithNoError then sreturn () else load_lines L (RuleParser_Parse (Suc n) L) [''# end'']) h"
    using strip_comment_plain [OF pl] ne sp wp ln h \<open>positional_law L\<close> by (intro load_command_line)
  moreover have "load_lines L (RuleParser_Parse (Suc n) L) [''# end''] = sreturn ()"
    by (simp add: strip_comment_def)
  moreover have "rules_policy L False i (flat ?kvs) h =
      (case x of Done _ \<Rightarrow> Done ExitWithNoError | Throw e \<Rightarrow> Throw e | Undefined u \<Rightarrow> Undefined u,
       h\<lparr>shm_object := (shm_object h)(i := d')\<rparr>)"
    using vm(1) policy_request_saved [OF pr lo vm(2)] loaded
    by (auto simp: rules_policy_def policy_loaded_def sbind_def slift_def sreturn_def with_rules_def SetPolicy_def
        split: if_splits)
  ultimately show ?thesis
    by (simp add: rules_dispatch_def) (simp add: sbind_def split: attempt.split)
qed

section \<open>The whole file\<close>

lemma decimal_all: "(\<And>k. k < 10 \<Longrightarrow> P (''0123456789'' ! k)) \<Longrightarrow> list_all P (decimal n)"
proof (induction n rule: decimal.induct)
  case (1 n)
  then show ?case by (subst decimal.simps) (simp del: nth_Cons_numeral)
qed

lemma decimal_no_newline: "CHR 0x0A \<notin> set (decimal n)"
proof -
  have "list_all (\<lambda>k. ''0123456789'' ! k \<noteq> CHR 0x0A) [0..<10]" by code_simp
  then have "''0123456789'' ! k \<noteq> CHR 0x0A" if "k < 10" for k
    using that unfolding list_all_iff by (metis atLeastLessThan_iff le0 set_upt)
  then have "list_all (\<lambda>c. c \<noteq> CHR 0x0A) (decimal n)" by (rule decimal_all)
  then show ?thesis by (auto simp: list_all_iff)
qed

lemma no_newline_plain: "plain s \<Longrightarrow> CHR 0x0A \<notin> set s"
  by (auto simp: plain_def list_all_iff special_def)

lemma rule_line_no_newline:
  assumes "rule_ok r" and "rule_printable L r"
  shows "CHR 0x0A \<notin> set (rule_line L k r)"
proof -
  have "CHR 0x0A \<notin> set (concat (map param (rule_kvs L r)))"
    using no_newline_plain [OF params_plain [OF rule_kvs_words [OF assms]]] .
  then show ?thesis by (simp add: rule_line_def decimal_no_newline)
qed

lemma getlines_lines:
  "\<forall>l \<in> set ls. l \<noteq> [] \<and> CHR 0x0A \<notin> set l \<Longrightarrow> getlines CHR 0x0A (concat (map (\<lambda>l. l @ endl) ls)) = ls"
proof (induction ls)
  case (Cons l ls)
  then show ?case using getlines_word [of l "CHR 0x0A"] by (simp add: endl_def)
qed simp

lemma show_engine_lines:
  assumes "holds d rs" and "list_all (rule_printable L) rs" and "policy_printable L (policy d)"
  shows "show_engine L d =
    Ret (concat (map (\<lambda>l. l @ endl) (''# start'' # rule_lines L 0 rs @ [policy_line L (policy d), ''# end''])))"
  using assms show_rules_lines [of rs L "rd_data d" 0 0]
  by (simp add: show_engine_def holds_def show_policy_line)

lemma rule_lines_facts:
  assumes "list_all rule_ok rs" and "list_all (rule_printable L) rs"
  shows "\<forall>l \<in> set (rule_lines L k rs). l \<noteq> [] \<and> CHR 0x0A \<notin> set l"
proof
  fix l assume "l \<in> set (rule_lines L k rs)"
  then obtain j r where "l = rule_line L j r" "r \<in> set rs"
    unfolding rule_lines_def by (auto simp: in_set_enumerate_eq)
  with assms show "l \<noteq> [] \<and> CHR 0x0A \<notin> set l"
    by (auto simp: list_all_iff rule_line_no_newline) (simp add: rule_line_def)
qed

text \<open>
  How loading a saved file ends: with the first rule that does not load, or with the line of the policy.
\<close>

definition load_end :: "Rule list \<Rightarrow> Policy \<Rightarrow> unit attempt" where
  "load_end rs p = (case dropWhile mac_loadable rs of r # _ \<Rightarrow> Throw (mac_error r)
     | [] \<Rightarrow> if action p = Dns then Throw (validation_error at_least_one_value_required ''target4'' []) else Done ())"

lemma rule_lines_append: "rule_lines L k (rs @ rs') = rule_lines L k rs @ rule_lines L (k + length rs) rs'"
  by (simp add: rule_lines_def enumerate_append_eq)

lemma rule_lines_Cons: "rule_lines L k (r # rs) = rule_line L k r # rule_lines L (Suc k) rs"
  by (simp add: rule_lines_def)

lemma load_engine_lines:
  assumes d: "holds d rs" and pr: "list_all (rule_printable L) rs" and pol: "policy_printable L (policy d)"
  obtains saved where "show_engine L d = Ret saved"
    and "load_engine L parse saved h = load_lines L parse (rule_lines L 0 rs @ [policy_line L (policy d), ''# end'']) h"
proof -
  have ok: "list_all rule_ok rs" using d by (simp add: holds_def)
  let ?ls = "''# start'' # rule_lines L 0 rs @ [policy_line L (policy d), ''# end'']"
  have "\<forall>l \<in> set ?ls. l \<noteq> [] \<and> CHR 0x0A \<notin> set l"
    using rule_lines_facts [OF ok pr, of 0] no_newline_plain [OF policy_line_plain [OF pol]]
    by (auto simp: policy_line_def)
  then have "getlines CHR 0x0A (concat (map (\<lambda>l. l @ endl) ?ls)) = ?ls" by (rule getlines_lines)
  then have "load_engine L parse (concat (map (\<lambda>l. l @ endl) ?ls)) h =
      load_lines L parse (rule_lines L 0 rs @ [policy_line L (policy d), ''# end'']) h"
    unfolding load_engine_def by (simp add: strip_comment_def del: concat.simps map_append list.map)
  from that [OF show_engine_lines [OF d pr pol] this] show thesis .
qed

lemma load_rest:
  assumes laws: "lib_laws L" and ok: "list_all rule_ok rs" and pr: "list_all (rule_printable L) rs"
    and first: "case rs of [] \<Rightarrow> True | r # _ \<Rightarrow> \<not> mac_loadable r" and pol: "policy_printable L p" and h: "shm_name h = Some i"
    and loaded: "policy_loaded (stack L h) p (shm_object h i) = (x, d')"
  shows "load_lines L (RuleParser_Parse (Suc n) L) (rule_lines L k rs @ [policy_line L p, ''# end'']) h =
    (case rs of [] \<Rightarrow> (x, h\<lparr>shm_object := (shm_object h)(i := d')\<rparr>) | r # _ \<Rightarrow> (Throw (mac_error r), h))"
proof (cases rs)
  case Nil
  with load_policy_line [OF laws pol h loaded] show ?thesis by (simp add: rule_lines_def)
next
  case (Cons r rs')
  with ok pr first have r: "rule_ok r" "rule_printable L r" "\<not> mac_loadable r" by simp_all
  show ?thesis
    using load_rule_line [OF laws r(1,2) h] rules_add_refused [OF laws r, of i h]
    by (simp add: Cons rule_lines_Cons sbind_def)
qed

lemma load_saved:
  assumes laws: "lib_laws L" and d: "holds d rs" and pr: "list_all (rule_printable L) rs"
    and pol: "policy_printable L (policy d)" and h: "shm_name h = Some i" and d0: "holds (shm_object h i) rs0"
    and room: "sum_list (map rule_size (rs0 @ rs)) \<le> DATA_SIZE"
  obtains saved s rs' d' d'' where "show_engine L d = Ret saved"
    and "load_engine L (RuleParser_Parse (Suc n) L) saved h =
      (load_end rs (policy d), h\<lparr>shm_object := (shm_object h)(i := d')\<rparr>)"
    and "d' = (if list_all mac_loadable rs then snd (policy_loaded s (policy d) d'') else d'')"
    and "holds d'' (rs0 @ rs')" and "list_all2 same_rule (takeWhile mac_loadable rs) rs'"
    and "policy d'' = policy (shm_object h i)"
proof -
  let ?P = "RuleParser_Parse (Suc n) L" and ?p = "policy d"
  let ?a = "takeWhile mac_loadable rs" and ?b = "dropWhile mac_loadable rs"
  have rs: "rs = ?a @ ?b" by simp
  have ok: "list_all rule_ok rs" using d by (simp add: holds_def)
  have a: "list_all rule_ok ?a" "list_all (rule_printable L) ?a" "list_all mac_loadable ?a"
    using ok pr by (auto simp: list_all_iff dest: set_takeWhileD)
  have b: "list_all rule_ok ?b" "list_all (rule_printable L) ?b" "case ?b of [] \<Rightarrow> True | r # _ \<Rightarrow> \<not> mac_loadable r"
    using ok pr by (auto simp: list_all_iff dropWhile_eq_Cons_conv dest: set_dropWhileD split: list.split)
  have "sum_list (map rule_size (rs0 @ ?a)) \<le> sum_list (map rule_size (rs0 @ rs))"
    by (subst (2) rs) (simp del: takeWhile_dropWhile_id)
  with room have "sum_list (map rule_size (rs0 @ ?a)) \<le> DATA_SIZE" by linarith
  from load_rule_lines [OF laws a h d0 this, of n 0] obtain d'' rs' where l:
    "\<And>ls. load_lines L ?P (rule_lines L 0 ?a @ ls) h = load_lines L ?P ls (h\<lparr>shm_object := (shm_object h)(i := d'')\<rparr>)"
    "holds d'' (rs0 @ rs')" "list_all2 same_rule ?a rs'" "policy d'' = policy (shm_object h i)" by blast
  let ?h = "h\<lparr>shm_object := (shm_object h)(i := d'')\<rparr>"
  obtain x dp where pl: "policy_loaded (stack L ?h) ?p d'' = (x, dp)" by fastforce
  let ?d = "if list_all mac_loadable rs then dp else d''"
  have all: "list_all mac_loadable rs \<longleftrightarrow> ?b = []" by (simp add: list_all_iff)
  have x: "x = (if action ?p = Dns then Throw (validation_error at_least_one_value_required ''target4'' []) else Done ())"
    using pl by (auto simp: policy_loaded_def split: if_splits)
  obtain saved where saved: "show_engine L d = Ret saved"
    "load_engine L ?P saved h = load_lines L ?P (rule_lines L 0 rs @ [policy_line L ?p, ''# end'']) h"
    by (rule load_engine_lines [OF d pr pol])
  have "load_lines L ?P (rule_lines L 0 rs @ [policy_line L ?p, ''# end'']) h =
      load_lines L ?P (rule_lines L (length ?a) ?b @ [policy_line L ?p, ''# end'']) ?h"
    using l(1) by (subst rs) (simp only: rule_lines_append append_assoc add_0)
  also have "\<dots> = (load_end rs ?p, h\<lparr>shm_object := (shm_object h)(i := ?d)\<rparr>)"
    using load_rest [OF laws b pol, of ?h i x dp n "length ?a"] h pl
    by (cases ?b) (simp_all add: load_end_def all x del: dropWhile_eq_Nil_conv)
  finally show thesis using that [OF saved(1) _ _ l(2-4), of ?d "stack L ?h"] saved(2) pl by simp
qed

definition same_policy :: "Policy \<Rightarrow> Policy \<Rightarrow> bool" where
  "same_policy p p' \<longleftrightarrow> action p' = action p \<and> take 4 (targetIpv4 p') = take 4 (targetIpv4 p) \<and> targetIpv6 p' = targetIpv6 p"

lemma holds_policy [simp]: "holds (d\<lparr>policy := p\<rparr>) rs = holds d rs"
  by (simp add: holds_def)

text \<open>Rules that are the same decide the same about every client.\<close>

lemma ip_word_0_take: "take 4 a = take 4 b \<Longrightarrow> length a = 16 \<Longrightarrow> length b = 16 \<Longrightarrow> ip_word a 0 = ip_word b 0"
proof -
  assume t: "take 4 a = take 4 b" and "length a = 16" "length b = 16"
  have "a ! k = b ! k" if "k < 4" for k using t that by (metis nth_take)
  then show ?thesis by (simp add: ip_word_def)
qed

lemma same_rule_matches:
  assumes "rule_ok r" and "rule_ok r'" and "same_rule r r'"
  shows "matches inp r' \<longleftrightarrow> matches inp r"
proof -
  note f = rule_ok_fields [OF assms(1)] rule_ok_fields [OF assms(2)]
  have hdr: "rule_header r' = rule_header r" and e: "eth r' = eth r" using assms(3) by (auto simp: same_rule_def)
  have "has_ip (rule_header r) \<Longrightarrow> ip_differs inp (the (ipd r')) = ip_differs inp (the (ipd r))"
  proof -
    assume "has_ip (rule_header r)"
    with f(1) f(9) hdr obtain d d' where d: "ipd r = Some d" "ipd_ok d" "ipd r' = Some d'" "ipd_ok d'" by auto
    with assms(3) have "same_ip d d'" by (simp add: same_rule_def)
    with d ip_word_0_take [of "ipaddr d'" "ipaddr d"] show ?thesis
      by (auto simp: ip_differs_def same_ip_def ipd_ok_def ip_ok_def)
  qed
  moreover have "actionType (rule_header r) = Redirect \<Longrightarrow> ipd_ipv4 (the (target r')) = ipd_ipv4 (the (target r))"
  proof -
    assume "actionType (rule_header r) = Redirect"
    with f(3) f(11) hdr obtain t t' where "target r = Some t" "target r' = Some t'" by auto
    with assms(3) show ?thesis by (simp add: same_rule_def same_ip_def)
  qed
  ultimately show ?thesis using hdr e by (auto simp: matches_def)
qed

section \<open>A sample of the libraries\<close>

fun pairs :: "string list \<Rightarrow> (string \<times> string) list" where
  "pairs (k # v # ts) = (drop 2 k, v) # pairs ts"
| "pairs ts = []"

definition sample_describe :: "opt_spec \<Rightarrow> option_description" where
  "sample_describe spec = \<lparr>canonical_display_name = (\<lambda>n. long_name spec), is_required = False,
     max_tokens = (if fst (snd spec) = FlagT then 0 else 1), od_description = snd (snd spec), format_name = long_name spec\<rparr>"

definition sample_locals :: locals where
  "sample_locals = \<lparr>j_ipd = sample_ip 77, j_target = sample_ip 78, j_eth = replicate 6 0, j_ip4 = replicate 16 9, j_ip6 = replicate 16 9\<rparr>"

definition sample_lib :: "(positions \<times> string list) lib" where
  "sample_lib = \<lparr>po_run = (\<lambda>desc pos allow toks. Done (pos, toks)),
     po_store = (\<lambda>(pos, toks) vm. Done (if pos = [] then (\<lambda>n. map_option TextV (map_of (pairs toks) n))
        else [''command'' \<mapsto> TextV (hd toks)])),
     po_unrecognized = snd, split_unix = words, describe = sample_describe,
     describe_positions = (\<lambda>pos. \<lparr>max_total_count = 4294967295, name_for_position = (\<lambda>i. if i = 0 then ''command'' else ''subargs'')\<rparr>),
     inet_pton = (\<lambda>v4 t b. if v4 \<and> t = ''10.0.0.2'' then (1, [10, 0, 0, 2] @ drop 4 b) else (0, b)),
     inet_ntop = (\<lambda>v4 a. if v4 \<and> take 4 a = [10, 0, 0, 2] then Some ''10.0.0.2'' else None),
     stack = (\<lambda>h. sample_locals)\<rparr>"

lemma pairs_flat: "pairs (flat kvs) = kvs"
  by (induction kvs) (auto simp: flat_def)

lemma sample_lib_laws: "lib_laws sample_lib"
proof -
  have "split_law sample_lib" by (simp add: split_law_def sample_lib_def)
  moreover have "named_law sample_lib"
    by (auto simp: named_law_def sample_lib_def parse_options_def pairs_flat)
  moreover have "positional_law sample_lib"
    by (auto simp: positional_law_def sample_lib_def parse_options_def rules_pos_def)
  moreover have "locals_ok sample_locals"
    by (simp add: locals_ok_def sample_locals_def sample_ip_def ipd_ok_def ip_ok_def eth_ok_def)
  ultimately show ?thesis by (simp add: lib_laws_def) (simp add: sample_lib_def)
qed

lemma sample_ip_text: "ip_text sample_lib True (ipaddr (sample_ip 2)) ''10.0.0.2''"
proof -
  have "octet ''10''" "octet ''0''" "octet ''2''" by code_simp+
  then have "dotted_quad ''10.0.0.2''"
    unfolding dotted_quad_def by (intro exI [of _ "''10''"] exI [of _ "''0''"] exI [of _ "''2''"]) simp
  then show ?thesis by (simp add: ip_text_def sample_lib_def sample_ip_def)
qed

lemma sample_rule_printable: "rule_printable sample_lib dns_rule"
proof -
  have "saved_ip sample_lib (sample_ip 2) = ''10.0.0.2''" using sample_ip_text by (simp add: saved_ip_def ip_text_def sample_ip_def)
  then show ?thesis
    using sample_ip_text
    by (simp add: rule_printable_def dns_rule_def mk_rule_def has_ip_def has_eth_def ip_saved_def)
      (simp add: sample_ip_def)
qed

definition sample_host :: host where
  "sample_host = \<lparr>shm_name = Some 0, shm_object = (\<lambda>i. fresh_rules), shm_next = 1, mutex_name = None,
     mutex_locked = (\<lambda>i. False), mutex_next = 0, files = Map.empty, may_read = (\<lambda>f. True), may_write = (\<lambda>f. True), console = []\<rparr>"

section \<open>Properties\<close>

text \<open>
  C9. Saving and loading. The text that \<open>operator<<\<close> writes for a list of rules whose IP addresses have texts is
  loaded by \<open>operator>>\<close> into an engine with room for them so that the rules in front of the first one whose
  hardware address has no digit f are appended in their order, the same up to bytes that are not used. That
  first rule, if there is one, ends the load with \<open>validation_error\<close>, and the policy is not reached. If there is
  none, all rules are appended and the policy follows: a redirecting policy is restored, but the default policy,
  whose line has no targets, ends the load with \<open>validation_error\<close>.
\<close>

theorem saved_rules_load:
  assumes "lib_laws L" and "holds d rs" and "list_all (rule_printable L) rs" and "policy_printable L (policy d)"
    and "shm_name h = Some i" and "holds (shm_object h i) rs0" and "sum_list (map rule_size (rs0 @ rs)) \<le> DATA_SIZE"
  shows "\<exists>saved h' rs'. show_engine L d = Ret saved \<and>
     load_engine L (RuleParser_Parse (Suc n) L) saved h =
       (case dropWhile mac_loadable rs of
          r # _ \<Rightarrow> Throw (validation_error invalid_option_value ''macaddr'' (EthAddressToString (the (eth r))))
        | [] \<Rightarrow> if action (policy d) = Dns then Throw (validation_error at_least_one_value_required ''target4'' []) else Done (),
        h') \<and>
     holds (shm_object h' i) (rs0 @ rs') \<and> list_all2 same_rule (takeWhile mac_loadable rs) rs' \<and>
     (if list_all mac_loadable rs \<and> action (policy d) \<noteq> Dns then same_policy (policy d) (policy (shm_object h' i))
      else policy (shm_object h' i) = policy (shm_object h i))"
proof -
  obtain saved s rs' d' d'' where a: "show_engine L d = Ret saved"
    "load_engine L (RuleParser_Parse (Suc n) L) saved h = (load_end rs (policy d), h\<lparr>shm_object := (shm_object h)(i := d')\<rparr>)"
    "d' = (if list_all mac_loadable rs then snd (policy_loaded s (policy d) d'') else d'')"
    "holds d'' (rs0 @ rs')" "list_all2 same_rule (takeWhile mac_loadable rs) rs'" "policy d'' = policy (shm_object h i)"
    by (rule load_saved [OF assms])
  have d': "holds d' (rs0 @ rs')" using a(3,4) by (simp add: policy_loaded_def)
  have pol: "if list_all mac_loadable rs \<and> action (policy d) \<noteq> Dns then same_policy (policy d) (policy d')
      else policy d' = policy (shm_object h i)"
    using assms(4) a(3,6) by (auto simp: policy_printable_def ip_ok_def policy_loaded_def same_policy_def min_def)
  show ?thesis
    by (intro exI [of _ saved] exI [of _ "h\<lparr>shm_object := (shm_object h)(i := d')\<rparr>"] exI [of _ rs'])
      (use a(1,5) a(2) [unfolded load_end_def mac_error_def] d' pol in simp)
qed

theorem saved_rules_load_witness:
  "\<exists>saved h' rs'. show_engine sample_lib (memory_of [dns_rule]) = Ret saved \<and>
     load_engine sample_lib (RuleParser_Parse 1 sample_lib) saved sample_host =
       (Throw (validation_error at_least_one_value_required ''target4'' []), h') \<and>
     holds (shm_object h' 0) rs' \<and> list_all2 same_rule [dns_rule] rs'"
proof -
  have d: "holds (memory_of [dns_rule]) [dns_rule]"
    by (rule memory_of_holds) (simp_all add: sample_rules_stored sample_rules_ok)
  have p: "action (policy (memory_of [dns_rule])) = Dns" by (simp add: memory_of_def empty_rules_def)
  have m: "mac_loadable dns_rule" by (simp add: mac_loadable_def dns_rule_def mk_rule_def has_eth_def)
  have "policy_printable sample_lib (policy (memory_of [dns_rule]))" using p by (simp add: policy_printable_def)
  with d p m saved_rules_load [of sample_lib "memory_of [dns_rule]" "[dns_rule]" sample_host 0 "[]" 0] show ?thesis
    by (simp add: sample_lib_laws sample_rule_printable sample_host_def fresh_rules_holds sample_rules_ok) blast
qed

text \<open>
  A redirecting rule without a target. The command is accepted, and the rule that it appends redirects to
  whatever the uninitialised local variable \<open>target\<close> holds.
\<close>

theorem redirect_without_target:
  assumes "parse_options L add_desc [] opts = Done (p, vm)" and "vm ''action'' = Some (TextV ''redirect'')"
    and "vm ''target'' = None" and "vm ''index'' = None" and "vm ''macaddr'' = None" and "vm ''ipaddr'' = Some (TextV t)"
    and "ip_text L v4 a t" and "ip_ok a" and "locals_ok (stack L h)" and "holds (shm_object h i) rs"
    and "sum_list (map rule_size rs) + 48 \<le> DATA_SIZE"
  shows "\<exists>d' r. rules_add L False i opts h = (Done ExitWithNoError, h\<lparr>shm_object := (shm_object h)(i := d')\<rparr>) \<and>
     holds d' (rs @ [r]) \<and> actionType (rule_header r) = Redirect \<and> target r = Some (j_target (stack L h))"
proof -
  let ?s = "stack L h"
  let ?d = "(j_ipd ?s)\<lparr>ipd_ipv4 := v4, ipaddr := if v4 then take 4 a @ drop 4 (ipaddr (j_ipd ?s)) else a\<rparr>"
  let ?r = "mk_rule IpAddress Redirect (Some ?d) (Some (j_eth ?s)) (Some (j_target ?s))"
  have lo: "ipd_ok (j_ipd ?s)" "ipd_ok (j_target ?s)" "length (ipaddr (j_ipd ?s)) = 16"
    using assms(9) by (auto simp: locals_ok_def ipd_ok_def ip_ok_def)
  have req: "add_request L ?s vm = Done (SIZE_MAX, ?r)"
    using assms(2-6) parse_ip_text [OF assms(7) lo(3), of "''ipaddr''"]
    by (simp add: add_request_def has_option_def ip_option_def mac_option_def as_text_def getActionType_def Let_def)
  have args: "rule_args_ok ?r"
    using lo assms(8) by (simp add: rule_args_ok_def mk_rule_def has_ip_def has_eth_def ipd_ok_def ip_ok_def)
  have "rule_fits rs ?r"
    using assms(11) by (simp add: rule_fits_def rule_size_def mk_rule_def has_ip_def has_eth_def)
  with append_step [OF assms(10) args] obtain d' where d': "AppendRule ?r (shm_object h i) = Ret (True, d')"
    "holds d' (rs @ [stored ?r])" by auto
  have "rules_add L False i opts h = (Done ExitWithNoError, h\<lparr>shm_object := (shm_object h)(i := d')\<rparr>)"
    using assms(1) req with_rules_Ret [of "AppendRule ?r" h i, OF d'(1)] by (simp add: rules_add_def sbind_Done)
  moreover have "actionType (rule_header (stored ?r)) = Redirect" "target (stored ?r) = Some (j_target ?s)"
    by (simp_all add: stored_def mk_rule_def)
  ultimately show ?thesis using d'(2) by blast
qed

theorem redirect_without_target_witness:
  "\<exists>d' r. rules_add sample_lib False 0 (flat [(''ipaddr'', ''10.0.0.2''), (''action'', ''redirect'')]) sample_host =
       (Done ExitWithNoError, sample_host\<lparr>shm_object := (shm_object sample_host)(0 := d')\<rparr>) \<and>
     holds d' ([] @ [r]) \<and> actionType (rule_header r) = Redirect \<and> target r = Some (sample_ip 78)"
proof -
  let ?kvs = "[(''ipaddr'', ''10.0.0.2''), (''action'', ''redirect'')]"
  have p: "parse_options sample_lib add_desc [] (flat ?kvs) = Done (([], flat ?kvs), \<lambda>n. map_option TextV (map_of ?kvs n))"
    by (simp add: parse_options_def sample_lib_def pairs_flat del: map_of.simps)
  have "ip_ok (ipaddr (sample_ip 2))" "locals_ok (stack sample_lib sample_host)" "j_target (stack sample_lib sample_host) = sample_ip 78"
    "holds (shm_object sample_host 0) []"
    using sample_lib_laws by (simp_all add: lib_laws_def sample_ip_def ip_ok_def sample_host_def fresh_rules_holds sample_locals_def)
      (simp add: sample_lib_def sample_locals_def sample_ip_def)
  with redirect_without_target [OF p _ _ _ _ _ sample_ip_text, of sample_host 0 "[]"] show ?thesis by simp
qed

end
