(* ===== verification/Daemon_Process.thy ===== *)
theory Daemon_Process
  imports Rule_Files
begin

text \<open>
  \<^verbatim>\<open>app/main.cpp\<close>, \<^verbatim>\<open>src/args.cpp\<close>, \<^verbatim>\<open>src/daemon.cpp\<close> and \<^verbatim>\<open>src/unix/unixdaemon.cpp\<close>: the life of a
  process on the host, up to the event loop and after it. An exception that nothing catches ends the process
  without its destructors, and so does \<open>exit\<close>, which does not destroy the local variable \<open>daemon\<close> of \<open>main\<close>.

  The functions of the configuration that stand for library code are the record \<open>cfg\<close>. \<open>serves\<close> tells whether
  the server can be set up with the configuration and the arguments of the daemon, \<open>pid\<close> is how the system
  answers the calls that detach the process.
\<close>

section \<open>Arguments\<close>

record Args =
  configFile :: string
  daemonMode :: bool
  useRawSockets :: bool

fun CONFIG_FILE_PATH :: "platform \<Rightarrow> string" where
  "CONFIG_FILE_PATH Unix = ''/etc/dnswrapper/config.ini''"
| "CONFIG_FILE_PATH Win32 = ''__WIN_REGISTRY__''"

definition global_desc :: "opt_spec list" where
  "global_desc = [help_option, (''config-file,c'', TextT, ''set configuration file''),
     (''command'', TextT, ''command to execute''), (''subargs'', TextsT, ''Arguments for command'')]"

definition start_desc :: "opt_spec list" where
  "start_desc = [help_option, (''daemon,-d'', FlagT, ''run in daemon mode (as background service)''),
     (''unlock'', FlagT, ''Unlock service before running. Useful if prior run of service crashed.''),
     (''use-raw-sockets'', BoolT,
       ''Enables/disables use of raw sockets. If disable mac address based rules will not function.'')]"

definition PrintGlobalOptions :: "'p lib \<Rightarrow> opt_spec list \<Rightarrow> positions \<Rightarrow> unit act" where
  "PrintGlobalOptions L desc pos =
     PrintOptions L ''dns-wrapper'' desc ''command''
       [(''start'', ''Starts Service (default).''),
        (''unlock'', ''Unlock Service. Useful if service stopped unexpectedly.''),
        (''rules'', ''Add, delete, insert, clear, load and save rules.'')] (Some pos)"

definition as_bool :: "vmap \<Rightarrow> string \<Rightarrow> bool attempt" where
  "as_bool vm name = (case vm name of Some (BoolV b) \<Rightarrow> Done b | _ \<Rightarrow> Throw (library_error ''bad_any_cast''))"

definition named_mutex_remove :: "unit act" where
  "named_mutex_remove = (\<lambda>h. (Done (), h\<lparr>mutex_name := None\<rparr>))"

definition catch :: "'a act \<Rightarrow> (exn \<Rightarrow> 'a act) \<Rightarrow> 'a act" where
  "catch m handler = (\<lambda>h. case m h of (r, h) \<Rightarrow>
     (case r of Done x \<Rightarrow> (Done x, h) | Throw e \<Rightarrow> handler e h | Undefined u \<Rightarrow> (Undefined u, h)))"

definition start_command :: "platform \<Rightarrow> 'p lib \<Rightarrow> 'p \<Rightarrow> vmap \<Rightarrow> Args \<Rightarrow> (ExitCode \<times> Args) act" where
  "start_command os L parsed vm args =
     sbind (slift (erase_first (po_unrecognized L parsed))) (\<lambda>opts.
     sbind (slift (po_run L start_desc [] False opts)) (\<lambda>p.
     sbind (slift (po_store L p vm)) (\<lambda>vm.
     if has_option vm ''help'' then
       sbind (PrintSubCommandOptions L ''start'' start_desc) (\<lambda>_. sreturn (ExitWithNoError, args))
     else
       sbind (slift (if has_option vm ''use-raw-sockets'' then as_bool vm ''use-raw-sockets'' else Done (os = Unix))) (\<lambda>raw.
       sbind (if has_option vm ''unlock'' then named_mutex_remove else sreturn ()) (\<lambda>_.
       sreturn (NoExit, args\<lparr>daemonMode := has_option vm ''daemon'', useRawSockets := raw\<rparr>))))))"

definition Args_Init_for :: "platform \<Rightarrow> nat \<Rightarrow> 'p lib \<Rightarrow> string list \<Rightarrow> (ExitCode \<times> Args) act" where
  "Args_Init_for os n L argv =
     (let args = \<lparr>configFile = [], daemonMode = False, useRawSockets = False\<rparr> in
      catch
       (sbind (slift (parse_options L global_desc rules_pos argv)) (\<lambda>(parsed, vm).
        sbind (slift (if has_option vm ''config-file'' then as_text vm ''config-file'' else Done (CONFIG_FILE_PATH os))) (\<lambda>cf.
        let args = args\<lparr>configFile := cf\<rparr> in
        if has_option vm ''command'' then
          sbind (slift (as_text vm ''command'')) (\<lambda>cmd.
          if cmd = ''start'' then start_command os L parsed vm args
          else if cmd = ''unlock'' then
            if has_option vm ''help'' then
              sbind (PrintSubCommandOptions L ''unlock'' []) (\<lambda>_. sreturn (ExitWithNoError, args))
            else sbind (print (''Unlocking Process'' @ endl)) (\<lambda>_. sreturn (ExitWithUnlock, args))
          else if cmd = ''rules'' then
            sbind (RuleParser_Parse n L parsed vm) (\<lambda>code. sreturn (code, args))
          else
            sbind (PrintGlobalOptions L global_desc rules_pos) (\<lambda>_. sreturn (ExitWithError, args)))
        else if has_option vm ''help'' then
          sbind (PrintGlobalOptions L global_desc rules_pos) (\<lambda>_. sreturn (ExitWithNoError, args))
        else sreturn (NoExit, args))))
       (\<lambda>e. sbind (PrintGlobalOptions L global_desc rules_pos) (\<lambda>_. sreturn (ExitWithError, args))))"

abbreviation Args_Init :: "nat \<Rightarrow> 'p lib \<Rightarrow> string list \<Rightarrow> (ExitCode \<times> Args) act" where
  "Args_Init \<equiv> Args_Init_for Unix"

section \<open>The daemon\<close>

record cfg =
  cfg_from_string :: "string \<Rightarrow> LogLevel option"
  cfg_to_string :: "LogLevel \<Rightarrow> string option"
  cfg_to_long :: "string \<Rightarrow> int option"
  cfg_to_bool :: "string \<Rightarrow> bool option"
  cfg_read_ini :: "string \<Rightarrow> ptree option"
  cfg_new :: ConfigReader

record Daemon =
  lockOwned :: bool
  executionLock :: nat
  configReader :: ConfigReader
  ruleEngine :: nat
  pidFileCreated :: bool
  d_args :: Args

text \<open>Construction: the mutex is opened or created, then the rule engine of the main process.\<close>

definition open_or_create :: "nat act" where
  "open_or_create = (\<lambda>h. case mutex_name h of Some m \<Rightarrow> (Done m, h)
     | None \<Rightarrow> (let m = mutex_next h
         in (Done m, h\<lparr>mutex_name := Some m, mutex_locked := (mutex_locked h)(m := False), mutex_next := m + 1\<rparr>)))"

definition Daemon_new :: "cfg \<Rightarrow> Args \<Rightarrow> Daemon act" where
  "Daemon_new C args =
     sbind open_or_create (\<lambda>m.
     sbind (ShmRuleEngine_new True) (\<lambda>e.
     sreturn \<lparr>lockOwned = False, executionLock = m, configReader = cfg_new C, ruleEngine = e, pidFileCreated = False,
       d_args = args\<rparr>))"

text \<open>Removing the file always succeeds here; in the code \<open>std::filesystem::remove\<close> may fail or throw.\<close>

definition removePid :: "Daemon \<Rightarrow> host \<Rightarrow> host" where
  "removePid d h = (if \<not> pidFileCreated d then h else h\<lparr>files := (files h)(pidFile (configReader d) := None)\<rparr>)"

definition Daemon_delete :: "Daemon \<Rightarrow> host \<Rightarrow> host" where
  "Daemon_delete d h =
     (let h = removePid d h;
          h = (if lockOwned d then h\<lparr>mutex_name := None\<rparr> else h)
      in ShmRuleEngine_delete True h)"

definition IsAlreadyRunning :: "Daemon \<Rightarrow> (bool \<times> Daemon) act" where
  "IsAlreadyRunning d = (\<lambda>h.
     let owned = (\<not> mutex_locked h (executionLock d))
     in (Done (\<not> owned, d\<lparr>lockOwned := owned\<rparr>),
         if owned then h\<lparr>mutex_locked := (mutex_locked h)(executionLock d := True)\<rparr> else h))"

text \<open>\<open>std::fstream::open\<close> with its default mode asks for reading and writing.\<close>

definition loadRules :: "nat \<Rightarrow> 'p lib \<Rightarrow> string \<Rightarrow> unit act" where
  "loadRules n L fileName = (\<lambda>h.
     case if may_read h fileName \<and> may_write h fileName then files h fileName else None of
       None \<Rightarrow> (Done (), h)
     | Some t \<Rightarrow> load_engine L (RuleParser_Parse n L) t h)"

definition Initialize :: "nat \<Rightarrow> 'p lib \<Rightarrow> cfg \<Rightarrow> Daemon \<Rightarrow> Daemon act" where
  "Initialize n L C d =
     sbind (slift (IniConfigReader_LoadConfiguration Unix (cfg_from_string C) (cfg_to_string C) (cfg_to_long C) (cfg_to_bool C)
       (cfg_read_ini C) (configFile (d_args d)) (configReader d))) (\<lambda>c.
     sbind (loadRules n L (ruleFile c)) (\<lambda>_.
     sreturn (d\<lparr>configReader := c\<rparr>)))"

definition savePid :: "nat \<Rightarrow> Daemon \<Rightarrow> Daemon act" where
  "savePid pid d = (\<lambda>h.
     let f = pidFile (configReader d)
     in if \<not> may_write h f then (Done d, h)
        else (Done (d\<lparr>pidFileCreated := True\<rparr>), h\<lparr>files := (files h)(f \<mapsto> decimal pid)\<rparr>))"

text \<open>The result of \<open>main\<close>: a daemon in its event loop, or the exit code.\<close>

abbreviation (input) EC_GOOD :: nat where "EC_GOOD \<equiv> 0"
abbreviation (input) EC_MISC :: nat where "EC_MISC \<equiv> 5"
abbreviation (input) EC_BADCOMMANDLINE :: nat where "EC_BADCOMMANDLINE \<equiv> 7"
abbreviation (input) EC_FORK :: nat where "EC_FORK \<equiv> 8"

datatype proc = Serving Daemon | Exited nat

text \<open>
  How the system answers the calls that detach the process: a fork fails, the directory cannot be changed, the null device
  cannot be opened, or all of them succeed; the last two with the process identifier after the forks. The parents end with
  \<open>_exit\<close>; the descriptors that \<open>closeFds\<close> leaves are the subject of \<open>Platform_Util\<close>.
\<close>

datatype detaching = ForkFails | ChdirFails | NullDeviceFails nat | Detaches nat

definition forkAndSetupDaemon :: "detaching \<Rightarrow> Daemon \<Rightarrow> proc act" where
  "forkAndSetupDaemon pid d =
     (if \<not> daemonMode (d_args d) then sreturn (Serving d)
      else (case pid of
          ForkFails \<Rightarrow> sreturn (Exited EC_FORK)
        | ChdirFails \<Rightarrow> sreturn (Exited EC_MISC)
        | NullDeviceFails p \<Rightarrow> sbind (savePid p d) (\<lambda>d. sreturn (Exited EC_MISC))
        | Detaches p \<Rightarrow> sbind (savePid p d) (\<lambda>d. sreturn (Serving d))))"

definition Daemon_Start :: "(Daemon \<Rightarrow> bool) \<Rightarrow> detaching \<Rightarrow> Daemon \<Rightarrow> proc act" where
  "Daemon_Start serves pid d =
     (if serves d then forkAndSetupDaemon pid d
      else (\<lambda>h. (Done (Exited EC_MISC), Daemon_delete d h)))"

definition Daemon_Run :: "nat \<Rightarrow> 'p lib \<Rightarrow> cfg \<Rightarrow> (Daemon \<Rightarrow> bool) \<Rightarrow> detaching \<Rightarrow> Daemon \<Rightarrow> proc act" where
  "Daemon_Run n L C serves pid d = sbind (Initialize n L C d) (Daemon_Start serves pid)"

definition main ::
  "nat \<Rightarrow> 'p lib \<Rightarrow> cfg \<Rightarrow> (Daemon \<Rightarrow> bool) \<Rightarrow> detaching \<Rightarrow> string list \<Rightarrow> proc act" where
  "main n L C serves pid argv =
     sbind (Args_Init n L argv) (\<lambda>(code, args).
     if code = ExitWithUnlock then sbind named_mutex_remove (\<lambda>_. sreturn (Exited EC_GOOD))
     else if code = ExitWithNoError then sreturn (Exited EC_GOOD)
     else if code = ExitWithError then sreturn (Exited EC_BADCOMMANDLINE)
     else
       sbind (Daemon_new C args) (\<lambda>d.
       sbind (IsAlreadyRunning d) (\<lambda>(running, d).
       if running then sreturn (Exited 1) else Daemon_Run n L C serves pid d)))"

text \<open>
  The handler of a signal: with an error it exits, on \<open>SIGINT\<close> and \<open>SIGTERM\<close> it stops the loop, so that
  \<open>Start\<close> returns and the destructors run, and other signals are ignored.
\<close>

datatype signal = SIGINT | SIGTERM | OtherSignal int

definition signalHandler :: "bool \<Rightarrow> signal \<Rightarrow> Daemon \<Rightarrow> proc act" where
  "signalHandler ec signalNo d =
     (if ec then sreturn (Exited 6)
      else if signalNo = SIGTERM \<or> signalNo = SIGINT then (\<lambda>h. (Done (Exited EC_GOOD), Daemon_delete d h))
      else sreturn (Serving d))"

section \<open>What the rule commands leave alone\<close>

text \<open>
  An action that works only on the shared memory object that the name refers to: it keeps every other object, the
  names and the mutexes.
\<close>

definition frame :: "nat \<Rightarrow> 'a act \<Rightarrow> bool" where
  "frame k m \<longleftrightarrow> (\<forall>h. shm_name h \<noteq> Some k \<longrightarrow>
     shm_object (snd (m h)) k = shm_object h k \<and> shm_name (snd (m h)) = shm_name h \<and> shm_next (snd (m h)) = shm_next h \<and>
     mutex_name (snd (m h)) = mutex_name h \<and> mutex_locked (snd (m h)) = mutex_locked h \<and> mutex_next (snd (m h)) = mutex_next h)"

named_theorems frame_rules \<open>actions that keep other objects\<close>

lemma frame_basic [frame_rules]:
  "frame k (sreturn x)" "frame k (slift r)" "frame k (Pair r)" "frame k (print s)" "e \<noteq> k \<Longrightarrow> frame k (with_rules e f)"
  by (auto simp: frame_def print_def with_rules_def split: outcome.split prod.split)

lemma frame_sbind [frame_rules]: "frame k m \<Longrightarrow> (\<And>x. frame k (f x)) \<Longrightarrow> frame k (sbind m f)"
  unfolding frame_def sbind_def by (auto split: attempt.split prod.split)

lemma frame_engine [frame_rules]: "(\<And>e. e \<noteq> k \<Longrightarrow> frame k (f e)) \<Longrightarrow> frame k (sbind (ShmRuleEngine_new False) f)"
  unfolding frame_def sbind_def ShmRuleEngine_new_def by (auto split: option.split)

lemma frame_prod [frame_rules]: "(\<And>a b. frame k (f a b)) \<Longrightarrow> frame k (case x of (a, b) \<Rightarrow> f a b)"
  by (cases x) simp

lemma frame_if [frame_rules]: "frame k m \<Longrightarrow> frame k m' \<Longrightarrow> frame k (if b then m else m')"
  by simp

lemma frame_env: "(\<And>s. frame k (g s)) \<Longrightarrow> frame k (\<lambda>h. g h h)"
  by (simp add: frame_def)

lemma frame_print_options [frame_rules]:
  "frame k (PrintSubCommandOptions L c desc)" "frame k (printSubCommandOptions L desc pos)" "frame k (PrintGlobalOptions L desc pos)"
  by (simp_all add: PrintSubCommandOptions_def printSubCommandOptions_def PrintGlobalOptions_def PrintOptions_def frame_rules)

lemma frame_rules_add: "e \<noteq> k \<Longrightarrow> frame k (rules_add L help e opts)"
  unfolding rules_add_def
  by (intro frame_rules frame_env [where g = "\<lambda>s h. sbind (slift (add_request L (stack L s) _)) _ h"])

lemma frame_rules_policy: "e \<noteq> k \<Longrightarrow> frame k (rules_policy L help e opts)"
  unfolding rules_policy_def
  by (intro frame_rules frame_env [where g = "\<lambda>s h. sbind (slift (policy_request L (stack L s) _)) _ h"])

lemma frame_rules_delete: "e \<noteq> k \<Longrightarrow> frame k (rules_delete L help e opts)"
  unfolding rules_delete_def by (intro frame_rules)

lemma frame_rules_list: "frame k (rules_list L e)"
  by (auto simp: frame_def rules_list_def split: outcome.split)

lemma frame_load_lines: "(\<And>p vm. frame k (parse p vm)) \<Longrightarrow> frame k (load_lines L parse ls)"
  by (induction ls) (auto intro!: frame_rules)

lemma frame_rules_file:
  assumes "\<And>p vm. frame k (parse p vm)"
  shows "frame k (rules_file L parse help e cmd opts)"
proof -
  have load: "frame k (sbind (load_engine L parse t) (\<lambda>_. sreturn ExitWithNoError))" for t
    unfolding load_engine_def using assms by (intro frame_rules frame_load_lines)
  have "frame k (\<lambda>h. if cmd = ''save'' then
      if \<not> may_write h f then (Done ExitWithError, h)
      else (case show_engine L (shm_object h e) of
          Ret t \<Rightarrow> (Done ExitWithNoError, h\<lparr>files := (files h)(f \<mapsto> t)\<rparr>)
        | Fail c \<Rightarrow> (Throw (library_error []), h) | Undef u \<Rightarrow> (Undefined u, h))
    else (case if may_read h f then files h f else None of None \<Rightarrow> (Done ExitWithError, h)
        | Some t \<Rightarrow> sbind (load_engine L parse t) (\<lambda>_. sreturn ExitWithNoError) h))" for f
    using load unfolding frame_def by (auto split: outcome.split option.split)
  then show ?thesis unfolding rules_file_def by (intro frame_rules)
qed

lemma frame_dispatch:
  "(\<And>p vm. frame k (parse p vm)) \<Longrightarrow> e \<noteq> k \<Longrightarrow> frame k (rules_dispatch L parse help e cmd opts)"
  unfolding rules_dispatch_def
  by (intro frame_rules frame_rules_add frame_rules_delete frame_rules_policy frame_rules_list frame_rules_file)

lemma frame_Parse: "frame k (RuleParser_Parse n L parsed vm)"
proof (induction n arbitrary: parsed vm)
  case (Suc n)
  show ?case unfolding RuleParser_Parse.simps by (intro frame_rules frame_dispatch Suc.IH)
qed (simp add: RuleParser_Parse.simps frame_rules)

section \<open>Exit codes of the rule commands\<close>

definition plain_exit :: "ExitCode act \<Rightarrow> bool" where
  "plain_exit m \<longleftrightarrow> (\<forall>h c h'. m h = (Done c, h') \<longrightarrow> c \<in> {ExitWithNoError, ExitWithError})"

named_theorems exit_rules \<open>actions that end with one of the two exit codes of a rule command\<close>

lemma plain_exit_basic [exit_rules]:
  "plain_exit (sreturn ExitWithNoError)" "plain_exit (sreturn ExitWithError)" "plain_exit (slift (Throw e))"
  "plain_exit (slift (Undefined u))" "plain_exit (rules_list L e')"
  by (auto simp: plain_exit_def rules_list_def split: outcome.splits)

lemma plain_exit_sbind [exit_rules]: "(\<And>x. plain_exit (f x)) \<Longrightarrow> plain_exit (sbind m f)"
  unfolding plain_exit_def sbind_def by (auto split: attempt.splits prod.splits)

lemma plain_exit_prod [exit_rules]: "(\<And>a b. plain_exit (f a b)) \<Longrightarrow> plain_exit (case x of (a, b) \<Rightarrow> f a b)"
  by (cases x) simp

lemma plain_exit_if [exit_rules]: "plain_exit m \<Longrightarrow> plain_exit m' \<Longrightarrow> plain_exit (if b then m else m')"
  by simp

lemma plain_exit_result: "plain_exit (sreturn (if b then ExitWithError else ExitWithNoError))"
  by (simp add: plain_exit_basic)

lemma plain_exit_env: "(\<And>s. plain_exit (g s)) \<Longrightarrow> plain_exit (\<lambda>h. g h h)"
  by (simp add: plain_exit_def)

lemma plain_exit_rules_add: "plain_exit (rules_add L help e opts)"
  unfolding rules_add_def
  by (intro exit_rules plain_exit_result plain_exit_env [where g = "\<lambda>s h. sbind (slift (add_request L (stack L s) _)) _ h"])

lemma plain_exit_rules_policy: "plain_exit (rules_policy L help e opts)"
  unfolding rules_policy_def
  by (intro exit_rules plain_exit_result plain_exit_env [where g = "\<lambda>s h. sbind (slift (policy_request L (stack L s) _)) _ h"])

lemma plain_exit_rules_delete: "plain_exit (rules_delete L help e opts)"
  unfolding rules_delete_def by (intro exit_rules plain_exit_result)

lemma plain_exit_rules_file: "plain_exit (rules_file L parse help e cmd opts)"
proof -
  have load: "plain_exit (sbind (load_engine L parse t) (\<lambda>_. sreturn ExitWithNoError))" for t
    by (intro exit_rules)
  have "plain_exit (\<lambda>h. if cmd = ''save'' then
      if \<not> may_write h f then (Done ExitWithError, h)
      else (case show_engine L (shm_object h e) of
          Ret t \<Rightarrow> (Done ExitWithNoError, h\<lparr>files := (files h)(f \<mapsto> t)\<rparr>)
        | Fail c \<Rightarrow> (Throw (library_error []), h) | Undef u \<Rightarrow> (Undefined u, h))
    else (case if may_read h f then files h f else None of None \<Rightarrow> (Done ExitWithError, h)
        | Some t \<Rightarrow> sbind (load_engine L parse t) (\<lambda>_. sreturn ExitWithNoError) h))" for f
    using load unfolding plain_exit_def by (auto split: outcome.splits option.splits if_splits)
  then show ?thesis unfolding rules_file_def by (intro exit_rules)
qed

lemma plain_exit_Parse: "plain_exit (RuleParser_Parse n L parsed vm)"
proof (cases n)
  case (Suc k)
  show ?thesis unfolding Suc RuleParser_Parse.simps rules_dispatch_def
    by (intro exit_rules plain_exit_rules_add plain_exit_rules_delete plain_exit_rules_policy plain_exit_rules_file)
qed (simp add: RuleParser_Parse.simps exit_rules)

section \<open>Starting\<close>

text \<open>The command lines that remove the mutex.\<close>

definition start_unlocks :: "'p lib \<Rightarrow> 'p \<Rightarrow> vmap \<Rightarrow> bool" where
  "start_unlocks L parsed vm \<longleftrightarrow> (\<exists>opts p vm'. erase_first (po_unrecognized L parsed) = Done opts \<and>
     po_run L start_desc [] False opts = Done p \<and> po_store L p vm = Done vm' \<and> has_option vm' ''unlock'')"

definition unlocks :: "'p lib \<Rightarrow> string list \<Rightarrow> bool" where
  "unlocks L argv \<longleftrightarrow> (\<exists>p vm. parse_options L global_desc rules_pos argv = Done (p, vm) \<and>
     (vm ''command'' = Some (TextV ''unlock'') \<or> start_unlocks L p vm))"

lemma start_command_keeps:
  assumes "\<not> start_unlocks L parsed vm"
  shows "frame k (start_command os L parsed vm args)"
    and "start_command os L parsed vm args h = (Done (NoExit, args'), h') \<Longrightarrow> h' = h"
    and "start_command os L parsed vm args h \<noteq> (Done (ExitWithUnlock, args'), h'')"
proof -
  show "frame k (start_command os L parsed vm args)"
  proof (cases "erase_first (po_unrecognized L parsed)")
    case (Done opts)
    show ?thesis
    proof (cases "po_run L start_desc [] False opts")
      case p: (Done p)
      show ?thesis
      proof (cases "po_store L p vm")
        case vm': (Done vm')
        with assms Done p have "\<not> has_option vm' ''unlock''" by (auto simp: start_unlocks_def)
        with Done p vm' show ?thesis by (simp add: start_command_def) (intro conjI impI frame_rules)
      qed (use Done p in \<open>simp_all add: start_command_def frame_rules\<close>)
    qed (use Done in \<open>simp_all add: start_command_def frame_rules\<close>)
  qed (simp_all add: start_command_def frame_rules)
  show "start_command os L parsed vm args h = (Done (NoExit, args'), h') \<Longrightarrow> h' = h"
    using assms
    by (auto simp: start_command_def start_unlocks_def sbind_def slift_def sreturn_def PrintSubCommandOptions_def PrintOptions_def
        print_def split: attempt.splits if_splits)
  show "start_command os L parsed vm args h \<noteq> (Done (ExitWithUnlock, args'), h'')"
    by (auto simp: start_command_def sbind_def slift_def sreturn_def split: attempt.splits if_splits prod.splits)
qed

lemma frame_catch [frame_rules]: "frame k m \<Longrightarrow> (\<And>e. frame k (f e)) \<Longrightarrow> frame k (catch m f)"
  unfolding frame_def catch_def by (auto split: attempt.split prod.split)

lemma Args_Init_frame:
  assumes "\<not> unlocks L argv"
  shows "frame k (Args_Init_for os n L argv)"
proof (cases "parse_options L global_desc rules_pos argv")
  case (Done pv)
  obtain parsed vm where pv: "pv = (parsed, vm)" by fastforce
  with assms Done have "\<not> start_unlocks L parsed vm" by (auto simp: unlocks_def)
  note start = start_command_keeps(1) [OF this]
  show ?thesis
    unfolding Args_Init_for_def Done pv Let_def sbind_slift(1) prod.case by (intro frame_rules start frame_Parse)
qed (simp_all add: Args_Init_for_def frame_rules Let_def)

lemma catch_Done: "catch m f h = (Done x, h') \<longleftrightarrow> m h = (Done x, h') \<or> (\<exists>e h''. m h = (Throw e, h'') \<and> f e h'' = (Done x, h'))"
  by (auto simp: catch_def split: prod.splits attempt.splits)

lemma sbind_Done_iff: "sbind m f h = (Done y, h') \<longleftrightarrow> (\<exists>x h''. m h = (Done x, h'') \<and> f x h'' = (Done y, h'))"
  by (auto simp: sbind_def split: prod.splits attempt.splits)

lemma Args_Init_NoExit:
  assumes "\<not> unlocks L argv" and "Args_Init_for os n L argv h = (Done (code, args), h')"
  shows "code \<noteq> ExitWithUnlock" and "code = NoExit \<Longrightarrow> h' = h"
proof -
  have "code \<noteq> ExitWithUnlock \<and> (code = NoExit \<longrightarrow> h' = h)"
  proof (cases "parse_options L global_desc rules_pos argv")
    case (Done pv)
    obtain parsed vm where pv: "pv = (parsed, vm)" by fastforce
    with assms(1) Done have no: "\<not> start_unlocks L parsed vm" "vm ''command'' \<noteq> Some (TextV ''unlock'')"
      by (auto simp: unlocks_def)
    have parse: "RuleParser_Parse n L parsed vm h = (Done c, h2) \<Longrightarrow> c = ExitWithNoError \<or> c = ExitWithError" for c h h2
      using plain_exit_Parse [of n L parsed vm] unfolding plain_exit_def by blast
    have cmd: "as_text vm ''command'' = Done c \<Longrightarrow> c \<noteq> ''unlock''" for c
      using no(2) by (auto simp: as_text_def split: option.splits opt_value.splits)
    have start: "start_command os L parsed vm a h = (Done (c, a'), h2) \<Longrightarrow> c \<noteq> ExitWithUnlock \<and> (c = NoExit \<longrightarrow> h2 = h)" for a c a' h h2
      using start_command_keeps(2,3) [OF no(1)] by blast
    show ?thesis
      using assms(2) unfolding Args_Init_for_def Let_def catch_Done sbind_Done_iff Done pv
      by (auto simp: sbind_Done_iff dest!: parse cmd start split: if_splits)
  qed (use assms(2) in \<open>auto simp: Args_Init_for_def Let_def catch_Done sbind_Done_iff\<close>)
  then show "code \<noteq> ExitWithUnlock" "code = NoExit \<Longrightarrow> h' = h" by auto
qed

lemma frame_mutex:
  assumes "\<And>k. frame k m" and "m h = (r, h')"
  shows "mutex_name h' = mutex_name h" and "mutex_locked h' = mutex_locked h"
proof -
  obtain k where "shm_name h \<noteq> Some k" by (metis n_not_Suc_n option.inject)
  with assms(1) [of k] assms(2) show "mutex_name h' = mutex_name h" "mutex_locked h' = mutex_locked h"
    unfolding frame_def by (metis snd_conv)+
qed

lemma frame_Initialize: "frame k (Initialize n L C d)"
proof -
  have "frame k (load_engine L (RuleParser_Parse n L) t)" for t
    unfolding load_engine_def by (intro frame_load_lines frame_Parse)
  then have "frame k (loadRules n L f)" for f
    unfolding frame_def loadRules_def by (auto split: option.split)
  then show ?thesis unfolding Initialize_def by (intro frame_rules)
qed

lemma frame_forkAndSetupDaemon: "frame k (forkAndSetupDaemon pid d)"
proof -
  have "frame k (savePid p d)" for p by (simp add: frame_def savePid_def Let_def)
  then show ?thesis unfolding forkAndSetupDaemon_def by (cases pid) (auto intro!: frame_rules)
qed

lemma Initialize_lock:
  "Initialize n L C d h = (Done d', h') \<Longrightarrow>
     lockOwned d' = lockOwned d \<and> executionLock d' = executionLock d \<and> ruleEngine d' = ruleEngine d"
  by (auto simp: Initialize_def sbind_Done_iff)

lemma forkAndSetupDaemon_lock:
  "forkAndSetupDaemon pid d h = (Done (Serving d'), h') \<Longrightarrow>
     lockOwned d' = lockOwned d \<and> executionLock d' = executionLock d \<and> ruleEngine d' = ruleEngine d"
  by (auto simp: forkAndSetupDaemon_def sbind_Done_iff savePid_def Let_def split: if_splits detaching.splits)

text \<open>What happens after the arguments, when the mutex is locked: the constructor runs, then the process exits.\<close>

definition replaced :: "host \<Rightarrow> host" where
  "replaced h = snd (ShmRuleEngine_new True h)"

lemma main_running:
  assumes "Args_Init n L argv h = (Done (NoExit, args), h1)" and "mutex_name h1 = Some m" and "mutex_locked h1 m"
  shows "main n L C serves pid argv h = (Done (Exited 1), replaced h1)"
  using assms
  by (simp add: main_def sbind_def sreturn_def Daemon_new_def open_or_create_def ShmRuleEngine_new_def IsAlreadyRunning_def
      replaced_def Let_def)

lemma main_locked:
  assumes "\<not> unlocks L argv" and "mutex_name h = Some m" and "mutex_locked h m"
    and "main n L C serves pid argv h = (r, h')"
  shows "r \<noteq> Done (Serving d)" and "mutex_name h' = Some m" and "mutex_locked h' m"
proof -
  obtain r1 h1 where a: "Args_Init n L argv h = (r1, h1)" by fastforce
  have m: "mutex_name h1 = Some m" "mutex_locked h1 m"
    using frame_mutex [OF Args_Init_frame [OF assms(1)] a] assms(2,3) by simp_all
  have "r \<noteq> Done (Serving d) \<and> mutex_name h' = Some m \<and> mutex_locked h' m"
  proof (cases r1)
    case (Done ca)
    obtain code args where ca: "ca = (code, args)" by fastforce
    have code: "code \<noteq> ExitWithUnlock" using Args_Init_NoExit(1) [OF assms(1) a [unfolded Done ca]] .
    show ?thesis
    proof (cases "code = NoExit")
      case True
      with a Done ca m main_running [of n L argv h args h1 m] assms(4) show ?thesis
        by (auto simp: replaced_def ShmRuleEngine_new_def Let_def)
    next
      case False
      with a Done ca code m assms(4) show ?thesis
        by (cases code) (auto simp: main_def sbind_def sreturn_def)
    qed
  qed (use a m assms(4) in \<open>auto simp: main_def sbind_def\<close>)
  then show "r \<noteq> Done (Serving d)" "mutex_name h' = Some m" "mutex_locked h' m" by auto
qed

lemma main_serving:
  assumes "main n L C serves pid argv h = (Done (Serving d), h')"
  shows "lockOwned d" and "mutex_name h' = Some (executionLock d)" and "mutex_locked h' (executionLock d)"
proof -
  from assms obtain args h1 d1 h2 d2 h3 where
    new: "Daemon_new C args h1 = (Done d1, h2)" and run: "IsAlreadyRunning d1 h2 = (Done (False, d2), h3)"
    and go: "Daemon_Run n L C serves pid d2 h3 = (Done (Serving d), h')"
    by (auto simp: main_def sbind_Done_iff split: if_splits)
  from new have d1: "mutex_name h2 = Some (executionLock d1)"
    by (auto simp: Daemon_new_def sbind_Done_iff open_or_create_def ShmRuleEngine_new_def Let_def split: option.splits)
  with run have d2: "lockOwned d2" "executionLock d2 = executionLock d1" "mutex_name h3 = Some (executionLock d2)"
    "mutex_locked h3 (executionLock d2)"
    by (auto simp: IsAlreadyRunning_def Let_def split: if_splits)
  from go obtain d3 h4 where init: "Initialize n L C d2 h3 = (Done d3, h4)"
    and start: "Daemon_Start serves pid d3 h4 = (Done (Serving d), h')"
    by (auto simp: Daemon_Run_def sbind_Done_iff)
  from start have fork: "forkAndSetupDaemon pid d3 h4 = (Done (Serving d), h')"
    by (auto simp: Daemon_Start_def split: if_splits)
  note f = frame_mutex [OF frame_Initialize init] frame_mutex [OF frame_forkAndSetupDaemon fork]
  show "lockOwned d" "mutex_name h' = Some (executionLock d)" "mutex_locked h' (executionLock d)"
    using d2 f Initialize_lock [OF init] forkAndSetupDaemon_lock [OF fork] by simp_all
qed

section \<open>The processes of the machine\<close>

text \<open>
  The states that the machine reaches when processes are started with any command lines but those that remove the
  mutex, end by a signal, or are killed: the host with the daemons that are in their event loop.
\<close>

inductive machine :: "nat \<Rightarrow> 'p lib \<Rightarrow> cfg \<Rightarrow> (Daemon \<Rightarrow> bool) \<Rightarrow> host \<Rightarrow> host \<Rightarrow> Daemon list \<Rightarrow> bool"
  for n L C serves h0 where
  boot: "machine n L C serves h0 h0 []"
| launch: "machine n L C serves h0 h ds \<Longrightarrow> \<not> unlocks L argv \<Longrightarrow>
    main n L C serves pid argv h = (Done (Serving d), h') \<Longrightarrow> machine n L C serves h0 h' (d # ds)"
| command: "machine n L C serves h0 h ds \<Longrightarrow> \<not> unlocks L argv \<Longrightarrow>
    main n L C serves pid argv h = (Done (Exited c), h') \<Longrightarrow> machine n L C serves h0 h' ds"
| abort: "machine n L C serves h0 h ds \<Longrightarrow> \<not> unlocks L argv \<Longrightarrow>
    main n L C serves pid argv h = (Throw e, h') \<Longrightarrow> machine n L C serves h0 h' ds"
| signalled: "machine n L C serves h0 h ds \<Longrightarrow> d \<in> set ds \<Longrightarrow>
    signalHandler ec sig d h = (Done (Exited c), h') \<Longrightarrow> machine n L C serves h0 h' (remove1 d ds)"
| killed: "machine n L C serves h0 h ds \<Longrightarrow> d \<in> set ds \<Longrightarrow> machine n L C serves h0 h (remove1 d ds)"

definition locked_by :: "host \<Rightarrow> Daemon list \<Rightarrow> bool" where
  "locked_by h ds \<longleftrightarrow> (case ds of [] \<Rightarrow> True
     | [d] \<Rightarrow> lockOwned d \<and> mutex_name h = Some (executionLock d) \<and> mutex_locked h (executionLock d)
     | _ \<Rightarrow> False)"

lemma locked_by_cases:
  assumes "locked_by h ds"
  obtains "ds = []" | d where "ds = [d]" "lockOwned d" "mutex_name h = Some (executionLock d)" "mutex_locked h (executionLock d)"
  using assms by (auto simp: locked_by_def split: list.splits)

lemma machine_locked: "machine n L C serves h0 h ds \<Longrightarrow> locked_by h ds"
proof (induction rule: machine.induct)
  case (launch h ds argv pid d h')
  from launch.IH show ?case
  proof (cases rule: locked_by_cases)
    case 1
    with main_serving [OF launch.hyps(3)] show ?thesis by (simp add: locked_by_def)
  next
    case (2 d0)
    from main_locked(1) [OF launch.hyps(2) 2(3,4) launch.hyps(3), of d] show ?thesis by simp
  qed
next
  case (command h ds argv pid c h')
  from command.IH show ?case
  proof (cases rule: locked_by_cases)
    case (2 d0)
    from main_locked(2,3) [OF command.hyps(2) 2(3,4) command.hyps(3)] 2 show ?thesis by (simp add: locked_by_def)
  qed (simp add: locked_by_def)
next
  case (abort h ds argv pid e h')
  from abort.IH show ?case
  proof (cases rule: locked_by_cases)
    case (2 d0)
    from main_locked(2,3) [OF abort.hyps(2) 2(3,4) abort.hyps(3)] 2 show ?thesis by (simp add: locked_by_def)
  qed (simp add: locked_by_def)
qed (auto simp: locked_by_def split: list.splits if_splits)

text \<open>A mutex that no daemon holds any more stays locked, and every start ends at it.\<close>

lemma machine_stays_locked:
  assumes "machine n L C serves h0 h ds" and "mutex_name h0 = Some m" and "mutex_locked h0 m"
  shows "ds = [] \<and> mutex_name h = Some m \<and> mutex_locked h m"
  using assms
proof (induction rule: machine.induct)
  case (launch h ds argv pid d h')
  with main_locked(1) [OF launch.hyps(2) _ _ launch.hyps(3), of m d] show ?case by blast
next
  case (command h ds argv pid c h')
  with main_locked(2,3) [OF command.hyps(2) _ _ command.hyps(3), of m] show ?case by blast
next
  case (abort h ds argv pid e h')
  with main_locked(2,3) [OF abort.hyps(2) _ _ abort.hyps(3), of m] show ?case by blast
qed auto

section \<open>Properties\<close>

text \<open>
  C10. One daemon at a time. As long as nobody removes the named mutex with the unlock command or option, at most
  one process is in its event loop, whatever processes are started, stopped, killed or end with an exception, and
  it owns the lock.
\<close>

theorem at_most_one_daemon:
  assumes "machine n L C serves h0 h ds"
  shows "length ds \<le> 1 \<and> list_all (\<lambda>d. lockOwned d \<and> mutex_name h = Some (executionLock d) \<and> mutex_locked h (executionLock d)) ds"
  using machine_locked [OF assms] by (auto simp: locked_by_def split: list.splits)

text \<open>
  C16. A second start cuts the running daemon off from the rule commands. While a daemon runs, another start exits
  with code 1; but its constructor has already put a new shared memory object under the name. From then on no rule
  command changes the rules that the running daemon uses.
\<close>

theorem second_start_detaches_rules:
  assumes "machine n L C serves h0 h [d]" and "shm_name h = Some (ruleEngine d)" and "ruleEngine d < shm_next h"
    and "\<not> unlocks L argv" and "Args_Init n L argv h = (Done (NoExit, args), h1)"
  shows "\<exists>h'. main n L C serves pid argv h = (Done (Exited 1), h') \<and> shm_name h' \<noteq> Some (ruleEngine d) \<and>
     (\<forall>n' parsed vm. shm_object (snd (RuleParser_Parse n' L parsed vm h')) (ruleEngine d) = shm_object h (ruleEngine d))"
proof -
  from machine_locked [OF assms(1)] have m: "mutex_name h = Some (executionLock d)" "mutex_locked h (executionLock d)"
    by (simp_all add: locked_by_def)
  have h1: "h1 = h" using Args_Init_NoExit(2) [OF assms(4,5)] by simp
  have name: "shm_name (replaced h) \<noteq> Some (ruleEngine d)" and obj: "shm_object (replaced h) (ruleEngine d) = shm_object h (ruleEngine d)"
    using assms(3) by (simp_all add: replaced_def ShmRuleEngine_new_def Let_def)
  have "shm_object (snd (RuleParser_Parse n' L parsed vm (replaced h))) (ruleEngine d) = shm_object h (ruleEngine d)" for n' parsed vm
    using frame_Parse [of "ruleEngine d" n' L parsed vm] name obj unfolding frame_def by simp
  with name main_running [OF assms(5)] m h1 show ?thesis by blast
qed

text \<open>
  C17. The saved default policy stops the service. If the rules file is what the save command wrote for rules
  whose IP addresses have texts and the default policy, starting the service ends with an exception: that of the
  first rule whose hardware address does not load, or else that of the policy's missing target. The lock that the
  process leaves stays: as long as nobody removes the mutex with the unlock command or option, whatever processes
  are started, no daemon runs, and every start that gets past its arguments exits with code 1.
\<close>

theorem saved_default_policy_blocks_start:
  assumes "lib_laws L" and "holds d rs" and "list_all (rule_printable L) rs" and "action (policy d) = Dns"
    and "show_engine L d = Ret saved" and "sum_list (map rule_size rs) \<le> DATA_SIZE"
    and "Args_Init (Suc n) L argv h = (Done (NoExit, args), h)"
    and "IniConfigReader_LoadConfiguration Unix (cfg_from_string C) (cfg_to_string C) (cfg_to_long C) (cfg_to_bool C)
       (cfg_read_ini C) (configFile args) (cfg_new C) = Done c"
    and "files h (ruleFile c) = Some saved" and "may_read h (ruleFile c)" and "may_write h (ruleFile c)"
    and "mutex_name h = None"
  shows "\<exists>h'. main (Suc n) L C serves pid argv h =
       (Throw (case dropWhile mac_loadable rs of
            r # _ \<Rightarrow> validation_error invalid_option_value ''macaddr'' (EthAddressToString (the (eth r)))
          | [] \<Rightarrow> validation_error at_least_one_value_required ''target4'' []), h') \<and>
     (\<forall>n' C' serves' h'' ds. machine n' L C' serves' h' h'' ds \<longrightarrow> ds = [] \<and>
        (\<forall>pid' argv' args' h1. \<not> unlocks L argv' \<longrightarrow> Args_Init n' L argv' h'' = (Done (NoExit, args'), h1) \<longrightarrow>
           fst (main n' L C' serves' pid' argv' h'') = Done (Exited 1)))"
proof -
  let ?m = "mutex_next h" and ?e = "shm_next h"
  let ?h = "h\<lparr>mutex_name := Some ?m, mutex_next := ?m + 1, shm_name := Some ?e,
    shm_object := (shm_object h)(?e := fresh_rules), shm_next := ?e + 1, mutex_locked := (mutex_locked h)(?m := True)\<rparr>"
  let ?d = "\<lparr>lockOwned = True, executionLock = ?m, configReader = cfg_new C, ruleEngine = ?e, pidFileCreated = False, d_args = args\<rparr>"
  let ?x = "case dropWhile mac_loadable rs of
      r # _ \<Rightarrow> validation_error invalid_option_value ''macaddr'' (EthAddressToString (the (eth r)))
    | [] \<Rightarrow> validation_error at_least_one_value_required ''target4'' []"
  have "shm_name ?h = Some ?e" "holds (shm_object ?h ?e) []" by (simp_all add: fresh_rules_holds)
  moreover have pol: "policy_printable L (policy d)" using assms(4) by (simp add: policy_printable_def)
  moreover have "load_end rs (policy d) = Throw ?x"
    using assms(4) unfolding load_end_def mac_error_def
    by (cases "dropWhile mac_loadable rs") (simp_all del: dropWhile_eq_Nil_conv)
  ultimately obtain h' where load: "load_engine L (RuleParser_Parse (Suc n) L) saved ?h = (Throw ?x, h')"
    using load_saved [OF assms(1-3) pol, of ?h ?e "[]" n] assms(5,6) by fastforce
  have "\<And>k. frame k (load_engine L (RuleParser_Parse (Suc n) L) saved)"
    unfolding load_engine_def by (intro frame_load_lines frame_Parse)
  from frame_mutex [OF this load] have m: "mutex_name h' = Some ?m" "mutex_locked h' ?m" by simp_all
  have "Initialize (Suc n) L C ?d ?h = (Throw ?x, h')"
    using load assms(8-11) by (simp add: Initialize_def sbind_def loadRules_def)
  then have "main (Suc n) L C serves pid argv h = (Throw ?x, h')"
    using assms(7,12)
    by (simp add: main_def sbind_def sreturn_def Daemon_new_def open_or_create_def ShmRuleEngine_new_def IsAlreadyRunning_def
        Daemon_Run_def Let_def)
  moreover have "ds = [] \<and> (\<not> unlocks L argv' \<longrightarrow> Args_Init n' L argv' h'' = (Done (NoExit, args'), h1) \<longrightarrow>
      fst (main n' L C' serves' pid' argv' h'') = Done (Exited 1))"
    if "machine n' L C' serves' h' h'' ds" for n' C' serves' h'' ds pid' argv' args' h1
    using machine_stays_locked [OF that m] main_running [of n' L argv' h'' args' h1 ?m C' serves' pid']
      Args_Init_NoExit(2) [of L argv' Unix n' h'' NoExit args' h1] by auto
  ultimately show ?thesis by blast
qed

section \<open>Witnesses\<close>

definition sample_cfg :: cfg where
  "sample_cfg = \<lparr>cfg_from_string = (\<lambda>s. if s = ''info'' then Some Info else None), cfg_to_string = (\<lambda>l. Some ''info''),
     cfg_to_long = (\<lambda>s. None), cfg_to_bool = (\<lambda>s. None), cfg_read_ini = (\<lambda>f. None),
     cfg_new = \<lparr>logToConsoleAlso = False, logFile = [], logLevel = Info, pidFile = [], ruleFile = [], cfg_dnsPort = 0,
       tcpPort = 0, cfg_servers = []\<rparr>\<rparr>"

definition sample_config :: ConfigReader where
  "sample_config = \<lparr>logToConsoleAlso = True, logFile = LOG_FILE Unix, logLevel = Info, pidFile = PID_FILE, ruleFile = RULES_FILE Unix,
     cfg_dnsPort = 53, tcpPort = 0,
     cfg_servers = [\<lparr>hostIp = ''1.1.1.1'', port = 53, protocol = Udp, protocolVersion = Ipv4\<rparr>]\<rparr>"

lemma sample_config_loaded:
  "IniConfigReader_LoadConfiguration Unix (cfg_from_string sample_cfg) (cfg_to_string sample_cfg) (cfg_to_long sample_cfg)
     (cfg_to_bool sample_cfg) (cfg_read_ini sample_cfg) f (cfg_new sample_cfg) = Done sample_config"
proof -
  have "GetIpAddressType ''1.1.1.1'' = Ipv4" by code_simp
  then show ?thesis
    by (simp add: IniConfigReader_LoadConfiguration_def sample_cfg_def sample_config_def ini_reader_def tree_string_def
        tree_value_def LoadConfiguration_def addFurther_def addServer_def ToLogLevel_def FromLogLevel_def Let_def)
qed

abbreviation (input) start_args :: Args where
  "start_args \<equiv> \<lparr>configFile = CONFIG_FILE_PATH Unix, daemonMode = False, useRawSockets = True\<rparr>"

lemma sample_start: "Args_Init n sample_lib [''start''] h = (Done (NoExit, start_args), h)"
  by (simp add: Args_Init_for_def catch_def sbind_def parse_options_def sample_lib_def rules_pos_def has_option_def as_text_def
      start_command_def erase_first_def Let_def)

lemma sample_no_unlock: "\<not> unlocks sample_lib [''start'']"
  by (simp add: unlocks_def start_unlocks_def parse_options_def sample_lib_def rules_pos_def erase_first_def has_option_def)

definition bare_host :: host where
  "bare_host = sample_host\<lparr>shm_name := None, shm_next := 0\<rparr>"

definition sample_daemon :: Daemon where
  "sample_daemon = \<lparr>lockOwned = True, executionLock = 0, configReader = sample_config, ruleEngine = 0, pidFileCreated = False,
     d_args = start_args\<rparr>"

definition busy_host :: host where
  "busy_host = bare_host\<lparr>mutex_name := Some 0, mutex_next := 1, shm_name := Some 0,
     shm_object := (shm_object bare_host)(0 := fresh_rules), shm_next := 1, mutex_locked := (mutex_locked bare_host)(0 := True)\<rparr>"

lemma sample_main:
  assumes "serves sample_daemon"
  shows "main n sample_lib sample_cfg serves ForkFails [''start''] bare_host = (Done (Serving sample_daemon), busy_host)"
proof -
  have f: "files bare_host f = None" "mutex_name bare_host = None" "mutex_next bare_host = 0" "shm_next bare_host = 0" for f
    by (simp_all add: bare_host_def sample_host_def)
  from assms show ?thesis
    by (simp add: main_def sbind_def sample_start Daemon_new_def open_or_create_def ShmRuleEngine_new_def IsAlreadyRunning_def
        Daemon_Run_def Initialize_def sample_config_loaded loadRules_def Daemon_Start_def forkAndSetupDaemon_def f Let_def
        sample_daemon_def busy_host_def)
qed

lemma sample_machine: "machine 1 sample_lib sample_cfg (\<lambda>c. True) bare_host busy_host [sample_daemon]"
  by (rule machine.launch [OF machine.boot sample_no_unlock sample_main]) simp

theorem at_most_one_daemon_witness: "length [sample_daemon] \<le> 1 \<and> lockOwned sample_daemon"
  using at_most_one_daemon [OF sample_machine] by simp

theorem second_start_detaches_rules_witness:
  "\<exists>h'. main 1 sample_lib sample_cfg (\<lambda>c. True) ForkFails [''start''] busy_host = (Done (Exited 1), h') \<and> shm_name h' \<noteq> Some 0 \<and>
     (\<forall>n' parsed vm. shm_object (snd (RuleParser_Parse n' sample_lib parsed vm h')) 0 = fresh_rules)"
proof -
  have "shm_name busy_host = Some (ruleEngine sample_daemon)" "ruleEngine sample_daemon < shm_next busy_host"
    "shm_object busy_host (ruleEngine sample_daemon) = fresh_rules" "ruleEngine sample_daemon = 0"
    by (simp_all add: busy_host_def sample_daemon_def)
  with second_start_detaches_rules [OF sample_machine _ _ sample_no_unlock sample_start] show ?thesis by simp
qed

theorem saved_default_policy_blocks_start_witness:
  "\<exists>saved h'. show_engine sample_lib (memory_of [dns_rule]) = Ret saved \<and>
     main 1 sample_lib sample_cfg (\<lambda>c. True) ForkFails [''start''] (bare_host\<lparr>files := [RULES_FILE Unix \<mapsto> saved]\<rparr>) =
       (Throw (validation_error at_least_one_value_required ''target4'' []), h') \<and>
     fst (main 1 sample_lib sample_cfg (\<lambda>c. True) ForkFails [''start''] h') = Done (Exited 1)"
proof -
  let ?d = "memory_of [dns_rule]"
  have d: "holds ?d [dns_rule]"
    by (rule memory_of_holds) (simp_all add: sample_rules_stored sample_rules_ok)
  have p: "action (policy ?d) = Dns" by (simp add: memory_of_def empty_rules_def)
  have l: "list_all (rule_printable sample_lib) [dns_rule]" by (simp add: sample_rule_printable)
  have "mac_loadable dns_rule" by (simp add: mac_loadable_def dns_rule_def mk_rule_def has_eth_def)
  then have none: "dropWhile mac_loadable [dns_rule] = []" by simp
  have "policy_printable sample_lib (policy ?d)" using p by (simp add: policy_printable_def)
  then obtain saved where saved: "show_engine sample_lib ?d = Ret saved"
    using show_engine_lines [OF d l] by blast
  have h: "files (bare_host\<lparr>files := [RULES_FILE Unix \<mapsto> saved]\<rparr>) (ruleFile sample_config) = Some saved"
    "may_read (bare_host\<lparr>files := [RULES_FILE Unix \<mapsto> saved]\<rparr>) (ruleFile sample_config)"
    "may_write (bare_host\<lparr>files := [RULES_FILE Unix \<mapsto> saved]\<rparr>) (ruleFile sample_config)"
    "mutex_name (bare_host\<lparr>files := [RULES_FILE Unix \<mapsto> saved]\<rparr>) = None"
    by (simp_all add: sample_config_def bare_host_def sample_host_def)
  have "sum_list (map rule_size [dns_rule]) \<le> DATA_SIZE" by (simp add: sample_rules_ok)
  from saved_default_policy_blocks_start [OF sample_lib_laws d l p saved this, of 0 "[''start'']"
      "bare_host\<lparr>files := [RULES_FILE Unix \<mapsto> saved]\<rparr>" start_args sample_cfg sample_config "\<lambda>c. True" ForkFails]
    sample_config_loaded h sample_start
  obtain h' where "main 1 sample_lib sample_cfg (\<lambda>c. True) ForkFails [''start''] (bare_host\<lparr>files := [RULES_FILE Unix \<mapsto> saved]\<rparr>) =
      (Throw (validation_error at_least_one_value_required ''target4'' []), h')"
    and later: "\<And>n' C' serves' h'' ds pid' argv' args' h1. machine n' sample_lib C' serves' h' h'' ds \<Longrightarrow> \<not> unlocks sample_lib argv' \<Longrightarrow>
      Args_Init n' sample_lib argv' h'' = (Done (NoExit, args'), h1) \<Longrightarrow> fst (main n' sample_lib C' serves' pid' argv' h'') = Done (Exited 1)"
    unfolding none by (auto simp del: fun_upd_apply)
  moreover have "fst (main 1 sample_lib sample_cfg (\<lambda>c. True) ForkFails [''start''] h') = Done (Exited 1)"
    by (rule later [OF machine.boot sample_no_unlock sample_start])
  ultimately show ?thesis using saved by blast
qed

end
