(* ===== verification/Server_Start.thy ===== *)
theory Server_Start
  imports Dns_Clients Daemon_Process "HOL-Library.Multiset"
begin

text \<open>
  The constructor of \<open>DnsServer\<close> and the receive loops of \<^verbatim>\<open>src/dns/server.cpp\<close>. A running server is its state, the
  sockets it bound, and the receive operations that wait for data in the order in which they were started; the sockets of
  the machine are the parameter \<open>net\<close>. An operation of the sockets library that fails throws.
\<close>

section \<open>Sockets\<close>

datatype socket_id = Socket4 | Socket6 | RawSocket

record 'ep net =
  net_endpoint :: "bool \<Rightarrow> string \<Rightarrow> u16 \<Rightarrow> 'ep option"
  net_pton :: "bool \<Rightarrow> string \<Rightarrow> IpAddress \<Rightarrow> int \<times> IpAddress"
  net_open :: "socket_id \<Rightarrow> bool"
  net_v6_only :: bool
  net_bind :: "socket_id \<Rightarrow> u16 \<Rightarrow> bool"

record 'ep Server =
  dns :: "'ep DnsServer"
  bound :: "(socket_id \<times> u16) list"
  waiting :: "socket_id list"

definition wait_on :: "socket_id \<Rightarrow> 'ep Server \<Rightarrow> 'ep Server" where
  "wait_on k R = R\<lparr>waiting := waiting R @ [k]\<rparr>"

definition receive4 :: "'ep Server \<Rightarrow> 'ep Server" where
  "receive4 R = wait_on Socket4 R"

definition receive6 :: "'ep Server \<Rightarrow> 'ep Server" where
  "receive6 R = wait_on Socket6 R"

definition receive_frame :: "'ep Server \<Rightarrow> 'ep Server" where
  "receive_frame R = wait_on RawSocket R"

section \<open>Construction\<close>

text \<open>The tables as their constructors leave them; the records of hardware addresses hold what the memory held.\<close>

definition PeerRequests_new :: "'ep PeerRequests" where
  "PeerRequests_new = \<lparr>requests = [], sources = [], sourceCount = 0, rng_pos = 0, lastLog = 0, skipCount = 0\<rparr>"

definition EthMappings_new :: "int \<Rightarrow> (nat \<Rightarrow> MacMappingRecord) \<Rightarrow> EthMappings" where
  "EthMappings_new now junk =
     \<lparr>mac_count = 0, mac_records = map (\<lambda>i. (junk i)\<lparr>mac_time := now\<rparr>) [0..<MAX_MAC_IP_MAPPINGS]\<rparr>"

definition BytePacketBuffer_new :: PacketBuffer where
  "BytePacketBuffer_new = \<lparr>bb_buf = replicate MAX_PACKET_SZ 0, bb_pos = 0, bb_size = 0, bb_udp = 0\<rparr>"

definition to_ip :: "'ep net \<Rightarrow> string \<Rightarrow> bool \<Rightarrow> IpAddress option" where
  "to_ip N host v4 = (let (res, a) = ToIpAddress (net_pton N) host v4 (replicate 16 0) in if res \<noteq> 1 then None else Some a)"

definition startRawSocketScan :: "'ep net \<Rightarrow> bool \<Rightarrow> 'ep Server \<Rightarrow> 'ep Server attempt" where
  "startRawSocketScan N useRaw R =
     (if \<not> useRaw then Done R
      else if \<not> net_open N RawSocket then Throw (library_error ''open'')
      else Done (receive_frame R))"

definition open_socket :: "'ep net \<Rightarrow> socket_id \<Rightarrow> unit attempt" where
  "open_socket N k = (if net_open N k then Done () else Throw (library_error ''open''))"

definition bind_socket :: "'ep net \<Rightarrow> socket_id \<Rightarrow> u16 \<Rightarrow> 'ep Server \<Rightarrow> 'ep Server attempt" where
  "bind_socket N k p R =
     (if net_bind N k p then Done (R\<lparr>bound := bound R @ [(k, p)]\<rparr>) else Throw (library_error ''bind''))"

definition startDnsListeners :: "'ep net \<Rightarrow> u16 \<Rightarrow> 'ep Server \<Rightarrow> 'ep Server attempt" where
  "startDnsListeners N p R =
     abind (open_socket N Socket4) (\<lambda>_.
     abind (bind_socket N Socket4 p R) (\<lambda>R.
     abind (open_socket N Socket6) (\<lambda>_.
     abind (if net_v6_only N then Done () else Throw (library_error ''set_option'')) (\<lambda>_.
     abind (bind_socket N Socket6 p R) (\<lambda>R.
     Done (receive6 (receive4 R)))))))"

definition DnsServer_new ::
  "'ep net \<Rightarrow> int \<Rightarrow> (nat \<Rightarrow> MacMappingRecord) \<Rightarrow> bool \<Rightarrow> RuleData \<Rightarrow> ConfigReader \<Rightarrow> 'ep Server attempt" where
  "DnsServer_new N now junk useRaw rules c =
     (case initUpstreamServers (net_endpoint N) (to_ip N) (cfg_servers c) of
        None \<Rightarrow> Throw (library_error ''make_address'')
      | Some us \<Rightarrow>
          let s = \<lparr>peerRequests = PeerRequests_new, ethmappings = EthMappings_new now junk,
                recvBuffer4 = BytePacketBuffer_new, recvBuffer6 = BytePacketBuffer_new, servers = us, ruleData = rules,
                dnsPort = cfg_dnsPort c, sent = []\<rparr>
          in abind (startRawSocketScan N useRaw \<lparr>dns = s, bound = [], waiting = []\<rparr>) (startDnsListeners N (cfg_dnsPort c)))"

section \<open>The loop\<close>

text \<open>
  The handlers of a receive operation that ended with an error, \<open>None\<close>, or with data. Each starts its operation again.
\<close>

definition on_receive4 :: "'ep env \<Rightarrow> (byte list \<times> 'ep) option \<Rightarrow> 'ep Server \<Rightarrow> 'ep Server outcome" where
  "on_receive4 e res R =
     obind (case res of None \<Rightarrow> Ret (dns R) | Some (bs, ep) \<Rightarrow> receive e bs ep True (dns R)) (\<lambda>s.
     Ret (receive4 (R\<lparr>dns := s\<rparr>)))"

definition on_receive6 :: "'ep env \<Rightarrow> (byte list \<times> 'ep) option \<Rightarrow> 'ep Server \<Rightarrow> 'ep Server outcome" where
  "on_receive6 e res R =
     obind (case res of None \<Rightarrow> Ret (dns R) | Some (bs, ep) \<Rightarrow> receive e bs ep False (dns R)) (\<lambda>s.
     Ret (receive6 (R\<lparr>dns := s\<rparr>)))"

definition on_frame :: "'ep env \<Rightarrow> PacketBuffer option \<Rightarrow> 'ep Server \<Rightarrow> 'ep Server outcome" where
  "on_frame e res R =
     obind (case res of None \<Rightarrow> Ret (dns R) | Some bb \<Rightarrow> receive_raw e bb (dns R)) (\<lambda>s.
     Ret (receive_frame (R\<lparr>dns := s\<rparr>)))"

datatype 'ep completion = Done4 "(byte list \<times> 'ep) option" | Done6 "(byte list \<times> 'ep) option" | DoneRaw "PacketBuffer option"

fun socket_of :: "'ep completion \<Rightarrow> socket_id" where
  "socket_of (Done4 r) = Socket4"
| "socket_of (Done6 r) = Socket6"
| "socket_of (DoneRaw r) = RawSocket"

text \<open>The loop takes a finished operation out of the waiting ones and calls its handler.\<close>

definition complete :: "'ep env \<Rightarrow> 'ep completion \<Rightarrow> 'ep Server \<Rightarrow> 'ep Server outcome" where
  "complete e c R =
     (let R = R\<lparr>waiting := remove1 (socket_of c) (waiting R)\<rparr> in
      case c of Done4 r \<Rightarrow> on_receive4 e r R | Done6 r \<Rightarrow> on_receive6 e r R | DoneRaw r \<Rightarrow> on_frame e r R)"

text \<open>
  A step of the loop handles a completion of an operation that waits; between two of them a rule command of another process
  may change the shared memory.
\<close>

inductive loop_step :: "'ep Server \<Rightarrow> 'ep Server \<Rightarrow> bool" where
  step_complete: "socket_of c \<in> set (waiting R) \<Longrightarrow> length (env_digest e) = 64 \<Longrightarrow> ip_ok (env_union e) \<Longrightarrow>
    complete e c R = Ret R' \<Longrightarrow> loop_step R R'"
| step_rules: "rule_step cmd (ruleData (dns R)) = Ret (b, d) \<Longrightarrow> loop_step R (R\<lparr>dns := (dns R)\<lparr>ruleData := d\<rparr>\<rparr>)"

inductive_cases loop_step_cases: "loop_step R R'"

definition loop :: "'ep Server \<Rightarrow> 'ep Server \<Rightarrow> bool" where
  "loop = loop_step\<^sup>*\<^sup>*"

section \<open>Lemmas\<close>

definition heard :: "bool \<Rightarrow> socket_id list" where
  "heard useRaw = (if useRaw then [RawSocket] else []) @ [Socket4, Socket6]"

definition sockets_ok :: "'ep net \<Rightarrow> bool \<Rightarrow> u16 \<Rightarrow> bool" where
  "sockets_ok N useRaw p \<longleftrightarrow> (useRaw \<longrightarrow> net_open N RawSocket) \<and> net_open N Socket4 \<and> net_open N Socket6 \<and> net_v6_only N \<and>
     net_bind N Socket4 p \<and> net_bind N Socket6 p"

text \<open>The end points of the configured servers: those for TCP are passed over.\<close>

definition upstreams :: "'ep net \<Rightarrow> UpstreamServer list \<Rightarrow> 'ep option list" where
  "upstreams N us = map (\<lambda>u. net_endpoint N (protocolVersion u = Ipv4) (hostIp u) (port u)) (filter (\<lambda>u. protocol u = Udp) us)"

text \<open>
  Of the hosts that pass the check of the configuration, \<open>inet_pton\<close> takes every one that the sockets library takes. (For other
  hosts it does not: the sockets library also takes IPv6 addresses with a scope, which the check refuses.)
\<close>

definition parsers_agree :: "'ep net \<Rightarrow> bool" where
  "parsers_agree N \<longleftrightarrow> (\<forall>v4 host p. GetIpAddressType host = (if v4 then Ipv4 else Ipv6) \<longrightarrow>
     net_endpoint N v4 host p \<noteq> None \<longrightarrow> to_ip N host v4 \<noteq> None)"

definition checked :: "UpstreamServer \<Rightarrow> bool" where
  "checked u \<longleftrightarrow> GetIpAddressType (hostIp u) = protocolVersion u \<and> protocolVersion u \<noteq> none"

lemma checked_agree:
  assumes "parsers_agree N" and "checked u" and "net_endpoint N (protocolVersion u = Ipv4) (hostIp u) (port u) \<noteq> None"
  shows "to_ip N (hostIp u) (protocolVersion u = Ipv4) \<noteq> None"
proof -
  have "GetIpAddressType (hostIp u) = (if protocolVersion u = Ipv4 then Ipv4 else Ipv6)"
    using assms(2) by (cases "protocolVersion u") (simp_all add: checked_def)
  with assms(1,3) show ?thesis unfolding parsers_agree_def by blast
qed

lemma initUpstream_Some:
  "initUpstreamServers f g us = Some xs \<Longrightarrow>
     list_all (\<lambda>u. f (protocolVersion u = Ipv4) (hostIp u) (port u) \<noteq> None \<longrightarrow> g (hostIp u) (protocolVersion u = Ipv4) \<noteq> None) us \<Longrightarrow>
     map (Some \<circ> us_endpoint) xs =
       map (\<lambda>u. f (protocolVersion u = Ipv4) (hostIp u) (port u)) (filter (\<lambda>u. protocol u = Udp) us)"
proof (induction us arbitrary: xs)
  case (Cons u us)
  show ?case
  proof (cases "protocol u")
    case Udp
    with Cons.prems(1) obtain ep where ep: "f (protocolVersion u = Ipv4) (hostIp u) (port u) = Some ep"
      by (auto simp: Let_def split: option.splits)
    with Cons.prems(2) obtain a where "g (hostIp u) (protocolVersion u = Ipv4) = Some a" by fastforce
    with Cons ep Udp show ?thesis by (auto simp: Let_def)
  qed (use Cons in simp)
qed simp

lemma initUpstream_None_iff:
  "initUpstreamServers f g us = None \<longleftrightarrow>
     list_ex (\<lambda>u. protocol u = Udp \<and> f (protocolVersion u = Ipv4) (hostIp u) (port u) = None) us"
proof (induction us)
  case (Cons u us)
  then show ?case by (cases "protocol u") (auto simp: Let_def split: option.splits)
qed simp

lemma mappings_inv_new: "(\<And>i. ip_ok (ipaddress (junk i))) \<Longrightarrow> mappings_inv (EthMappings_new now junk)"
  by (simp add: mappings_inv_def EthMappings_new_def list_all_iff record_wf_def)

lemma DnsServer_new_Done:
  assumes "DnsServer_new N now junk useRaw rules c = Done R" and "\<And>i. ip_ok (ipaddress (junk i))"
  shows "server_inv (dns R)" and "waiting R = heard useRaw" and "sent (dns R) = []"
    and "bound R = [(Socket4, cfg_dnsPort c), (Socket6, cfg_dnsPort c)]" and "sockets_ok N useRaw (cfg_dnsPort c)"
    and "initUpstreamServers (net_endpoint N) (to_ip N) (cfg_servers c) = Some (servers (dns R))"
    and "ruleData (dns R) = rules" and "dnsPort (dns R) = cfg_dnsPort c"
  using assms mappings_inv_new [of junk now]
  by (auto simp: DnsServer_new_def Let_def abind_Done_iff startRawSocketScan_def startDnsListeners_def open_socket_def
      bind_socket_def receive4_def receive6_def receive_frame_def wait_on_def heard_def sockets_ok_def server_inv_def
      requests_inv_def inflight_def tidy_def PeerRequests_new_def split: option.splits if_splits)

lemma DnsServer_new_starts:
  assumes "sockets_ok N useRaw (cfg_dnsPort c)"
    and "initUpstreamServers (net_endpoint N) (to_ip N) (cfg_servers c) \<noteq> None"
  obtains R where "DnsServer_new N now junk useRaw rules c = Done R"
proof -
  have "\<exists>R. DnsServer_new N now junk useRaw rules c = Done R"
    using assms by (auto simp: DnsServer_new_def sockets_ok_def startRawSocketScan_def startDnsListeners_def open_socket_def
        bind_socket_def Let_def)
  then show thesis using that by blast
qed

lemma complete_waiting:
  "complete e c R = Ret R' \<Longrightarrow> waiting R' = remove1 (socket_of c) (waiting R) @ [socket_of c] \<and> bound R' = bound R"
  by (cases c) (auto simp: complete_def Let_def on_receive4_def on_receive6_def on_frame_def obind_Ret_iff receive4_def
      receive6_def receive_frame_def wait_on_def)

lemma complete_handles:
  assumes "complete e c R = Ret R'"
  shows "dns R' = dns R \<or> (\<exists>ev. handle e ev (dns R) = Ret (dns R'))"
  using assms handle.simps(1) [of e _ _ _ "dns R"] handle.simps(2) [of e _ "dns R"]
  by (cases c) (auto simp: complete_def Let_def on_receive4_def on_receive6_def on_frame_def obind_Ret_iff receive4_def
      receive6_def receive_frame_def wait_on_def simp del: handle.simps split: option.splits; metis)+

lemma loop_step_reachable:
  assumes "loop_step R R'" and "reachable s0 (dns R)"
  shows "reachable s0 (dns R')"
  using assms(1)
proof (cases rule: loop_step.cases)
  case (step_complete c e)
  from complete_handles [OF step_complete(4)] show ?thesis
    using assms(2) reach_step [OF assms(2) step_complete(2,3)] by auto
next
  case (step_rules cmd b d)
  have "reachable s0 ((dns R)\<lparr>ruleData := d\<rparr>)"
    by (rule reach_step [OF assms(2), of "undefined\<lparr>env_digest := replicate 64 0, env_union := replicate 16 0\<rparr>" "RuleTool cmd"])
      (simp_all add: step_rules ip_ok_def)
  then show ?thesis by (simp add: step_rules)
qed

lemma loop_step_waiting:
  assumes "loop_step R R'"
  shows "mset (waiting R') = mset (waiting R) \<and> bound R' = bound R"
  using assms
proof (cases rule: loop_step.cases)
  case (step_complete c e)
  with complete_waiting [OF step_complete(4)] show ?thesis by simp
qed simp

interpretation io: invariant_of loop_step "\<lambda>R. reachable s0 (dns R) \<and> mset (waiting R) = ws \<and> bound R = bs" for s0 ws bs
  by unfold_locales (auto dest: loop_step_waiting intro: loop_step_reachable)

lemma loop_reachable: "loop R0 R \<Longrightarrow> reachable (dns R0) (dns R)"
  and loop_waiting: "loop R0 R \<Longrightarrow> mset (waiting R) = mset (waiting R0) \<and> bound R = bound R0"
  using io.reached [of R0 R "dns R0" "mset (waiting R0)" "bound R0"] reach_start by (auto simp: loop_def)

lemma reachable_endpoints: "reachable s0 s \<Longrightarrow> server_inv s0 \<Longrightarrow> endpoints s = endpoints s0"
  by (induction rule: reachable.induct) (auto dest!: handle_endpoints dest: reachable_inv)

lemma upstreams_None_iff: "initUpstreamServers (net_endpoint N) (to_ip N) us = None \<longleftrightarrow> None \<in> set (upstreams N us)"
  by (auto simp: initUpstream_None_iff upstreams_def list_ex_iff image_iff)

lemma DnsServer_new_Throw:
  assumes "DnsServer_new N now junk useRaw rules c = Throw x"
  shows "\<not> sockets_ok N useRaw (cfg_dnsPort c) \<or> None \<in> set (upstreams N (cfg_servers c))"
  using assms DnsServer_new_starts [of N useRaw c now junk rules] by (auto simp: upstreams_None_iff)

lemma DnsServer_new_defined: "DnsServer_new N now junk useRaw rules c \<noteq> Undefined u"
  by (auto simp: DnsServer_new_def Let_def startRawSocketScan_def startDnsListeners_def open_socket_def bind_socket_def
      split: option.splits)

text \<open>What holds of a running server at any time.\<close>

definition serving :: "'ep net \<Rightarrow> bool \<Rightarrow> UpstreamServer list \<Rightarrow> u16 \<Rightarrow> 'ep Server \<Rightarrow> bool" where
  "serving N useRaw us p R \<longleftrightarrow> server_inv (dns R) \<and> map Some (endpoints (dns R)) = upstreams N us \<and>
     mset (waiting R) = mset (heard useRaw) \<and> bound R = [(Socket4, p), (Socket6, p)]"

lemma serving_throughout:
  assumes "DnsServer_new N now junk useRaw rules c = Done R" and "\<And>i. ip_ok (ipaddress (junk i))" and "parsers_agree N"
    and "list_all checked (cfg_servers c)" and "loop R R'"
  shows "serving N useRaw (cfg_servers c) (cfg_dnsPort c) R'"
proof -
  note new = DnsServer_new_Done [OF assms(1,2)]
  have "list_all (\<lambda>u. net_endpoint N (protocolVersion u = Ipv4) (hostIp u) (port u) \<noteq> None \<longrightarrow>
      to_ip N (hostIp u) (protocolVersion u = Ipv4) \<noteq> None) (cfg_servers c)"
    using assms(4) checked_agree [OF assms(3)] unfolding list_all_iff by blast
  from initUpstream_Some [OF new(6) this] have "map Some (endpoints (dns R)) = upstreams N (cfg_servers c)"
    by (simp add: endpoints_def upstreams_def)
  then show ?thesis
    using reachable_inv [OF loop_reachable [OF assms(5)] new(1)] reachable_endpoints [OF loop_reachable [OF assms(5)] new(1)]
      loop_waiting [OF assms(5)] new(2,4) by (simp add: serving_def)
qed

section \<open>The server of a daemon\<close>

text \<open>The parameter \<open>serves\<close> of the process, with the constructor of the server.\<close>

definition can_serve :: "'ep net \<Rightarrow> int \<Rightarrow> (nat \<Rightarrow> MacMappingRecord) \<Rightarrow> Daemon \<Rightarrow> bool" where
  "can_serve N now junk d =
     (case DnsServer_new N now junk (useRawSockets (d_args d)) empty_rules (configReader d) of Done R \<Rightarrow> True | _ \<Rightarrow> False)"

lemma can_serve_new:
  assumes "can_serve N now junk d" and "\<And>i. ip_ok (ipaddress (junk i))"
  obtains R where "DnsServer_new N now junk (useRawSockets (d_args d)) rules (configReader d) = Done R"
proof -
  from assms(1) obtain R where "DnsServer_new N now junk (useRawSockets (d_args d)) empty_rules (configReader d) = Done R"
    by (auto simp: can_serve_def split: attempt.splits)
  note new = DnsServer_new_Done [OF this assms(2)]
  show thesis by (rule DnsServer_new_starts [OF new(5)]) (use new(6) that in auto)
qed

text \<open>The configuration of a daemon in its loop is the one of its file.\<close>

definition file_settings :: "cfg \<Rightarrow> string \<Rightarrow> settings" where
  "file_settings C f = ini_reader (cfg_to_long C) (cfg_to_bool C) (case cfg_read_ini C f of Some t \<Rightarrow> t | None \<Rightarrow> \<lambda>k. None)"

lemma main_serving_configuration:
  assumes "main n L C serves pid argv h = (Done (Serving d), h')"
  shows "LoadConfiguration Unix (cfg_from_string C) (cfg_to_string C) (answering (file_settings C (configFile (d_args d)))) (cfg_new C) =
      Done (configReader d)"
    and "\<exists>b. serves (d\<lparr>pidFileCreated := b\<rparr>)"
proof -
  from assms obtain args h1 d1 h2 d2 h3 d3 h4 where
    new: "Daemon_new C args h1 = (Done d1, h2)" and run: "IsAlreadyRunning d1 h2 = (Done (False, d2), h3)"
    and init: "Initialize n L C d2 h3 = (Done d3, h4)" and start: "Daemon_Start serves pid d3 h4 = (Done (Serving d), h')"
    by (auto simp: main_def sbind_Done_iff Daemon_Run_def split: if_splits)
  have c: "configReader d2 = cfg_new C"
    using new run by (auto simp: Daemon_new_def sbind_Done_iff IsAlreadyRunning_def Let_def)
  have fork: "serves d3" "forkAndSetupDaemon pid d3 h4 = (Done (Serving d), h')"
    using start by (auto simp: Daemon_Start_def split: if_splits)
  have d: "d = d3 \<or> d = d3\<lparr>pidFileCreated := True\<rparr>"
    using fork(2) by (auto simp: forkAndSetupDaemon_def sbind_Done_iff savePid_def Let_def split: if_splits detaching.splits)
  then have "configReader d = configReader d3" "d_args d = d_args d3" by auto
  then show "LoadConfiguration Unix (cfg_from_string C) (cfg_to_string C) (answering (file_settings C (configFile (d_args d)))) (cfg_new C) =
      Done (configReader d)"
    using init c
    by (auto simp: Initialize_def sbind_Done_iff slift_def IniConfigReader_LoadConfiguration_def Let_def file_settings_def)
  from d have "d3 = d\<lparr>pidFileCreated := pidFileCreated d3\<rparr>" by auto
  then show "\<exists>b. serves (d\<lparr>pidFileCreated := b\<rparr>)" using fork(1) by metis
qed

text \<open>
  C3. From the command line to the server. When \<open>main\<close> ends in its event loop, a server was set up with the rules in
  the shared memory of the daemon; both sockets are bound to the port of the configuration file, and whatever completions
  and rule commands the loop handles, the tables stay consistent, one receive operation waits on every socket, and the
  upstream servers are the UDP servers that the file names, in their order.
\<close>

theorem serving_daemon:
  assumes "main n L C (can_serve N now junk) pid argv h = (Done (Serving d), h')" and "cfg_servers (cfg_new C) = []"
    and "parsers_agree N" and "\<And>i. ip_ok (ipaddress (junk i))"
  shows "\<exists>R. DnsServer_new N now junk (useRawSockets (d_args d)) (shm_object h' (ruleEngine d)) (configReader d) = Done R \<and>
     ruleData (dns R) = shm_object h' (ruleEngine d) \<and>
     (\<forall>R'. loop R R' \<longrightarrow> serving N (useRawSockets (d_args d))
        (map as_server (wanted (file_settings C (configFile (d_args d))))) (cfg_dnsPort (configReader d)) R')"
proof -
  note conf = main_serving_configuration [OF assms(1)]
  from conf(2) have "can_serve N now junk d" by (auto simp: can_serve_def)
  then obtain R where R: "DnsServer_new N now junk (useRawSockets (d_args d)) (shm_object h' (ruleEngine d)) (configReader d) = Done R"
    using assms(4) by (rule can_serve_new)
  have "cfg_servers (configReader d) = map as_server (wanted (file_settings C (configFile (d_args d))))"
    using LoadConfiguration_Done(2) [OF conf(1)] assms(2) by simp
  moreover have "list_all checked (map as_server (wanted (file_settings C (configFile (d_args d)))))"
    using LoadConfiguration_Done(1) [OF conf(1)] by (auto simp: list_all_iff checked_def acceptable_def as_server_def)
  ultimately show ?thesis using R serving_throughout [OF R assms(4,3)] DnsServer_new_Done(7) [OF R assms(4)] by auto
qed

text \<open>The library takes only addresses with three dots for IPv4 addresses.\<close>

definition dotted_only :: "'ep net \<Rightarrow> bool" where
  "dotted_only N \<longleftrightarrow> (\<forall>host p. net_endpoint N True host p \<noteq> None \<longrightarrow> length (filter (\<lambda>c. c = CHR ''.'') host) = 3)"

text \<open>
  C35. When a server can be constructed: every socket can be opened and bound and the host of every UDP server is an address
  for the sockets library. The configuration check does not imply the latter: it accepts hosts with any separator, which a
  library that accepts only dotted IPv4 addresses refuses, and then the server is not started.
\<close>

theorem server_starts_iff:
  assumes "dotted_only N"
  shows "(case DnsServer_new N now junk useRaw rules c of
      Done R \<Rightarrow> sockets_ok N useRaw (cfg_dnsPort c) \<and> None \<notin> set (upstreams N (cfg_servers c))
    | Throw x \<Rightarrow> \<not> sockets_ok N useRaw (cfg_dnsPort c) \<or> None \<in> set (upstreams N (cfg_servers c))
    | Undefined u \<Rightarrow> False) \<and>
    GetIpAddressType ''1-1-1-1'' = Ipv4 \<and>
    (as_server (''1-1-1-1'', p, ''udp'') \<in> set (cfg_servers c) \<longrightarrow>
       (\<exists>x. DnsServer_new N now junk useRaw rules c = Throw x))"
proof -
  have ip: "GetIpAddressType ''1-1-1-1'' = Ipv4" by code_simp
  have "net_endpoint N True ''1-1-1-1'' p = None"
    using assms [unfolded dotted_only_def, rule_format, of "''1-1-1-1''" p] by (cases "net_endpoint N True ''1-1-1-1'' p") auto
  then have bad: "None \<in> set (upstreams N (cfg_servers c))" if "as_server (''1-1-1-1'', p, ''udp'') \<in> set (cfg_servers c)"
    using that ip by (force simp: upstreams_def as_server_def image_iff)
  have throws: "\<exists>x. DnsServer_new N now junk useRaw rules c = Throw x" if "None \<in> set (upstreams N (cfg_servers c))"
    using that upstreams_None_iff [of N "cfg_servers c"] by (simp add: DnsServer_new_def)
  have ok: "sockets_ok N useRaw (cfg_dnsPort c)" if "DnsServer_new N now junk useRaw rules c = Done R" for R
    using that by (auto simp: DnsServer_new_def Let_def abind_Done_iff startRawSocketScan_def startDnsListeners_def open_socket_def
        bind_socket_def sockets_ok_def split: option.splits if_splits)
  show ?thesis
    using ip bad throws ok DnsServer_new_Throw [of N now junk useRaw rules c] DnsServer_new_defined [of N now junk useRaw rules c]
    by (cases "DnsServer_new N now junk useRaw rules c") auto
qed

section \<open>Witnesses\<close>

definition sample_net :: "nat net" where
  "sample_net = \<lparr>net_endpoint = (\<lambda>v4 host p. if host = ''1.1.1.1'' then Some 7 else None),
     net_pton = (\<lambda>v4 host a. if host = ''1.1.1.1'' then (1, replicate 4 1 @ drop 4 a) else (0, a)),
     net_open = (\<lambda>k. True), net_v6_only = True, net_bind = (\<lambda>k p. True)\<rparr>"

definition blank_mapping :: MacMappingRecord where
  "blank_mapping = \<lparr>ethaddress = replicate 6 0, mac_ipv4 = False, ipaddress = replicate 16 0, mac_time = 0\<rparr>"

lemma sample_net_law: "parsers_agree sample_net" "ip_ok (ipaddress blank_mapping)"
  by (auto simp: parsers_agree_def to_ip_def ToIpAddress_def sample_net_def blank_mapping_def ip_ok_def split: if_splits)

lemma sample_can_serve: "can_serve sample_net 0 (\<lambda>i. blank_mapping) sample_daemon"
proof -
  have "sockets_ok sample_net (useRawSockets (d_args sample_daemon)) (cfg_dnsPort (configReader sample_daemon))"
    by (simp add: sockets_ok_def sample_net_def)
  moreover have "initUpstreamServers (net_endpoint sample_net) (to_ip sample_net) (cfg_servers (configReader sample_daemon)) \<noteq> None"
    unfolding upstreams_None_iff by (simp add: upstreams_def sample_daemon_def sample_config_def sample_net_def)
  ultimately obtain R where "DnsServer_new sample_net 0 (\<lambda>i. blank_mapping) (useRawSockets (d_args sample_daemon)) empty_rules
      (configReader sample_daemon) = Done R" by (rule DnsServer_new_starts)
  then show ?thesis by (simp add: can_serve_def)
qed

theorem serving_daemon_witness:
  "\<exists>R. DnsServer_new sample_net 0 (\<lambda>i. blank_mapping) True fresh_rules sample_config = Done R \<and>
     (\<forall>R'. loop R R' \<longrightarrow> server_inv (dns R') \<and> endpoints (dns R') = [7] \<and> mset (waiting R') = {#RawSocket, Socket4, Socket6#})"
proof -
  have c: "cfg_servers (cfg_new sample_cfg) = []" by (simp add: sample_cfg_def)
  have d: "useRawSockets (d_args sample_daemon)" "shm_object busy_host (ruleEngine sample_daemon) = fresh_rules"
    "configReader sample_daemon = sample_config" by (simp_all add: sample_daemon_def busy_host_def)
  have g: "wanted (file_settings sample_cfg f) = [(''1.1.1.1'', 53, ''udp'')]" for f
    by (simp add: wanted_def file_settings_def sample_cfg_def ini_reader_def tree_string_def tree_value_def)
  have "GetIpAddressType ''1.1.1.1'' = Ipv4" by code_simp
  then have u: "upstreams sample_net [as_server (''1.1.1.1'', 53, ''udp'')] = [Some 7]"
    by (simp add: upstreams_def as_server_def sample_net_def)
  from serving_daemon [OF sample_main [of "can_serve sample_net 0 (\<lambda>i. blank_mapping)" 1, OF sample_can_serve] c sample_net_law]
  show ?thesis by (auto simp: d g u serving_def heard_def ac_simps)
qed

theorem server_starts_iff_witness:
  "\<exists>x. DnsServer_new sample_net 0 (\<lambda>i. blank_mapping) True fresh_rules
     (sample_config\<lparr>cfg_servers := [as_server (''1-1-1-1'', 53, ''udp'')]\<rparr>) = Throw x"
proof -
  have "dotted_only sample_net" by (simp add: dotted_only_def sample_net_def)
  from server_starts_iff [OF this, where now = 0 and junk = "\<lambda>i. blank_mapping" and useRaw = True and rules = fresh_rules
      and c = "sample_config\<lparr>cfg_servers := [as_server (''1-1-1-1'', 53, ''udp'')]\<rparr>" and p = 53]
  show ?thesis by simp
qed

end
