(* ===== verification/Shm_Threads.thy ===== *)
theory Shm_Threads
  imports Rule_Files
begin

text \<open>
  \<^verbatim>\<open>src/rule/shm.cpp\<close> with several processes: the daemon evaluates requests while rule commands of other
  processes change the rules and list them.

  Each public operation is the body between the construction and the destruction of its \<open>scoped_lock\<close>, one step
  for each pass of a loop, each \<open>memcpy\<close> and each assignment to the shared memory. The steps of the processes
  interleave in any way. The mutex is library code: it is the parameter \<open>mutex_ops\<close> with \<open>mutex_laws\<close>. The
  listing of \<open>operator<<\<close> takes no lock; it reads one rule at a time. A process can be killed at any point, which
  leaves the shared memory and the mutex as they are. An access outside of the array ends the modelled run.
\<close>

section \<open>The operations in steps\<close>

datatype Call = Command rule_cmd | Evaluation Input

datatype Result = Flag bool | Decided decision

text \<open>The place in a body, with the local variables that are live there.\<close>

datatype Body =
    Append_Entry Rule
  | Insert_Entry Rule nat
  | Insert_Skip Rule nat nat nat
  | Insert_End Rule nat nat nat
  | Insert_Shift Rule nat nat
  | Copy_Header Rule nat
  | Copy_Ip Rule nat
  | Copy_Eth Rule nat
  | Copy_Target Rule nat
  | Insert_Size
  | Delete_Entry nat
  | Delete_Skip nat nat nat
  | Delete_Next nat nat
  | Delete_End nat nat nat nat
  | Delete_Shift nat nat nat
  | Delete_Size
  | Clear_Entry
  | Policy_Action ActionType IpAddress IpAddress
  | Policy_Ipv4 IpAddress IpAddress
  | Policy_Ipv6 IpAddress
  | Evaluate_Loop Input nat nat
  | Evaluate_Policy Input
  | Callback decision
  | Finish Result

fun entry :: "Call \<Rightarrow> Body" where
  "entry (Command (CmdAppend r)) = Append_Entry r"
| "entry (Command (CmdInsert r i)) = Insert_Entry r i"
| "entry (Command (CmdDelete i)) = Delete_Entry i"
| "entry (Command CmdClear) = Clear_Entry"
| "entry (Command (CmdPolicy a t4 t6)) = Policy_Action a t4 t6"
| "entry (Evaluation inp) = Evaluate_Loop inp 0 0"

definition copy_step :: "bool \<Rightarrow> 'a option \<Rightarrow> ('a \<Rightarrow> byte list) \<Rightarrow> nat \<Rightarrow> (nat \<Rightarrow> Body) \<Rightarrow> RuleData \<Rightarrow> (Body \<times> RuleData) outcome" where
  "copy_step b x f t next d =
     obind (store_if b x f (rd_data d, t)) (\<lambda>(m, t). Ret (next t, d\<lparr>rd_data := m\<rparr>))"

fun body_step :: "Body \<Rightarrow> RuleData \<Rightarrow> (Body \<times> RuleData) outcome" where
  "body_step (Append_Entry r) d = Ret (Insert_Entry r (rd_size d), d)"
| "body_step (Insert_Entry r index) d =
     Ret (if index > rd_size d then Finish (Flag False) else Insert_Skip r index 0 0, d)"
| "body_step (Insert_Skip r index i t) d =
     (if i < index then obind (nextRule (rd_data d) t) (\<lambda>(_, t). Ret (Insert_Skip r index (i + 1) t, d))
      else Ret (Insert_End r t i t, d))"
| "body_step (Insert_End r insertionPoint i t) d =
     (if i < rd_size d then obind (nextRule (rd_data d) t) (\<lambda>(_, t). Ret (Insert_End r insertionPoint (i + 1) t, d))
      else if t + rule_size r > DATA_SIZE then Ret (Finish (Flag False), d)
      else Ret (Insert_Shift r insertionPoint (t + rule_size r), d))"
| "body_step (Insert_Shift r insertionPoint t) d =
     (if t > insertionPoint + rule_size r then
        if t < length (rd_data d) then
          Ret (Insert_Shift r insertionPoint (t - 1), d\<lparr>rd_data := (rd_data d)[t := rd_data d ! (t - rule_size r)]\<rparr>)
        else Undef DataOverrun
      else Ret (Copy_Header r insertionPoint, d))"
| "body_step (Copy_Header r t) d =
     obind (store_bytes (rd_data d) t (header_mem (rule_header r))) (\<lambda>m.
     Ret (Copy_Ip r (t + sizeof_RuleHeader), d\<lparr>rd_data := m\<rparr>))"
| "body_step (Copy_Ip r t) d = copy_step (has_ip (rule_header r)) (ipd r) ipd_mem t (Copy_Eth r) d"
| "body_step (Copy_Eth r t) d = copy_step (has_eth (rule_header r)) (eth r) id t (Copy_Target r) d"
| "body_step (Copy_Target r t) d =
     copy_step (actionType (rule_header r) = Redirect) (target r) ipd_mem t (\<lambda>_. Insert_Size) d"
| "body_step Insert_Size d = Ret (Finish (Flag True), d\<lparr>rd_size := rd_size d + 1\<rparr>)"
| "body_step (Delete_Entry index) d =
     Ret (if rd_size d = 0 \<or> index \<ge> rd_size d then Finish (Flag False)
          else if index = rd_size d - 1 then Delete_Size else Delete_Skip index 0 0, d)"
| "body_step (Delete_Skip index i t) d =
     (if i < index then obind (nextRule (rd_data d) t) (\<lambda>(_, t). Ret (Delete_Skip index (i + 1) t, d))
      else Ret (Delete_Next i t, d))"
| "body_step (Delete_Next i deletionPoint) d =
     obind (nextRule (rd_data d) deletionPoint) (\<lambda>(_, t).
     Ret (Delete_End deletionPoint (t - deletionPoint) (i + 1) t, d))"
| "body_step (Delete_End deletionPoint bytes i t) d =
     (if i < rd_size d then
        obind (nextRule (rd_data d) t) (\<lambda>(_, t). Ret (Delete_End deletionPoint bytes (i + 1) t, d))
      else Ret (Delete_Shift bytes t deletionPoint, d))"
| "body_step (Delete_Shift bytes fin t) d =
     (if t + bytes < fin then
        Ret (Delete_Shift bytes fin (t + 1), d\<lparr>rd_data := (rd_data d)[t := rd_data d ! (t + bytes)]\<rparr>)
      else Ret (Delete_Size, d))"
| "body_step Delete_Size d = Ret (Finish (Flag True), d\<lparr>rd_size := rd_size d - 1\<rparr>)"
| "body_step Clear_Entry d = Ret (Finish (Flag True), d\<lparr>rd_size := 0\<rparr>)"
| "body_step (Policy_Action a t4 t6) d = Ret (Policy_Ipv4 t4 t6, d\<lparr>policy := (policy d)\<lparr>action := a\<rparr>\<rparr>)"
| "body_step (Policy_Ipv4 t4 t6) d = Ret (Policy_Ipv6 t6, d\<lparr>policy := (policy d)\<lparr>targetIpv4 := t4\<rparr>\<rparr>)"
| "body_step (Policy_Ipv6 t6) d = Ret (Finish (Flag True), d\<lparr>policy := (policy d)\<lparr>targetIpv6 := t6\<rparr>\<rparr>)"
| "body_step (Evaluate_Loop inp i t) d =
     (if i < rd_size d then
        obind (nextRule (rd_data d) t) (\<lambda>(r, t).
        obind (rule_applies inp r) (\<lambda>b.
        if b then obind (rule_decision r) (\<lambda>a. Ret (Callback a, d)) else Ret (Evaluate_Loop inp (i + 1) t, d)))
      else Ret (Evaluate_Policy inp, d))"
| "body_step (Evaluate_Policy inp) d = Ret (Callback (policy_decision inp (policy d)), d)"
| "body_step (Callback a) d = Ret (Finish (Decided a), d)"
| "body_step (Finish res) d = Ret (Finish res, d)"

section \<open>The processes\<close>

text \<open>
  The mutex of Boost.Interprocess for a process: \<open>try_lock\<close> gives \<open>None\<close> while the caller has to wait.
  \<open>holder\<close> is the process that has locked it.
\<close>

record 'm mutex_ops =
  try_lock :: "nat \<Rightarrow> 'm \<Rightarrow> 'm option"
  unlock :: "nat \<Rightarrow> 'm \<Rightarrow> 'm"
  holder :: "'m \<Rightarrow> nat option"

definition mutex_laws :: "'m mutex_ops \<Rightarrow> bool" where
  "mutex_laws M \<longleftrightarrow>
     (\<forall>p m m'. try_lock M p m = Some m' \<longrightarrow> holder M m = None \<and> holder M m' = Some p) \<and>
     (\<forall>p m. holder M m = None \<longrightarrow> (\<exists>m'. try_lock M p m = Some m')) \<and>
     (\<forall>p m. holder M m = Some p \<longrightarrow> holder M (unlock M p m) = None)"

datatype Proc = Idle | Waiting Call | Inside Call Body | Listing nat nat string | Listed string | Killed

text \<open>\<open>history\<close> lists the calls that have returned, in the order in which they left the mutex.\<close>

record 'm Sys =
  rule_mutex :: 'm
  memory :: RuleData
  procs :: "nat \<Rightarrow> Proc"
  history :: "(nat \<times> Call \<times> Result) list"

definition initial :: "'m \<Rightarrow> RuleData \<Rightarrow> 'm Sys" where
  "initial m d = \<lparr>rule_mutex = m, memory = d, procs = (\<lambda>p. Idle), history = []\<rparr>"

definition set_proc :: "nat \<Rightarrow> Proc \<Rightarrow> 'm Sys \<Rightarrow> 'm Sys" where
  "set_proc p x s = s\<lparr>procs := (procs s)(p := x)\<rparr>"

text \<open>The steps of process \<open>p\<close>.\<close>

inductive proc_step :: "'l lib \<Rightarrow> 'm mutex_ops \<Rightarrow> nat \<Rightarrow> 'm Sys \<Rightarrow> 'm Sys \<Rightarrow> bool" for L M p where
  call: "procs s p = Idle \<Longrightarrow> proc_step L M p s (set_proc p (Waiting c) s)"
| lock: "procs s p = Waiting c \<Longrightarrow> try_lock M p (rule_mutex s) = Some m \<Longrightarrow>
    proc_step L M p s (set_proc p (Inside c (entry c)) (s\<lparr>rule_mutex := m\<rparr>))"
| body: "procs s p = Inside c b \<Longrightarrow> body_step b (memory s) = Ret (b', d) \<Longrightarrow>
    proc_step L M p s (set_proc p (Inside c b') (s\<lparr>memory := d\<rparr>))"
| leave: "procs s p = Inside c (Finish res) \<Longrightarrow>
    proc_step L M p s (set_proc p Idle
      (s\<lparr>rule_mutex := unlock M p (rule_mutex s), history := history s @ [(p, c, res)]\<rparr>))"
| begin_listing: "procs s p = Idle \<Longrightarrow> proc_step L M p s (set_proc p (Listing 0 0 (''# start'' @ endl)) s)"
| list_rule: "procs s p = Listing i t out \<Longrightarrow> i < rd_size (memory s) \<Longrightarrow>
    nextRule (rd_data (memory s)) t = Ret (r, t') \<Longrightarrow> show_rule L i r = Ret line \<Longrightarrow>
    proc_step L M p s (set_proc p (Listing (i + 1) t' (out @ line)) s)"
| end_listing: "procs s p = Listing i t out \<Longrightarrow> \<not> i < rd_size (memory s) \<Longrightarrow>
    proc_step L M p s (set_proc p (Listed (out @ show_policy L (policy (memory s)) @ ''# end'' @ endl)) s)"
| kill: "proc_step L M p s (set_proc p Killed s)"

definition sys_step :: "'l lib \<Rightarrow> 'm mutex_ops \<Rightarrow> 'm Sys \<Rightarrow> 'm Sys \<Rightarrow> bool" where
  "sys_step L M s s' \<longleftrightarrow> (\<exists>p. proc_step L M p s s')"

text \<open>A call as one step, and what it means on the list of rules with the policy.\<close>

fun run_call :: "Call \<Rightarrow> RuleData \<Rightarrow> (Result \<times> RuleData) outcome" where
  "run_call (Command c) d = obind (rule_step c d) (\<lambda>(b, d). Ret (Flag b, d))"
| "run_call (Evaluation inp) d = obind (Evaluate inp d) (\<lambda>a. Ret (Decided a, d))"

fun call_spec :: "Call \<Rightarrow> Rule list \<times> Policy \<Rightarrow> Result \<times> Rule list \<times> Policy" where
  "call_spec (Command c) a = (let (b, a) = rule_spec c a in (Flag b, a))"
| "call_spec (Evaluation inp) a = (Decided (decide inp (fst a) (snd a)), a)"

fun call_allowed :: "Call \<Rightarrow> Rule list \<times> Policy \<Rightarrow> bool" where
  "call_allowed (Command c) a = rule_allowed c a"
| "call_allowed (Evaluation inp) a = True"

abbreviation calls :: "'m Sys \<Rightarrow> Call list" where "calls s \<equiv> map (\<lambda>(p, c, res). c) (history s)"
abbreviation results :: "'m Sys \<Rightarrow> Result list" where "results s \<equiv> map (\<lambda>(p, c, res). res) (history s)"

section \<open>Steps and whole operations\<close>

text \<open>What remains to be done of a body, in one step.\<close>

definition rest_size :: "RuleData \<Rightarrow> byte list \<Rightarrow> (Result \<times> RuleData) outcome" where
  "rest_size d m = Ret (Flag True, d\<lparr>rd_data := m, rd_size := rd_size d + 1\<rparr>)"

definition rest_target :: "Rule \<Rightarrow> RuleData \<Rightarrow> byte list \<times> nat \<Rightarrow> (Result \<times> RuleData) outcome" where
  "rest_target r d mt =
     obind (store_if (actionType (rule_header r) = Redirect) (target r) ipd_mem mt) (\<lambda>(m, t). rest_size d m)"

definition rest_eth :: "Rule \<Rightarrow> RuleData \<Rightarrow> byte list \<times> nat \<Rightarrow> (Result \<times> RuleData) outcome" where
  "rest_eth r d mt = obind (store_if (has_eth (rule_header r)) (eth r) id mt) (rest_target r d)"

definition rest_ip :: "Rule \<Rightarrow> RuleData \<Rightarrow> byte list \<times> nat \<Rightarrow> (Result \<times> RuleData) outcome" where
  "rest_ip r d mt = obind (store_if (has_ip (rule_header r)) (ipd r) ipd_mem mt) (rest_eth r d)"

definition rest_header :: "Rule \<Rightarrow> nat \<Rightarrow> RuleData \<Rightarrow> byte list \<Rightarrow> (Result \<times> RuleData) outcome" where
  "rest_header r t d m =
     obind (store_bytes m t (header_mem (rule_header r))) (\<lambda>m. rest_ip r d (m, t + sizeof_RuleHeader))"

definition rest_shift :: "Rule \<Rightarrow> nat \<Rightarrow> nat \<Rightarrow> RuleData \<Rightarrow> (Result \<times> RuleData) outcome" where
  "rest_shift r insertionPoint t d =
     obind (shift_up (rule_size r) (insertionPoint + rule_size r) (t - (insertionPoint + rule_size r)) (rd_data d))
       (rest_header r insertionPoint d)"

definition rest_end :: "Rule \<Rightarrow> nat \<Rightarrow> nat \<Rightarrow> nat \<Rightarrow> RuleData \<Rightarrow> (Result \<times> RuleData) outcome" where
  "rest_end r insertionPoint n t d =
     obind (skip_rules (rd_data d) n t) (\<lambda>fin.
     if fin + rule_size r > DATA_SIZE then Ret (Flag False, d) else rest_shift r insertionPoint (fin + rule_size r) d)"

definition rest_skip :: "Rule \<Rightarrow> nat \<Rightarrow> nat \<Rightarrow> nat \<Rightarrow> RuleData \<Rightarrow> (Result \<times> RuleData) outcome" where
  "rest_skip r i n t d =
     obind (skip_rules (rd_data d) n t) (\<lambda>insertionPoint. rest_end r insertionPoint (rd_size d - i) insertionPoint d)"

definition rest_insert :: "Rule \<Rightarrow> nat \<Rightarrow> RuleData \<Rightarrow> (Result \<times> RuleData) outcome" where
  "rest_insert r index d = (if index > rd_size d then Ret (Flag False, d) else rest_skip r index index 0 d)"

definition rest_delete_shift :: "nat \<Rightarrow> nat \<Rightarrow> nat \<Rightarrow> RuleData \<Rightarrow> (Result \<times> RuleData) outcome" where
  "rest_delete_shift bytes fin t d =
     Ret (Flag True, d\<lparr>rd_data := shift_down bytes t (fin - bytes - t) (rd_data d), rd_size := rd_size d - 1\<rparr>)"

definition rest_delete_end :: "nat \<Rightarrow> nat \<Rightarrow> nat \<Rightarrow> nat \<Rightarrow> RuleData \<Rightarrow> (Result \<times> RuleData) outcome" where
  "rest_delete_end deletionPoint bytes n t d =
     obind (skip_rules (rd_data d) n t) (\<lambda>fin. rest_delete_shift bytes fin deletionPoint d)"

definition rest_delete_next :: "nat \<Rightarrow> nat \<Rightarrow> RuleData \<Rightarrow> (Result \<times> RuleData) outcome" where
  "rest_delete_next i deletionPoint d =
     obind (nextRule (rd_data d) deletionPoint) (\<lambda>(_, t).
     rest_delete_end deletionPoint (t - deletionPoint) (rd_size d - (i + 1)) t d)"

definition rest_evaluate :: "Input \<Rightarrow> nat \<Rightarrow> nat \<Rightarrow> RuleData \<Rightarrow> (Result \<times> RuleData) outcome" where
  "rest_evaluate inp n t d =
     obind (evaluate_rules inp (rd_data d) n t) (\<lambda>a.
     Ret (Decided (case a of Some a \<Rightarrow> a | None \<Rightarrow> policy_decision inp (policy d)), d))"

fun remaining :: "Body \<Rightarrow> RuleData \<Rightarrow> (Result \<times> RuleData) outcome" where
  "remaining (Append_Entry r) d = rest_insert r (rd_size d) d"
| "remaining (Insert_Entry r index) d = rest_insert r index d"
| "remaining (Insert_Skip r index i t) d = rest_skip r (max i index) (index - i) t d"
| "remaining (Insert_End r insertionPoint i t) d = rest_end r insertionPoint (rd_size d - i) t d"
| "remaining (Insert_Shift r insertionPoint t) d = rest_shift r insertionPoint t d"
| "remaining (Copy_Header r t) d = rest_header r t d (rd_data d)"
| "remaining (Copy_Ip r t) d = rest_ip r d (rd_data d, t)"
| "remaining (Copy_Eth r t) d = rest_eth r d (rd_data d, t)"
| "remaining (Copy_Target r t) d = rest_target r d (rd_data d, t)"
| "remaining Insert_Size d = rest_size d (rd_data d)"
| "remaining (Delete_Entry index) d = obind (deleteRule index d) (\<lambda>(b, d). Ret (Flag b, d))"
| "remaining (Delete_Skip index i t) d =
     obind (skip_rules (rd_data d) (index - i) t) (\<lambda>t. rest_delete_next (max i index) t d)"
| "remaining (Delete_Next i t) d = rest_delete_next i t d"
| "remaining (Delete_End deletionPoint bytes i t) d = rest_delete_end deletionPoint bytes (rd_size d - i) t d"
| "remaining (Delete_Shift bytes fin t) d = rest_delete_shift bytes fin t d"
| "remaining Delete_Size d = Ret (Flag True, d\<lparr>rd_size := rd_size d - 1\<rparr>)"
| "remaining Clear_Entry d = Ret (Flag True, d\<lparr>rd_size := 0\<rparr>)"
| "remaining (Policy_Action a t4 t6) d =
     Ret (Flag True, d\<lparr>policy := \<lparr>action = a, targetIpv4 = t4, targetIpv6 = t6\<rparr>\<rparr>)"
| "remaining (Policy_Ipv4 t4 t6) d = Ret (Flag True, d\<lparr>policy := (policy d)\<lparr>targetIpv4 := t4, targetIpv6 := t6\<rparr>\<rparr>)"
| "remaining (Policy_Ipv6 t6) d = Ret (Flag True, d\<lparr>policy := (policy d)\<lparr>targetIpv6 := t6\<rparr>\<rparr>)"
| "remaining (Evaluate_Loop inp i t) d = rest_evaluate inp (rd_size d - i) t d"
| "remaining (Evaluate_Policy inp) d = Ret (Decided (policy_decision inp (policy d)), d)"
| "remaining (Callback a) d = Ret (Decided a, d)"
| "remaining (Finish res) d = Ret (res, d)"

lemmas rest_insert_defs = rest_insert_def rest_skip_def rest_end_def rest_shift_def rest_header_def rest_ip_def
  rest_eth_def rest_target_def rest_size_def

text \<open>The stores of the new rule do not read the array.\<close>

lemma rest_header_data [simp]: "rest_header r t (d\<lparr>rd_data := m\<rparr>) = rest_header r t d"
  by (simp add: fun_eq_iff rest_header_def rest_ip_def rest_eth_def rest_target_def [abs_def] rest_size_def cong: obind_cong)

lemmas rest_delete_defs = rest_delete_next_def rest_delete_end_def rest_delete_shift_def

lemma insertRules_rest: "obind (insertRules [r] index d) (\<lambda>(n, d). Ret (Flag (n \<noteq> 0), d)) = rest_insert r index d"
  by (simp add: insertRules_def rest_insert_defs [abs_def] obind_assoc Let_def case_prod_unfold
      if_distrib [of "\<lambda>x. obind x _"] cong: if_cong)

lemma remaining_entry: "remaining (entry c) d = run_call c d"
  by (cases c rule: entry.cases)
    (simp_all add: AppendRule_def InsertRule_def DeleteRule_def ClearRules_def clearRules_def SetPolicy_def
      Evaluate_def rest_evaluate_def obind_assoc case_prod_unfold flip: insertRules_rest)

text \<open>A loop does its first pass, and then the rest of them.\<close>

lemma skip_rules_less:
  "i < n \<Longrightarrow> skip_rules m (n - i) t = obind (nextRule m t) (\<lambda>(r, t). skip_rules m (n - (i + 1)) t)"
  by (subgoal_tac "n - i = Suc (n - (i + 1))") simp_all

lemma evaluate_rules_less:
  "i < n \<Longrightarrow> evaluate_rules inp m (n - i) t =
     obind (nextRule m t) (\<lambda>(r, t). obind (rule_applies inp r) (\<lambda>b.
     if b then obind (rule_decision r) (\<lambda>a. Ret (Some a)) else evaluate_rules inp m (n - (i + 1)) t))"
  by (subgoal_tac "n - i = Suc (n - (i + 1))") (simp_all cong: if_cong)

lemma shift_up_less:
  "stop < t \<Longrightarrow> shift_up bytes stop (t - stop) m =
     (if t < length m then shift_up bytes stop (t - 1 - stop) (m[t := m ! (t - bytes)]) else Undef DataOverrun)"
  by (subgoal_tac "t - stop = Suc (t - 1 - stop)") simp_all

lemma shift_down_less:
  "t + bytes < fin \<Longrightarrow> shift_down bytes t (fin - bytes - t) m =
     shift_down bytes (t + 1) (fin - bytes - (t + 1)) (m[t := m ! (t + bytes)])"
  by (subgoal_tac "fin - bytes - t = Suc (fin - bytes - (t + 1))") simp_all

lemmas loop_less = skip_rules_less evaluate_rules_less shift_up_less shift_down_less

lemma remaining_step: "remaining b d = obind (body_step b d) (\<lambda>(b, d). remaining b d)"
proof (cases b)
  case (Insert_Skip r index i t)
  then show ?thesis by (cases "i < index") (simp_all add: loop_less rest_skip_def obind_assoc case_prod_unfold max_def)
next
  case (Insert_End r ip i t)
  then show ?thesis by (cases "i < rd_size d") (simp_all add: loop_less rest_end_def obind_assoc case_prod_unfold)
next
  case (Insert_Shift r ip t)
  then show ?thesis
    by (cases "ip + rule_size r < t")
      (simp_all add: loop_less rest_shift_def)
next
  case (Delete_Entry index)
  then show ?thesis by (simp add: deleteRule_def rest_delete_defs obind_assoc case_prod_unfold Let_def)
next
  case (Delete_Skip index i t)
  then show ?thesis by (cases "i < index") (simp_all add: loop_less obind_assoc case_prod_unfold max_def)
next
  case (Delete_Next i t)
  then show ?thesis by (simp add: rest_delete_next_def obind_assoc case_prod_unfold)
next
  case (Delete_End dp bytes i t)
  then show ?thesis by (cases "i < rd_size d") (simp_all add: loop_less rest_delete_end_def obind_assoc case_prod_unfold)
next
  case (Delete_Shift bytes fin t)
  then show ?thesis by (cases "t + bytes < fin") (simp_all add: shift_down_less [simplified] rest_delete_shift_def)
next
  case (Evaluate_Loop inp i t)
  then show ?thesis
    by (cases "i < rd_size d") (simp_all add: loop_less rest_evaluate_def obind_assoc case_prod_unfold
        if_distrib [of "\<lambda>x. obind x _"] cong: if_cong)
qed (simp_all add: rest_insert_defs [abs_def] copy_step_def obind_assoc case_prod_unfold)

section \<open>A body ends\<close>

fun stage :: "Body \<Rightarrow> nat" where
  "stage (Append_Entry r) = 10"
| "stage (Insert_Entry r i) = 9"
| "stage (Insert_Skip r n i t) = 8"
| "stage (Insert_End r ip i t) = 7"
| "stage (Insert_Shift r ip t) = 6"
| "stage (Copy_Header r t) = 5"
| "stage (Copy_Ip r t) = 4"
| "stage (Copy_Eth r t) = 3"
| "stage (Copy_Target r t) = 2"
| "stage (Delete_Entry i) = 6"
| "stage (Delete_Skip n i t) = 5"
| "stage (Delete_Next i t) = 4"
| "stage (Delete_End dp n i t) = 3"
| "stage (Delete_Shift n fin t) = 2"
| "stage (Policy_Action a t4 t6) = 3"
| "stage (Policy_Ipv4 t4 t6) = 2"
| "stage (Evaluate_Loop inp i t) = 3"
| "stage (Evaluate_Policy inp) = 2"
| "stage (Finish res) = 0"
| "stage b = 1"

fun passes :: "Body \<Rightarrow> RuleData \<Rightarrow> nat" where
  "passes (Insert_Skip r n i t) d = n - i"
| "passes (Insert_End r ip i t) d = rd_size d - i"
| "passes (Insert_Shift r ip t) d = t"
| "passes (Delete_Skip n i t) d = n - i"
| "passes (Delete_End dp n i t) d = rd_size d - i"
| "passes (Delete_Shift n fin t) d = fin - t"
| "passes (Evaluate_Loop inp i t) d = rd_size d - i"
| "passes b d = 0"

definition body_order :: "((Body \<times> RuleData) \<times> Body \<times> RuleData) set" where
  "body_order = inv_image (less_than <*lex*> less_than) (\<lambda>(b, d). (stage b, passes b d))"

lemma wf_body_order: "wf body_order"
  by (simp add: body_order_def wf_inv_image wf_lex_prod)

lemma body_step_decreases:
  assumes "body_step b d = Ret (b', d')" and "stage b \<noteq> 0"
  shows "((b', d'), (b, d)) \<in> body_order"
  using assms
  by (cases b) (auto simp: body_order_def copy_step_def outcome_simps split: if_splits)

lemma stage_0: "stage b = 0 \<longleftrightarrow> (\<exists>res. b = Finish res)"
  by (cases b) simp_all

lemma procs_set_proc [simp]: "procs (set_proc p x s) = (procs s)(p := x)"
  and set_proc_simps [simp]: "memory (set_proc p x s) = memory s" "rule_mutex (set_proc p x s) = rule_mutex s"
    "history (set_proc p x s) = history s" "set_proc p x (set_proc p y s) = set_proc p x s"
    "(set_proc p y s)\<lparr>memory := d\<rparr> = set_proc p y (s\<lparr>memory := d\<rparr>)"
  by (simp_all add: set_proc_def)

lemma set_proc_same [simp]: "procs s p = x \<Longrightarrow> set_proc p x s = s"
  by (auto simp: set_proc_def)

lemma body_finishes:
  assumes "procs s p = Inside c b" and "remaining b (memory s) = Ret (res, d)"
  shows "(proc_step L M p)\<^sup>*\<^sup>* s (set_proc p (Inside c (Finish res)) (s\<lparr>memory := d\<rparr>))"
  using assms
proof (induction "(b, memory s)" arbitrary: b s rule: wf_induct_rule [OF wf_body_order])
  case 1
  show ?case
  proof (cases "stage b = 0")
    case True
    with 1(2,3) show ?thesis by (auto simp: stage_0)
  next
    case False
    from 1(3) obtain b' d' where b': "body_step b (memory s) = Ret (b', d')" "remaining b' d' = Ret (res, d)"
      by (auto simp: remaining_step [of b "memory s"] outcome_simps)
    let ?s = "set_proc p (Inside c b') (s\<lparr>memory := d'\<rparr>)"
    have "proc_step L M p s ?s" by (rule proc_step.body [OF 1(2) b'(1)])
    moreover have "(proc_step L M p)\<^sup>*\<^sup>* ?s (set_proc p (Inside c (Finish res)) (?s\<lparr>memory := d\<rparr>))"
      using b' body_step_decreases [OF b'(1) False] by (intro 1(1)) simp_all
    ultimately show ?thesis by (simp add: converse_rtranclp_into_rtranclp)
  qed
qed

section \<open>Interleaved operations\<close>

lemma mutex_lawsD:
  assumes "mutex_laws M"
  shows "try_lock M p m = Some m' \<Longrightarrow> holder M m = None" and "try_lock M p m = Some m' \<Longrightarrow> holder M m' = Some p"
    and "holder M m = None \<Longrightarrow> \<exists>m'. try_lock M p m = Some m'"
    and "holder M m = Some p \<Longrightarrow> holder M (unlock M p m) = None"
  using assms by (auto simp: mutex_laws_def)

text \<open>
  Only the holder of the mutex is in a body. The calls that have returned, run one after the other without
  interruption, give their results and the memory that the holder has found; what the holder has still to do with
  the memory as it is now gives what its call does with the memory that it has found.
\<close>

definition linear :: "'m mutex_ops \<Rightarrow> RuleData \<Rightarrow> 'm Sys \<Rightarrow> bool" where
  "linear M d0 s \<longleftrightarrow>
     (\<forall>p c b. procs s p = Inside c b \<longrightarrow> holder M (rule_mutex s) = Some p) \<and>
     (\<exists>d. run_steps run_call (calls s) d0 = Ret (results s, d) \<and>
       (holder M (rule_mutex s) = None \<longrightarrow> memory s = d) \<and>
       (\<forall>p c b. procs s p = Inside c b \<longrightarrow> remaining b (memory s) = run_call c d))"

lemma run_steps_snoc:
  "run_steps step cs s = Ret (rs, t) \<Longrightarrow> step c t = Ret (res, u) \<Longrightarrow> run_steps step (cs @ [c]) s = Ret (rs @ [res], u)"
  by (induction cs arbitrary: s rs) (auto simp: outcome_simps split: prod.splits)

lemma linear_initial: "holder M m = None \<Longrightarrow> linear M d (initial m d)"
  by (simp add: linear_def initial_def)

lemma linear_exclusive:
  assumes "linear M d0 s" and "procs s p = Inside c b" and "procs s q = Inside c' b'"
  shows "p = q"
proof -
  from assms have "holder M (rule_mutex s) = Some p" "holder M (rule_mutex s) = Some q" unfolding linear_def by blast+
  then show ?thesis by simp
qed

lemma linear_step:
  assumes laws: "mutex_laws M" and "proc_step L M p s s'" and "linear M d0 s"
  shows "linear M d0 s'"
  using assms(2)
proof cases
  case (lock c m)
  with assms(3) mutex_lawsD(1,2) [OF laws lock(3)] show ?thesis
    by (auto simp: linear_def remaining_entry)
next
  case (body c b b' d')
  have others: "procs s q \<noteq> Inside c' b''" if "q \<noteq> p" for q c' b''
    using that linear_exclusive [OF assms(3) body(2)] by blast
  from body(3) have "remaining b (memory s) = remaining b' d'" by (simp add: remaining_step [of b])
  with assms(3) body others show ?thesis by (auto simp: linear_def)
next
  case (leave c res)
  have others: "procs s q \<noteq> Inside c' b''" if "q \<noteq> p" for q c' b''
    using that linear_exclusive [OF assms(3) leave(2)] by blast
  from assms(3) leave(2) obtain d where "run_steps run_call (calls s) d0 = Ret (results s, d)"
    "run_call c d = Ret (res, memory s)" "holder M (rule_mutex s) = Some p"
    by (fastforce simp: linear_def)
  with mutex_lawsD(4) [OF laws] leave others show ?thesis
    by (auto simp: linear_def intro!: run_steps_snoc)
qed (use assms(3) in \<open>auto simp: linear_def\<close>)

interpretation threads: invariant_of "sys_step L M" "\<lambda>s. mutex_laws M \<longrightarrow> linear M d0 s" for L M d0
  by unfold_locales (auto simp: sys_step_def intro: linear_step)

interpretation rule_calls: simulation run_call call_spec represents call_allowed
proof
  fix d a c
  assume "represents d a" and "call_allowed c a"
  then show "\<exists>d'. run_call c d = Ret (fst (call_spec c a), d') \<and> represents d' (snd (call_spec c a))"
  proof (cases c)
    case (Command x)
    with \<open>represents d a\<close> \<open>call_allowed c a\<close> rules.step_spec [of d a x] show ?thesis
      by (auto simp: case_prod_unfold Let_def)
  next
    case (Evaluation inp)
    with \<open>represents d a\<close> Evaluate_decide [of d "fst a" "snd a" inp] show ?thesis by simp
  qed
qed

lemma reachable_linear:
  assumes "mutex_laws M" and "holder M m = None" and "(sys_step L M)\<^sup>*\<^sup>* (initial m d0) s"
  shows "linear M d0 s"
  using threads.reached [OF assms(3)] assms(1) linear_initial [OF assms(2)] by blast

text \<open>A process that has locked the mutex ends its call by its own steps.\<close>

lemma holder_leaves:
  assumes "mutex_laws M" and "procs s p = Inside c b" and "holder M (rule_mutex s) = Some p"
    and "remaining b (memory s) = Ret (res, d)"
  obtains s' where "(proc_step L M p)\<^sup>*\<^sup>* s s'" and "procs s' = (procs s)(p := Idle)" and "memory s' = d"
    and "history s' = history s @ [(p, c, res)]" and "holder M (rule_mutex s') = None"
proof
  let ?s = "set_proc p (Inside c (Finish res)) (s\<lparr>memory := d\<rparr>)"
  let ?t = "set_proc p Idle (?s\<lparr>rule_mutex := unlock M p (rule_mutex ?s), history := history ?s @ [(p, c, res)]\<rparr>)"
  have "(proc_step L M p)\<^sup>*\<^sup>* s ?s" by (rule body_finishes [OF assms(2,4)])
  also have "proc_step L M p ?s ?t" by (rule proc_step.leave) simp
  finally show "(proc_step L M p)\<^sup>*\<^sup>* s ?t" .
  show "procs ?t = (procs s)(p := Idle)" "memory ?t = d" "history ?t = history s @ [(p, c, res)]"
    "holder M (rule_mutex ?t) = None"
    using mutex_lawsD(4) [OF assms(1,3)] by (simp_all add: set_proc_def)
qed

lemma call_completes:
  assumes "mutex_laws M" and "procs s p = Idle" and "holder M (rule_mutex s) = None" and "run_call c (memory s) = Ret (res, d)"
  obtains s' where "(proc_step L M p)\<^sup>*\<^sup>* s s'" and "procs s' = procs s" and "memory s' = d"
    and "history s' = history s @ [(p, c, res)]" and "holder M (rule_mutex s') = None"
proof -
  obtain m where m: "try_lock M p (rule_mutex s) = Some m" using mutex_lawsD(3) [OF assms(1,3)] by blast
  let ?w = "set_proc p (Waiting c) s"
  let ?s = "set_proc p (Inside c (entry c)) (?w\<lparr>rule_mutex := m\<rparr>)"
  have "proc_step L M p s ?w" "proc_step L M p ?w ?s"
    using assms(2) m by (auto intro: proc_step.call proc_step.lock)
  then have start: "(proc_step L M p)\<^sup>*\<^sup>* s ?s" by (meson r_into_rtranclp rtranclp_trans)
  have "procs ?s p = Inside c (entry c)" "holder M (rule_mutex ?s) = Some p" "remaining (entry c) (memory ?s) = Ret (res, d)"
    using mutex_lawsD(2) [OF assms(1) m] assms(4) by (simp_all add: remaining_entry set_proc_def)
  then obtain s' where "(proc_step L M p)\<^sup>*\<^sup>* ?s s'" "procs s' = (procs ?s)(p := Idle)" "memory s' = d"
    "history s' = history ?s @ [(p, c, res)]" "holder M (rule_mutex s') = None"
    by (rule holder_leaves [OF assms(1)])
  with rtranclp_trans [OF start] assms(2) that [of s'] show thesis by (auto simp: set_proc_def fun_upd_idem)
qed

lemma alone_sys: "(proc_step L M p)\<^sup>*\<^sup>* s t \<Longrightarrow> (sys_step L M)\<^sup>*\<^sup>* s t"
  by (rule mono_rtranclp [rule_format, of "proc_step L M p"]) (auto simp: sys_step_def)

section \<open>A process that was killed in a body\<close>

definition blocked :: "'m mutex_ops \<Rightarrow> nat \<Rightarrow> 'm Sys \<Rightarrow> 'm Sys \<Rightarrow> bool" where
  "blocked M p s0 s \<longleftrightarrow> holder M (rule_mutex s) = Some p \<and> procs s p = Killed \<and> memory s = memory s0 \<and>
     history s = history s0 \<and> (\<forall>q c b. procs s q \<noteq> Inside c b)"

lemma blocked_step:
  assumes laws: "mutex_laws M" and "proc_step L M q s s'" and "blocked M p s0 s"
  shows "blocked M p s0 s'"
  using assms(2)
proof cases
  case (lock c m)
  with mutex_lawsD(1) [OF laws lock(3)] assms(3) show ?thesis by (simp add: blocked_def)
qed (use assms(3) in \<open>auto simp: blocked_def\<close>)

text \<open>A process that waits for a killed one waits until it is killed itself.\<close>

definition waits :: "nat \<Rightarrow> Call \<Rightarrow> 'm Sys \<Rightarrow> bool" where
  "waits q c s \<longleftrightarrow> procs s q = Waiting c \<or> procs s q = Killed"

lemma waits_step:
  assumes laws: "mutex_laws M" and "proc_step L M r s s'" and "blocked M p s0 s" and "waits q c s"
  shows "waits q c s'"
  using assms(2)
proof cases
  case (lock c' m)
  with mutex_lawsD(1) [OF laws lock(3)] assms(3) show ?thesis by (simp add: blocked_def)
qed (use assms(3,4) in \<open>auto simp: blocked_def waits_def\<close>)

interpretation waiting: invariant_of "sys_step L M" "\<lambda>s. mutex_laws M \<longrightarrow> blocked M p s0 s \<and> waits q c s" for L M p s0 q c
  by unfold_locales (auto simp: sys_step_def intro: blocked_step waits_step)

section \<open>The listing\<close>

lemma listing_runs:
  assumes "procs s p = Listing k t out" and "list_all rule_ok rs" and "list_all (rule_printable L) rs"
    and "mem_at (rd_data (memory s)) t (concat (map rule_bytes rs))" and "k + length rs \<le> rd_size (memory s)"
  shows "(proc_step L M p)\<^sup>*\<^sup>* s (set_proc p (Listing (k + length rs) (t + length (concat (map rule_bytes rs)))
     (out @ concat (map (\<lambda>l. l @ endl) (rule_lines L k rs)))) s)"
  using assms
proof (induction rs arbitrary: s k t out)
  case Nil
  then show ?case by (simp add: rule_lines_def)
next
  case (Cons r rs)
  let ?t = "t + length (rule_bytes r)" and ?out = "out @ rule_line L k r @ endl"
  let ?s = "set_proc p (Listing (k + 1) ?t ?out) s"
  have "proc_step L M p s ?s"
    using Cons.prems nextRule_at [of "rd_data (memory s)" t r] show_rule_line [of r L k]
    by (intro proc_step.list_rule) (simp_all add: mem_at_append rule_line_def)
  moreover have "(proc_step L M p)\<^sup>*\<^sup>* ?s (set_proc p (Listing (k + 1 + length rs) (?t + length (concat (map rule_bytes rs)))
      (?out @ concat (map (\<lambda>l. l @ endl) (rule_lines L (k + 1) rs)))) ?s)"
    using Cons.prems by (intro Cons.IH [of ?s "k + 1" ?t ?out]) (simp_all add: mem_at_append)
  ultimately show ?case
    by (auto simp: rule_lines_def add.assoc intro: converse_rtranclp_into_rtranclp)
qed

text \<open>The whole text, from the place where the listing is.\<close>

lemma listing_ends:
  assumes "procs s p = Listing k t out" and "list_all rule_ok rs" and "list_all (rule_printable L) rs"
    and "mem_at (rd_data (memory s)) t (concat (map rule_bytes rs))" and "rd_size (memory s) = k + length rs"
    and "policy_printable L (policy (memory s))"
  shows "(proc_step L M p)\<^sup>*\<^sup>* s (set_proc p (Listed (out @ concat (map (\<lambda>l. l @ endl)
     (rule_lines L k rs @ [policy_line L (policy (memory s)), ''# end''])))) s)"
proof -
  let ?t = "t + length (concat (map rule_bytes rs))"
  let ?s = "set_proc p (Listing (k + length rs) ?t (out @ concat (map (\<lambda>l. l @ endl) (rule_lines L k rs)))) s"
  have "(proc_step L M p)\<^sup>*\<^sup>* s ?s" using assms by (intro listing_runs) simp_all
  also have "proc_step L M p ?s (set_proc p (Listed (out @ concat (map (\<lambda>l. l @ endl)
     (rule_lines L k rs @ [policy_line L (policy (memory s)), ''# end''])))) s)"
    using proc_step.end_listing [of ?s p "k + length rs" ?t _ L M] assms(5) show_policy_line [OF assms(6)]
    by simp
  finally show ?thesis .
qed

abbreviation (input) listing :: "'l lib \<Rightarrow> Rule list \<Rightarrow> Policy \<Rightarrow> string" where
  "listing L rs p \<equiv> concat (map (\<lambda>l. l @ endl) (''# start'' # rule_lines L 0 rs @ [policy_line L p, ''# end'']))"

text \<open>A listing that nothing disturbs is the one of \<open>show_engine\<close>.\<close>

lemma listing_undisturbed:
  assumes "procs s p = Idle" and "holds (memory s) rs" and "list_all (rule_printable L) rs"
    and "policy_printable L (policy (memory s))"
  shows "\<exists>out. show_engine L (memory s) = Ret out \<and> (proc_step L M p)\<^sup>*\<^sup>* s (set_proc p (Listed out) s)"
proof -
  let ?s = "set_proc p (Listing 0 0 (''# start'' @ endl)) s"
  have "proc_step L M p s ?s" by (rule proc_step.begin_listing [OF assms(1)])
  moreover have "(proc_step L M p)\<^sup>*\<^sup>* ?s (set_proc p (Listed (listing L rs (policy (memory s)))) s)"
    using listing_ends [of ?s p 0 0 _ rs L M] assms by (simp add: holds_def)
  ultimately show ?thesis using show_engine_lines [OF assms(2-4)] by (auto intro: converse_rtranclp_into_rtranclp)
qed

text \<open>A listing up to some rule.\<close>

lemma listing_prefix:
  assumes "procs s p = Idle" and "holds (memory s) (xs @ ys)" and "list_all (rule_printable L) xs"
  shows "(proc_step L M p)\<^sup>*\<^sup>* s (set_proc p (Listing (length xs) (length (concat (map rule_bytes xs)))
     (''# start'' @ endl @ concat (map (\<lambda>l. l @ endl) (rule_lines L 0 xs)))) s)"
proof -
  let ?s = "set_proc p (Listing 0 0 (''# start'' @ endl)) s"
  have "proc_step L M p s ?s" by (rule proc_step.begin_listing [OF assms(1)])
  moreover have "mem_at (rd_data (memory s)) 0 (concat (map rule_bytes xs))" by (rule holds_split(3) [OF assms(2)])
  ultimately show ?thesis
    using listing_runs [of ?s p 0 0 "''# start'' @ endl" xs L M] assms
    by (auto simp: holds_def intro: converse_rtranclp_into_rtranclp)
qed

section \<open>Samples\<close>

definition sample_mutex :: "nat option mutex_ops" where
  "sample_mutex = \<lparr>try_lock = (\<lambda>p m. case m of None \<Rightarrow> Some (Some p) | Some q \<Rightarrow> None), unlock = (\<lambda>p m. None), holder = (\<lambda>m. m)\<rparr>"

lemma sample_mutex_laws: "mutex_laws sample_mutex"
  by (simp add: mutex_laws_def sample_mutex_def split: option.splits)

definition mac_rule :: "byte \<Rightarrow> Rule" where
  "mac_rule b = mk_rule EthAddress Dns None (Some [2, 0, 0, 0, 0, b]) None"

text \<open>Process 0 is about to run the call \<open>c\<close>, and process 1 waits for the mutex with the call \<open>c'\<close>.\<close>

definition sample_contention :: "Call \<Rightarrow> Call \<Rightarrow> RuleData \<Rightarrow> nat option Sys" where
  "sample_contention c c' d =
     \<lparr>rule_mutex = Some 0, memory = d, procs = (\<lambda>p. Idle)(0 := Inside c (entry c), 1 := Waiting c'), history = []\<rparr>"

lemma sample_contention_reached: "(sys_step L sample_mutex)\<^sup>*\<^sup>* (initial None d) (sample_contention c c' d)"
proof -
  let ?s1 = "set_proc 0 (Waiting c) (initial None d)"
  let ?s2 = "set_proc 0 (Inside c (entry c)) (?s1\<lparr>rule_mutex := Some 0\<rparr>)"
  have "sys_step L sample_mutex (initial None d) ?s1" "sys_step L sample_mutex ?s1 ?s2"
    "sys_step L sample_mutex ?s2 (set_proc 1 (Waiting c') ?s2)"
    unfolding sys_step_def
    by (intro exI [of _ 0] exI [of _ 1] proc_step.call proc_step.lock; simp add: initial_def set_proc_def sample_mutex_def)+
  moreover have "set_proc 1 (Waiting c') ?s2 = sample_contention c c' d"
    by (simp add: set_proc_def sample_contention_def initial_def fun_upd_twist)
  ultimately show ?thesis by (metis converse_rtranclp_into_rtranclp rtranclp.rtrancl_refl)
qed

section \<open>Properties\<close>

lemma all_allowed_snoc:
  "all_allowed ok spec (cs @ [c]) a \<longleftrightarrow> all_allowed ok spec cs a \<and> ok c (snd (run_spec spec cs a))"
  by (induction cs arbitrary: a) (auto simp: case_prod_unfold Let_def)

text \<open>
  C8. The operations on the shared rules are linearizable. However the steps of any number of processes
  interleave, at most one of them is in an operation, and whenever the mutex is free the memory and the results
  are those of the finished operations, run one after the other without interruption in the order of their ends.
\<close>

theorem rule_calls_linearizable:
  assumes "mutex_laws M" and "holder M m = None" and "(sys_step L M)\<^sup>*\<^sup>* (initial m d) s"
  shows "(\<forall>p q c b c' b'. procs s p = Inside c b \<and> procs s q = Inside c' b' \<longrightarrow> p = q) \<and>
     (holder M (rule_mutex s) = None \<longrightarrow> run_steps run_call (calls s) d = Ret (results s, memory s))"
proof -
  have lin: "linear M d s" by (rule reachable_linear [OF assms])
  then have "holder M (rule_mutex s) = None \<longrightarrow> run_steps run_call (calls s) d = Ret (results s, memory s)"
    by (auto simp: linear_def)
  with linear_exclusive [OF lin] show ?thesis by blast
qed

lemma sample_append_run:
  obtains s where "(sys_step sample_lib sample_mutex)\<^sup>*\<^sup>* (initial None empty_rules) s"
    and "history s = [(4, Command (CmdAppend dns_rule), Flag True)]" and "holder sample_mutex (rule_mutex s) = None"
proof -
  let ?c = "Command (CmdAppend dns_rule)"
  have "call_allowed ?c ([], policy empty_rules)" by (simp add: sample_rules_ok)
  from rule_calls.step_spec [OF empty_rules_represents this] obtain d where d: "run_call ?c empty_rules = Ret (Flag True, d)"
    by (auto simp: rule_fits_def sample_rules_ok simp del: run_call.simps)
  let ?s = "initial None empty_rules :: nat option Sys"
  have "procs ?s 4 = Idle" "holder sample_mutex (rule_mutex ?s) = None" "run_call ?c (memory ?s) = Ret (Flag True, d)"
    "history ?s = []"
    using d by (simp_all add: initial_def sample_mutex_def)
  with call_completes [OF sample_mutex_laws this(1-3), where L = sample_lib] show thesis
    by (metis that alone_sys append_Nil)
qed

theorem rule_calls_linearizable_witness:
  "\<exists>s. (sys_step sample_lib sample_mutex)\<^sup>*\<^sup>* (initial None empty_rules) s \<and> calls s = [Command (CmdAppend dns_rule)] \<and>
     run_steps run_call [Command (CmdAppend dns_rule)] empty_rules = Ret ([Flag True], memory s)"
proof -
  obtain s where s: "(sys_step sample_lib sample_mutex)\<^sup>*\<^sup>* (initial None empty_rules) s"
    "history s = [(4, Command (CmdAppend dns_rule), Flag True)]" "holder sample_mutex (rule_mutex s) = None"
    by (rule sample_append_run)
  have "holder sample_mutex None = None" by (simp add: sample_mutex_def)
  from rule_calls_linearizable [OF sample_mutex_laws this s(1)] s show ?thesis by auto
qed

text \<open>
  C7. Concurrent processes see the list of rules. When the finished operations are allowed ones, each of them has
  the result that it has on the list as the operations before it have left it, an evaluation the decision of the
  first rule that matches; and whenever the mutex is free the shared bytes represent that list and policy.
\<close>

theorem rule_calls_refine_list:
  assumes "mutex_laws M" and "holder M m = None" and "(sys_step L M)\<^sup>*\<^sup>* (initial m d) s"
    and "represents d a" and "all_allowed call_allowed call_spec (calls s) a"
  shows "results s = fst (run_spec call_spec (calls s) a) \<and>
     (holder M (rule_mutex s) = None \<longrightarrow> represents (memory s) (snd (run_spec call_spec (calls s) a)))"
  using reachable_linear [OF assms(1-3)] rule_calls.run_simulates [OF assms(4,5)] by (auto simp: linear_def)

theorem rule_calls_refine_list_witness:
  "\<exists>s. (sys_step sample_lib sample_mutex)\<^sup>*\<^sup>* (initial None empty_rules) s \<and> results s = [Flag True] \<and>
     represents (memory s) ([dns_rule], policy empty_rules)"
proof -
  obtain s where s: "(sys_step sample_lib sample_mutex)\<^sup>*\<^sup>* (initial None empty_rules) s"
    "history s = [(4, Command (CmdAppend dns_rule), Flag True)]" "holder sample_mutex (rule_mutex s) = None"
    by (rule sample_append_run)
  have "holder sample_mutex None = None" by (simp add: sample_mutex_def)
  from rule_calls_refine_list [OF sample_mutex_laws this s(1) empty_rules_represents] s show ?thesis
    by (auto simp: rule_fits_def sample_rules_ok)
qed

text \<open>
  C19. No operation keeps the mutex. A process in an allowed operation ends it by steps of its own, whatever the
  others do not do: then the mutex is free, and the operation has the result that it has on the list.
\<close>

theorem rule_call_ends:
  assumes "mutex_laws M" and "holder M m = None" and "(sys_step L M)\<^sup>*\<^sup>* (initial m d) s" and "represents d a"
    and "procs s p = Inside c b" and "all_allowed call_allowed call_spec (calls s @ [c]) a"
  shows "\<exists>s'. (proc_step L M p)\<^sup>*\<^sup>* s s' \<and> procs s' = (procs s)(p := Idle) \<and> holder M (rule_mutex s') = None \<and>
     history s' = history s @ [(p, c, fst (call_spec c (snd (run_spec call_spec (calls s) a))))]"
proof -
  let ?a = "snd (run_spec call_spec (calls s) a)"
  from assms(6) have ok: "all_allowed call_allowed call_spec (calls s) a" "call_allowed c ?a" by (simp_all add: all_allowed_snoc)
  have lin: "linear M d s" by (rule reachable_linear [OF assms(1-3)])
  with assms(5) obtain d' where d': "run_steps run_call (calls s) d = Ret (results s, d')"
    "remaining b (memory s) = run_call c d'" and h: "holder M (rule_mutex s) = Some p"
    by (fastforce simp: linear_def)
  from rule_calls.run_simulates [OF assms(4) ok(1)] d'(1) have "represents d' ?a" by auto
  from rule_calls.step_spec [OF this ok(2)] d'(2) obtain d'' where "remaining b (memory s) = Ret (fst (call_spec c ?a), d'')"
    by auto
  from holder_leaves [OF assms(1,5) h this, where L = L] show ?thesis by metis
qed

theorem rule_call_ends_witness:
  "\<exists>s'. (proc_step sample_lib sample_mutex 0)\<^sup>*\<^sup>*
       (sample_contention (Command (CmdAppend dns_rule)) (Command CmdClear) empty_rules) s' \<and>
     procs s' 1 = Waiting (Command CmdClear) \<and> holder sample_mutex (rule_mutex s') = None \<and>
     history s' = [(0, Command (CmdAppend dns_rule), Flag True)]"
proof -
  let ?c = "Command (CmdAppend dns_rule)"
  let ?s = "sample_contention ?c (Command CmdClear) empty_rules"
  have h: "holder sample_mutex None = None" by (simp add: sample_mutex_def)
  have p: "procs ?s 0 = Inside ?c (entry ?c)" and a: "all_allowed call_allowed call_spec (calls ?s @ [?c]) ([], policy empty_rules)"
    by (simp_all add: sample_contention_def sample_rules_ok)
  from rule_call_ends [OF sample_mutex_laws h sample_contention_reached empty_rules_represents p a, where L = sample_lib]
  show ?thesis by (auto simp: sample_contention_def rule_fits_def sample_rules_ok)
qed

text \<open>
  C20. A process that is killed in an operation blocks the rules for good: the memory stays as the killed process
  has left it, no process enters an operation again, no call returns, and a process that waits, like the daemon
  with a request to evaluate, waits until it is killed.
\<close>

theorem killed_holder_blocks:
  assumes "mutex_laws M" and "holder M m = None" and "(sys_step L M)\<^sup>*\<^sup>* (initial m d) s"
    and "procs s p = Inside c b" and "(sys_step L M)\<^sup>*\<^sup>* (set_proc p Killed s) t"
  shows "memory t = memory s \<and> history t = history s \<and> (\<forall>q c b. procs t q \<noteq> Inside c b) \<and>
     (\<forall>q c. q \<noteq> p \<and> procs s q = Waiting c \<longrightarrow> procs t q = Waiting c \<or> procs t q = Killed)"
proof -
  have lin: "linear M d s" by (rule reachable_linear [OF assms(1-3)])
  then have "holder M (rule_mutex s) = Some p" using assms(4) unfolding linear_def by blast
  moreover have "procs s q \<noteq> Inside c' b'" if "q \<noteq> p" for q c' b'
    using that linear_exclusive [OF lin assms(4)] by blast
  ultimately have blk: "blocked M p s (set_proc p Killed s)" by (simp add: blocked_def)
  have w: "blocked M p s t \<and> waits q c' t" if "waits q c' (set_proc p Killed s)" for q c'
    using waiting.reached [OF assms(5)] assms(1) blk that by blast
  have "waits p c (set_proc p Killed s)" by (simp add: waits_def)
  with w [of p c] have "blocked M p s t" by blast
  moreover have "waits q c' t" if "q \<noteq> p" "procs s q = Waiting c'" for q c'
    using w [of q c'] that by (simp add: waits_def)
  ultimately show ?thesis unfolding blocked_def waits_def by blast
qed

theorem killed_holder_blocks_witness:
  "let s = sample_contention (Command (CmdAppend dns_rule)) (Command CmdClear) empty_rules; t = set_proc 0 Killed s
   in memory t = memory s \<and> history t = [] \<and> procs t 1 = Waiting (Command CmdClear)"
proof -
  let ?c = "Command (CmdAppend dns_rule)"
  let ?s = "sample_contention ?c (Command CmdClear) empty_rules"
  have h: "holder sample_mutex None = None" by (simp add: sample_mutex_def)
  have p: "procs ?s 0 = Inside ?c (entry ?c)" by (simp add: sample_contention_def)
  from killed_holder_blocks [OF sample_mutex_laws h sample_contention_reached p rtranclp.rtrancl_refl] show ?thesis
    by (auto simp: sample_contention_def Let_def)
qed

text \<open>
  C21. Listing and saving take no lock. When the rule that was listed last is deleted before the listing goes on,
  the rule behind it, of the same size, takes its place: it is in the memory before and after the deletion, and
  it is missing in the text. The text has the deleted rule instead.
\<close>

theorem listing_loses_rule:
  assumes "mutex_laws M" and "holder M m = None" and "p \<noteq> q" and "holds d (xs @ a # b # ys)"
    and "rule_size a = rule_size b" and "list_all (rule_printable L) (xs @ a # b # ys)" and "policy_printable L (policy d)"
  shows "\<exists>s. (sys_step L M)\<^sup>*\<^sup>* (initial m d) s \<and> history s = [(q, Command (CmdDelete (length xs)), Flag True)] \<and>
     holds (memory s) (xs @ b # ys) \<and> policy (memory s) = policy d \<and> procs s p = Listed (listing L (xs @ a # ys) (policy d))"
proof -
  let ?i = "initial m d" and ?c = "Command (CmdDelete (length xs))"
  let ?out = "''# start'' @ endl @ concat (map (\<lambda>l. l @ endl) (rule_lines L 0 (xs @ [a])))"
  let ?t = "length (concat (map rule_bytes (xs @ [a])))"
  let ?s = "set_proc p (Listing (length (xs @ [a])) ?t ?out) ?i"
  have ok: "list_all rule_ok (xs @ a # b # ys)" using assms(4) by (simp add: holds_def)
  have s: "(sys_step L M)\<^sup>*\<^sup>* ?i ?s"
    using alone_sys [OF listing_prefix [of ?i p "xs @ [a]" "b # ys" L M]] assms(4,6) by (simp add: initial_def)
  obtain d' where d': "run_call ?c d = Ret (Flag True, d')" "holds d' (xs @ b # ys)" "policy d' = policy d"
    using delete_step [OF assms(4), of "length xs"] by auto
  have "procs ?s q = Idle" "holder M (rule_mutex ?s) = None" "run_call ?c (memory ?s) = Ret (Flag True, d')" "history ?s = []"
    using assms(2,3) d'(1) by (simp_all add: initial_def del: run_call.simps)
  then obtain u where u: "(proc_step L M q)\<^sup>*\<^sup>* ?s u" "procs u = procs ?s" "memory u = d'" "history u = [(q, ?c, Flag True)]"
    using call_completes [OF assms(1), of ?s q ?c "Flag True" d' L] by (metis append_Nil)
  have "length (rule_bytes a) = length (rule_bytes b)"
    using ok assms(5) by (simp add: rule_ok_def rule_bytes_length)
  then have t: "?t = length (concat (map rule_bytes (xs @ [b])))" by simp
  have "mem_at (rd_data d') ?t (concat (map rule_bytes ys))"
    unfolding t using holds_split(4) [of d' "xs @ [b]" ys] d'(2) by simp
  then have "(proc_step L M p)\<^sup>*\<^sup>* u (set_proc p (Listed (?out @ concat (map (\<lambda>l. l @ endl)
      (rule_lines L (length (xs @ [a])) ys @ [policy_line L (policy (memory u)), ''# end''])))) u)"
    using u(2,3) ok assms(6,7) d'(2,3) by (intro listing_ends) (simp_all add: holds_def)
  moreover have "?out @ concat (map (\<lambda>l. l @ endl) (rule_lines L (length (xs @ [a])) ys @ [policy_line L (policy (memory u)), ''# end'']))
      = listing L (xs @ a # ys) (policy d)"
    using rule_lines_append [of L 0 "xs @ [a]" ys] u(3) d'(3) by simp
  ultimately have "(sys_step L M)\<^sup>*\<^sup>* u (set_proc p (Listed (listing L (xs @ a # ys) (policy d))) u)"
    by (metis alone_sys)
  with s alone_sys [OF u(1)] have "(sys_step L M)\<^sup>*\<^sup>* ?i (set_proc p (Listed (listing L (xs @ a # ys) (policy d))) u)"
    by (meson rtranclp_trans)
  with u(3,4) d'(2,3) show ?thesis
    by (intro exI [of _ "set_proc p (Listed (listing L (xs @ a # ys) (policy d))) u"]) simp
qed

theorem listing_loses_rule_witness:
  "\<exists>s. (sys_step sample_lib sample_mutex)\<^sup>*\<^sup>* (initial None (memory_of [mac_rule 1, mac_rule 2])) s \<and>
     holds (memory s) [mac_rule 2] \<and>
     procs s 0 = Listed (listing sample_lib [mac_rule 1] (policy (memory_of [mac_rule 1, mac_rule 2])))"
proof -
  have r: "rule_ok (mac_rule b)" "rule_size (mac_rule b) = 14" "rule_printable sample_lib (mac_rule b)" for b
    by (simp_all add: mac_rule_def mk_rule_def rule_ok_def rule_args_ok_def stored_def rule_size_def rule_printable_def
        has_ip_def has_eth_def eth_ok_def)
  have d: "holds (memory_of [mac_rule 1, mac_rule 2]) ([] @ [mac_rule 1, mac_rule 2])"
    using memory_of_holds [of "[mac_rule 1, mac_rule 2]"] by (simp add: r)
  have h: "holder sample_mutex None = None" by (simp add: sample_mutex_def)
  have "policy_printable sample_lib (policy (memory_of [mac_rule 1, mac_rule 2]))"
    by (simp add: memory_of_def empty_rules_def policy_printable_def)
  from listing_loses_rule [OF sample_mutex_laws h, of 0 1, OF _ d, of sample_lib] this r show ?thesis by simp metis
qed

end
