(* ===== verification/Net_Interface.thy ===== *)
theory Net_Interface
  imports Prelude
begin

text \<open>
  \<^verbatim>\<open>include/net/if.hpp\<close>, \<^verbatim>\<open>src/unix/unixif.cpp\<close> and \<^verbatim>\<open>src/win32/win32if.cpp\<close>: the network interfaces of the machine.
  An iterator owns a pointer to an \<open>Interface\<close>, which is null after the iterator was moved from. The linked list that
  \<open>getifaddrs\<close> returns is a list, and a pointer into it the rest of the list from there, with the null pointer as
  the empty list. The address of an entry may be missing, as the manual of \<open>getifaddrs\<close> says.
\<close>

datatype sa_family = AF_INET | AF_INET6 | AF_PACKET | OtherFamily nat

record ifaddrs =
  ifa_name :: string
  ifa_addr :: "sa_family option"

section \<open>An interface\<close>

definition family_of :: "ifaddrs list \<Rightarrow> sa_family outcome" where
  "family_of ptr = (case ptr of [] \<Rightarrow> Undef NullDeref
     | i # _ \<Rightarrow> (case ifa_addr i of None \<Rightarrow> Undef NullDeref | Some f \<Rightarrow> Ret f))"

definition Interface_Index :: "(string \<Rightarrow> int) \<Rightarrow> ifaddrs list \<Rightarrow> int outcome" where
  "Interface_Index if_nametoindex ptr = (case ptr of [] \<Rightarrow> Undef NullDeref | i # _ \<Rightarrow> Ret (if_nametoindex (ifa_name i)))"

definition Interface_Name :: "ifaddrs list \<Rightarrow> string outcome" where
  "Interface_Name ptr = (case ptr of [] \<Rightarrow> Undef NullDeref | i # _ \<Rightarrow> Ret (ifa_name i))"

definition Interface_Type :: "ifaddrs list \<Rightarrow> string outcome" where
  "Interface_Type ptr =
     obind (family_of ptr) (\<lambda>f. Ret (case f of AF_INET \<Rightarrow> ''AF_INET'' | AF_INET6 \<Rightarrow> ''AF_INET6''
       | AF_PACKET \<Rightarrow> ''AF_PACKET'' | OtherFamily n \<Rightarrow> ''UNKNOWN''))"

definition HasIpv4 :: "ifaddrs list \<Rightarrow> bool outcome" where
  "HasIpv4 ptr = obind (family_of ptr) (\<lambda>f. Ret (f = AF_INET))"

definition HasIpv6 :: "ifaddrs list \<Rightarrow> bool outcome" where
  "HasIpv6 ptr = obind (family_of ptr) (\<lambda>f. Ret (f = AF_INET6))"

text \<open>The address is looked at only when the name is not the one of the loopback interface.\<close>

definition skippableInterface :: "ifaddrs list \<Rightarrow> bool outcome" where
  "skippableInterface ptr =
     obind (Interface_Name ptr) (\<lambda>name.
     if name = ''lo'' then Ret True else obind (family_of ptr) (\<lambda>f. Ret (f = AF_PACKET)))"

section \<open>Walking\<close>

fun thisOrNextUseful :: "ifaddrs list \<Rightarrow> ifaddrs list outcome" where
  "thisOrNextUseful [] = Undef NullDeref"
| "thisOrNextUseful (i # rest) =
     obind (skippableInterface (i # rest)) (\<lambda>skip.
     if \<not> skip then Ret (i # rest) else if rest = [] then Ret [] else thisOrNextUseful rest)"

text \<open>The loop of \<open>operator++\<close>, after the pointer was moved to the next entry.\<close>

fun next_useful :: "ifaddrs list \<Rightarrow> ifaddrs list outcome" where
  "next_useful [] = Ret []"
| "next_useful (i # rest) =
     obind (skippableInterface (i # rest)) (\<lambda>skip. if \<not> skip then Ret (i # rest) else next_useful rest)"

definition Interface_next :: "ifaddrs list \<Rightarrow> ifaddrs list outcome" where
  "Interface_next ptr = (case ptr of [] \<Rightarrow> Undef NullDeref | i # rest \<Rightarrow> next_useful rest)"

text \<open>The constructor: \<open>getifaddrs\<close> fails with \<open>None\<close>, for which the program ends with \<open>EC_MISC\<close>, 5. The iterators are \<open>start\<close> and \<open>finish\<close>.\<close>

definition getIfAddrs :: "ifaddrs list option \<Rightarrow> ifaddrs list outcome" where
  "getIfAddrs res = (case res of None \<Rightarrow> Fail 5 | Some addrs \<Rightarrow> Ret addrs)"

definition NetInterface :: "ifaddrs list option \<Rightarrow> (ifaddrs list \<times> ifaddrs list) outcome" where
  "NetInterface res = obind (getIfAddrs res) (\<lambda>addrs. obind (thisOrNextUseful addrs) (\<lambda>start. Ret (start, [])))"

section \<open>Iterators\<close>

type_synonym 'i Iterator = "'i list option"

definition Iterator_new :: "'i list \<Rightarrow> 'i Iterator" where
  "Iterator_new p = Some p"

definition Iterator_copy :: "'i Iterator \<Rightarrow> 'i Iterator outcome" where
  "Iterator_copy b = (case b of None \<Rightarrow> Undef NullDeref | Some p \<Rightarrow> Ret (Some p))"

text \<open>The new iterator and what is left of the old one.\<close>

definition Iterator_move :: "'i Iterator \<Rightarrow> 'i Iterator \<times> 'i Iterator" where
  "Iterator_move b = (b, None)"

definition Iterator_deref :: "'i Iterator \<Rightarrow> 'i list outcome" where
  "Iterator_deref it = (case it of None \<Rightarrow> Undef NullDeref | Some p \<Rightarrow> Ret p)"

text \<open>The increments, with \<open>operator++\<close> of the interface as an argument.\<close>

definition Iterator_prefix :: "('i list \<Rightarrow> 'i list outcome) \<Rightarrow> 'i Iterator \<Rightarrow> 'i Iterator outcome" where
  "Iterator_prefix incr it = obind (Iterator_deref it) (\<lambda>p. obind (incr p) (\<lambda>q. Ret (Some q)))"

definition Iterator_postfix :: "('i list \<Rightarrow> 'i list outcome) \<Rightarrow> 'i Iterator \<Rightarrow> ('i Iterator \<times> 'i Iterator) outcome" where
  "Iterator_postfix incr it = obind (Iterator_copy it) (\<lambda>tmp. obind (Iterator_prefix incr it) (\<lambda>it. Ret (tmp, it)))"

text \<open>Two pointers into the same list are equal when the rests of the list are.\<close>

definition Iterator_eq :: "'i Iterator \<Rightarrow> 'i Iterator \<Rightarrow> bool outcome" where
  "Iterator_eq a b = obind (Iterator_deref a) (\<lambda>p. obind (Iterator_deref b) (\<lambda>q. Ret (p = q)))"

definition Iterator_neq :: "'i Iterator \<Rightarrow> 'i Iterator \<Rightarrow> bool outcome" where
  "Iterator_neq a b = obind (Iterator_deref a) (\<lambda>p. obind (Iterator_deref b) (\<lambda>q. Ret (p \<noteq> q)))"

text \<open>
  \<open>begin()\<close> and \<open>end()\<close> return copies. \<open>for_each\<close> is the loop \<open>for (auto it = n.begin(); it != n.end(); ++it)\<close> with the
  entries that it visits and at most \<open>n\<close> passes.
\<close>

primrec for_each :: "('i list \<Rightarrow> 'i list outcome) \<Rightarrow> nat \<Rightarrow> 'i Iterator \<Rightarrow> 'i Iterator \<Rightarrow> 'i list outcome" where
  "for_each incr 0 it finish = Undef NoReturn"
| "for_each incr (Suc n) it finish =
     obind (Iterator_copy finish) (\<lambda>stop.
     obind (Iterator_neq it stop) (\<lambda>more.
     if \<not> more then Ret []
     else
       obind (Iterator_deref it) (\<lambda>p.
       obind (case p of [] \<Rightarrow> Undef NullDeref | i # _ \<Rightarrow> Ret i) (\<lambda>i.
       obind (Iterator_prefix incr it) (\<lambda>it.
       obind (for_each incr n it finish) (\<lambda>is. Ret (i # is)))))))"

definition visit :: "('i list \<Rightarrow> 'i list outcome) \<Rightarrow> nat \<Rightarrow> ('i list \<times> 'i list) outcome \<Rightarrow> 'i list outcome" where
  "visit incr n net =
     obind net (\<lambda>(start, finish).
     obind (Iterator_copy (Iterator_new start)) (\<lambda>it. for_each incr n it (Iterator_new finish)))"

lemma for_each_end: "for_each incr (Suc n) (Some []) (Some []) = Ret []"
  by (simp add: Iterator_copy_def Iterator_neq_def Iterator_deref_def)

lemma for_each_step:
  "for_each incr (Suc n) (Some (i # rest)) (Some []) =
     obind (incr (i # rest)) (\<lambda>p. obind (for_each incr n (Some p) (Some [])) (\<lambda>is. Ret (i # is)))"
  by (simp add: Iterator_copy_def Iterator_neq_def Iterator_deref_def Iterator_prefix_def obind_assoc)

declare for_each.simps [simp del]

section \<open>Which interfaces are visited\<close>

definition useful :: "ifaddrs \<Rightarrow> bool" where
  "useful i \<longleftrightarrow> ifa_name i \<noteq> ''lo'' \<and> ifa_addr i \<noteq> Some AF_PACKET"

definition addressed :: "ifaddrs \<Rightarrow> bool" where
  "addressed i \<longleftrightarrow> ifa_name i = ''lo'' \<or> ifa_addr i \<noteq> None"

lemma skippable_useful: "addressed i \<Longrightarrow> skippableInterface (i # rest) = Ret (\<not> useful i)"
  by (auto simp: skippableInterface_def Interface_Name_def family_of_def addressed_def useful_def)

lemma skippable_null: "\<not> addressed i \<Longrightarrow> skippableInterface (i # rest) = Undef NullDeref"
  by (auto simp: skippableInterface_def Interface_Name_def family_of_def addressed_def)

lemma next_useful_dropWhile:
  "list_all addressed is \<Longrightarrow> next_useful is = Ret (dropWhile (\<lambda>i. \<not> useful i) is)"
  by (induction "is") (auto simp: skippable_useful)

lemma thisOrNextUseful_dropWhile:
  "list_all addressed is \<Longrightarrow> is \<noteq> [] \<Longrightarrow> thisOrNextUseful is = Ret (dropWhile (\<lambda>i. \<not> useful i) is)"
  by (induction "is") (auto simp: skippable_useful)

lemma Interface_next_Cons: "Interface_next (i # rest) = next_useful rest"
  by (simp add: Interface_next_def)

lemma filter_dropWhile: "filter P (dropWhile (\<lambda>x. \<not> P x) xs) = filter P xs"
  by (induction xs) auto

lemma for_each_filter:
  "list_all addressed is \<Longrightarrow> is = [] \<or> useful (hd is) \<Longrightarrow> length is < n \<Longrightarrow>
     for_each Interface_next n (Some is) (Some []) = Ret (filter useful is)"
proof (induction n arbitrary: "is")
  case (Suc n)
  show ?case
  proof (cases "is")
    case (Cons i rest)
    let ?p = "dropWhile (\<lambda>i. \<not> useful i) rest"
    have "list_all addressed ?p" using Suc.prems(1) Cons by (auto simp: list_all_iff dest: set_dropWhileD)
    moreover have "?p = [] \<or> useful (hd ?p)" using hd_dropWhile [of "\<lambda>i. \<not> useful i" rest] by blast
    moreover have "length ?p < n" using Suc.prems(3) Cons length_dropWhile_le [of "\<lambda>i. \<not> useful i" rest] by simp
    ultimately have "for_each Interface_next n (Some ?p) (Some []) = Ret (filter useful rest)"
      using Suc.IH by (simp add: filter_dropWhile)
    with Cons Suc.prems(1,2) show ?thesis
      by (simp add: for_each_step Interface_next_Cons next_useful_dropWhile)
  qed (simp add: for_each_end)
qed simp

section \<open>Windows\<close>

record adapter =
  IfIndex :: int
  AdapterName :: string
  Ipv4Enabled :: bool
  Ipv6Enabled :: bool

abbreviation (input) ERROR_BUFFER_OVERFLOW :: int where "ERROR_BUFFER_OVERFLOW \<equiv> 111"
abbreviation (input) WORKING_BUFFER_SIZE :: nat where "WORKING_BUFFER_SIZE \<equiv> 15000"
abbreviation (input) MAX_TRIES :: nat where "MAX_TRIES \<equiv> 3"

text \<open>
  \<open>GetAdaptersAddresses\<close> is called with the number of the try and the size of the buffer and gives its code, the size that it
  stores, and the adapters; \<open>malloc\<close> tells whether the size can be allocated. The exit codes are \<open>EC_NOMEM\<close>, 4, and
  \<open>EC_MISC\<close>, 5.
\<close>

fun try_adapters ::
  "(nat \<Rightarrow> bool) \<Rightarrow> (nat \<Rightarrow> nat \<Rightarrow> int \<times> nat \<times> adapter list) \<Rightarrow> nat \<Rightarrow> nat \<Rightarrow> nat \<Rightarrow> int \<Rightarrow> adapter list \<Rightarrow> (int \<times> adapter list) outcome" where
  "try_adapters malloc get i 0 len res addrs = Ret (res, addrs)"
| "try_adapters malloc get i (Suc n) len res addrs =
     (if \<not> malloc len then Fail 4
      else case get i len of (res, len, addrs) \<Rightarrow>
        if res = ERROR_BUFFER_OVERFLOW then try_adapters malloc get (i + 1) n len res [] else Ret (res, addrs))"

definition win_getIfAddrs :: "(nat \<Rightarrow> bool) \<Rightarrow> (nat \<Rightarrow> nat \<Rightarrow> int \<times> nat \<times> adapter list) \<Rightarrow> adapter list outcome" where
  "win_getIfAddrs malloc get =
     obind (try_adapters malloc get 0 MAX_TRIES WORKING_BUFFER_SIZE 0 []) (\<lambda>(res, addrs).
     if res \<noteq> 0 then Fail 5 else Ret addrs)"

definition win_Index :: "adapter list \<Rightarrow> int outcome" where
  "win_Index ptr = (case ptr of [] \<Rightarrow> Undef NullDeref | a # _ \<Rightarrow> Ret (IfIndex a))"

definition win_Name :: "adapter list \<Rightarrow> string outcome" where
  "win_Name ptr = (case ptr of [] \<Rightarrow> Undef NullDeref | a # _ \<Rightarrow> Ret (AdapterName a))"

definition win_Type :: "adapter list \<Rightarrow> string outcome" where
  "win_Type ptr = (case ptr of [] \<Rightarrow> Undef NullDeref
     | a # _ \<Rightarrow> Ret (if Ipv4Enabled a then ''AF_INET'' else if Ipv6Enabled a then ''AF_INET6'' else ''UNKNOWN''))"

definition win_HasIpv4 :: "adapter list \<Rightarrow> bool outcome" where
  "win_HasIpv4 ptr = (case ptr of [] \<Rightarrow> Undef NullDeref | a # _ \<Rightarrow> Ret (Ipv4Enabled a))"

definition win_HasIpv6 :: "adapter list \<Rightarrow> bool outcome" where
  "win_HasIpv6 ptr = (case ptr of [] \<Rightarrow> Undef NullDeref | a # _ \<Rightarrow> Ret (Ipv6Enabled a))"

definition win_next :: "adapter list \<Rightarrow> adapter list outcome" where
  "win_next ptr = (case ptr of [] \<Rightarrow> Ret [] | _ # rest \<Rightarrow> Ret rest)"

definition win_NetInterface ::
  "(nat \<Rightarrow> bool) \<Rightarrow> (nat \<Rightarrow> nat \<Rightarrow> int \<times> nat \<times> adapter list) \<Rightarrow> (adapter list \<times> adapter list) outcome" where
  "win_NetInterface malloc get = obind (win_getIfAddrs malloc get) (\<lambda>addrs. Ret (addrs, []))"

text \<open>The system asks for a larger buffer as long as the one it gets is too small for the adapters of the moment.\<close>

definition adapters_law :: "(nat \<Rightarrow> nat \<Rightarrow> int \<times> nat \<times> adapter list) \<Rightarrow> (nat \<Rightarrow> nat) \<Rightarrow> (nat \<Rightarrow> adapter list) \<Rightarrow> bool" where
  "adapters_law get need present \<longleftrightarrow>
     (\<forall>i len. get i len = (if need i \<le> len then (0, len, present i) else (ERROR_BUFFER_OVERFLOW, need i, [])))"

lemma for_each_all: "length is < n \<Longrightarrow> for_each win_next n (Some is) (Some []) = Ret is"
proof (induction n arbitrary: "is")
  case (Suc n)
  then show ?case by (cases "is") (simp_all add: for_each_end for_each_step win_next_def)
qed simp

lemma win_getIfAddrs_eq:
  assumes "adapters_law get need present"
  shows "win_getIfAddrs (\<lambda>n. True) get =
    (if need 0 \<le> WORKING_BUFFER_SIZE then Ret (present 0)
     else if need 1 \<le> need 0 then Ret (present 1)
     else if need 2 \<le> need 1 then Ret (present 2)
     else Fail 5)"
  using assms by (simp add: adapters_law_def win_getIfAddrs_def numeral_2_eq_2 numeral_3_eq_3)

text \<open>
  Network interfaces. On Unix, a loop over the interfaces visits, in the order of the system, exactly those that are
  neither the loopback interface nor raw link entries, if the system returns at least one entry and every entry but
  the loopback one has an address. Without entries, or with a first entry that has a name but no address, the
  constructor follows a null pointer. On Windows the loop visits all adapters that the system had at the first of three calls
  whose buffer was large enough, and the program exits when the adapters outgrow the buffer three times.
\<close>

theorem interfaces_visited:
  assumes "adapters_law get need present" and "\<And>i. length (present i) < n"
  shows "(list_all addressed is \<and> is \<noteq> [] \<and> length is < n \<longrightarrow>
      visit Interface_next n (NetInterface (Some is)) = Ret (filter useful is)) \<and>
    visit Interface_next n (NetInterface (Some [])) = Undef NullDeref \<and>
    (\<not> addressed i \<longrightarrow> visit Interface_next n (NetInterface (Some (i # is))) = Undef NullDeref) \<and>
    visit win_next n (win_NetInterface (\<lambda>n. True) get) =
      (if need 0 \<le> 15000 then Ret (present 0) else if need 1 \<le> need 0 then Ret (present 1)
       else if need 2 \<le> need 1 then Ret (present 2) else Fail 5)"
proof (intro conjI impI)
  assume "list_all addressed is \<and> is \<noteq> [] \<and> length is < n"
  then have a: "list_all addressed is" "is \<noteq> []" "length is < n" by auto
  let ?p = "dropWhile (\<lambda>i. \<not> useful i) is"
  have "list_all addressed ?p" using a(1) by (auto simp: list_all_iff dest: set_dropWhileD)
  moreover have "?p = [] \<or> useful (hd ?p)" using hd_dropWhile [of "\<lambda>i. \<not> useful i" "is"] by blast
  moreover have "length ?p < n" using a(3) length_dropWhile_le [of "\<lambda>i. \<not> useful i" "is"] by simp
  ultimately have "for_each Interface_next n (Some ?p) (Some []) = Ret (filter useful ?p)" by (rule for_each_filter)
  then show "visit Interface_next n (NetInterface (Some is)) = Ret (filter useful is)"
    using a by (simp add: visit_def NetInterface_def getIfAddrs_def thisOrNextUseful_dropWhile Iterator_new_def Iterator_copy_def
        filter_dropWhile)
next
  show "visit win_next n (win_NetInterface (\<lambda>n. True) get) =
      (if need 0 \<le> 15000 then Ret (present 0) else if need 1 \<le> need 0 then Ret (present 1)
       else if need 2 \<le> need 1 then Ret (present 2) else Fail 5)"
    using assms(2) by (simp add: visit_def win_NetInterface_def win_getIfAddrs_eq [OF assms(1)] Iterator_new_def
        Iterator_copy_def for_each_all)
qed (simp_all add: visit_def NetInterface_def getIfAddrs_def skippable_null)

theorem interfaces_visited_witness:
  "visit Interface_next 5 (NetInterface (Some [\<lparr>ifa_name = ''lo'', ifa_addr = None\<rparr>, \<lparr>ifa_name = ''eth0'', ifa_addr = Some AF_INET\<rparr>])) =
     Ret [\<lparr>ifa_name = ''eth0'', ifa_addr = Some AF_INET\<rparr>]"
proof -
  let ?get = "\<lambda>i len :: nat. if (0 :: nat) \<le> len then (0, len, []) else (ERROR_BUFFER_OVERFLOW, 0, [])"
  have l: "adapters_law ?get (\<lambda>i. 0) (\<lambda>i. [])" by (simp add: adapters_law_def)
  have n: "length [] < (5 :: nat)" by simp
  from interfaces_visited [OF l n, of "[\<lparr>ifa_name = ''lo'', ifa_addr = None\<rparr>, \<lparr>ifa_name = ''eth0'', ifa_addr = Some AF_INET\<rparr>]"]
  show ?thesis by (simp add: addressed_def useful_def)
qed

end
