(* ===== verification/Dns_Printer.thy ===== *)
theory Dns_Printer
  imports Dns_Packet Rule_Command
begin

text \<open>
  The stream operators of \<^verbatim>\<open>src/dns/dnsheader.cpp\<close>, \<^verbatim>\<open>src/dns/dnsquestion.cpp\<close>, \<^verbatim>\<open>src/dns/dnsrecord.cpp\<close> and
  \<^verbatim>\<open>src/dns/dnspacket.cpp\<close>, with which packets are logged, and the texts of log messages in \<^verbatim>\<open>src/bookkeeping/peer.cpp\<close> and
  \<^verbatim>\<open>src/dns/server.cpp\<close>. A stream is the text that is written to it.
\<close>

section \<open>Numbers and names\<close>

abbreviation (input) endl :: string where "endl \<equiv> [CHR 0x0A]"

definition show_bool :: "bool \<Rightarrow> string" where
  "show_bool b = (if b then ''1'' else ''0'')"

definition show_word :: "'a::len word \<Rightarrow> string" where
  "show_word w = decimal (unat w)"

text \<open>A \<open>char\<close> array is written up to its first zero.\<close>

definition show_name :: "byte list \<Rightarrow> string" where
  "show_name nm = map (\<lambda>b. char_of (unat b)) (c_str nm)"

section \<open>Header, question and record\<close>

definition show_header :: "DnsHeader \<Rightarrow> string" where
  "show_header dh =
     ''ID: '' @ show_word (ID dh) @ endl @
     ''QR: '' @ show_bool (GetQueryResponse dh) @ endl @
     ''OPCODE: '' @ show_word (GetOpCode dh) @ endl @
     ''AA: '' @ show_bool (GetAuthoritativeAnswer dh) @ endl @
     ''TC: '' @ show_bool (GetTruncatedMessage dh) @ endl @
     ''RD: '' @ show_bool (GetRecursionDesired dh) @ endl @
     ''RA: '' @ show_bool (GetRecursionAvailable dh) @ endl @
     ''RCODE: '' @ show_word (GetResponseCode dh) @ endl @
     ''QDCOUNT: '' @ show_word (QuestionCount dh) @ endl @
     ''ANCOUNT: '' @ show_word (AnswerCount dh) @ endl @
     ''NSCOUNT: '' @ show_word (AuthorityCount dh) @ endl @
     ''ARCOUNT: '' @ show_word (AdditionalCount dh) @ endl"

definition show_question :: "DnsQuestion \<Rightarrow> string" where
  "show_question dq =
     ''Name: '' @ show_name (Name dq) @ '', Type: '' @ show_word (Type dq) @ '', Class: '' @ show_word (Class dq) @ endl"

definition show_ipv4 :: "u32 \<Rightarrow> string" where
  "show_ipv4 n =
     show_word (drop_bit 24 (n AND 0xff000000)) @ ''.'' @ show_word (drop_bit 16 (n AND 0xff0000)) @ ''.'' @
     show_word (drop_bit 8 (n AND 0xff00)) @ ''.'' @ show_word (n AND 0xff)"

definition IPV6_OUT :: "u32 \<Rightarrow> string" where
  "IPV6_OUT n =
     show_word (drop_bit 24 (n AND 0xff000000)) @ '':'' @ show_word (drop_bit 16 (n AND 0xff0000)) @ '':'' @
     show_word (drop_bit 8 (n AND 0xff00)) @ '':'' @ show_word (n AND 0xff)"

definition show_ipv6 :: "u32 \<times> u32 \<times> u32 \<times> u32 \<Rightarrow> string" where
  "show_ipv6 = (\<lambda>(n1, n2, n3, n4). IPV6_OUT n1 @ '':'' @ IPV6_OUT n2 @ '':'' @ IPV6_OUT n3 @ '':'' @ IPV6_OUT n4)"

definition show_record :: "DnsRecord \<Rightarrow> string outcome" where
  "show_record dp =
     obind (if Type dp = QT_A then obind (get_Ipv4 (Addr dp)) (\<lambda>n. Ret (show_ipv4 n))
            else if Type dp = QT_AAAA then obind (get_Ipv6 (Addr dp)) (\<lambda>n. Ret (show_ipv6 n))
            else Ret ('' Unsupported record type : '' @ show_word (Type dp))) (\<lambda>addr.
     Ret (''Name: '' @ show_name (Name dp) @ '', Type: '' @ show_word (Type dp) @ '', Class: '' @ show_word (Class dp) @
       '', TTL: '' @ show_word (TTL dp) @ '', Len: '' @ show_word (Len dp) @ '', Address: '' @ addr @ endl))"

section \<open>Packet\<close>

text \<open>The loop of the macro \<open>OUTPUT_RECORD\<close>, from index \<open>i\<close> with \<open>n\<close> passes left.\<close>

fun output_from :: "string \<Rightarrow> ('a \<Rightarrow> string outcome) \<Rightarrow> nat \<Rightarrow> nat \<Rightarrow> 'a list \<Rightarrow> string outcome" where
  "output_from what sh i 0 xs = Ret []"
| "output_from what sh i (Suc n) xs =
     (if i \<ge> length xs then Undef NullDeref
      else obind (sh (xs ! i)) (\<lambda>t. obind (output_from what sh (i + 1) n xs) (\<lambda>ts.
        Ret (what @ '' #'' @ decimal (i + 1) @ '': '' @ t @ ts))))"

definition OUTPUT_RECORD :: "string \<Rightarrow> ('a \<Rightarrow> string outcome) \<Rightarrow> u16 option \<Rightarrow> 'a list \<Rightarrow> string outcome" where
  "OUTPUT_RECORD what sh count xs = (case count of
       Some c \<Rightarrow> if c > 0 then obind (output_from what sh 0 (unat c) xs) (\<lambda>t. Ret (what @ ''s: '' @ show_word c @ endl @ t))
         else Ret (''No '' @ what @ ''s available'' @ endl)
     | None \<Rightarrow> Ret (''No '' @ what @ ''s available'' @ endl))"

definition show_packet :: "DnsPacket \<Rightarrow> string outcome" where
  "show_packet dp =
     obind (OUTPUT_RECORD ''Question'' (\<lambda>q. Ret (show_question q)) (map_option QuestionCount (header dp)) (questions dp)) (\<lambda>qd.
     obind (OUTPUT_RECORD ''Answer'' show_record (map_option AnswerCount (header dp)) (answers dp)) (\<lambda>an.
     obind (OUTPUT_RECORD ''Authority'' show_record (map_option AuthorityCount (header dp)) (authorities dp)) (\<lambda>ns.
     obind (OUTPUT_RECORD ''Additional'' show_record (map_option AdditionalCount (header dp)) (additionals dp)) (\<lambda>ar.
     Ret ((case header dp of None \<Rightarrow> [] | Some h \<Rightarrow> show_header h) @ qd @ an @ ns @ ar)))))"

section \<open>Log messages\<close>

fun hexadecimal :: "nat \<Rightarrow> string" where
  "hexadecimal n =
     (if n < 16 then [''0123456789abcdef'' ! n] else hexadecimal (n div 16) @ [''0123456789abcdef'' ! (n mod 16)])"

declare hexadecimal.simps [simp del]

definition logQuery :: "u16 \<Rightarrow> byte list \<Rightarrow> string" where
  "logQuery i hash =
     ''Looking up for record: ID: '' @ show_word i @ '', Hash: '' @
     concat (map (\<lambda>k. hexadecimal (unat (hash ! k)) @ '' '') [0..<32]) @ endl"

definition toDisplayAddress :: "(bool \<Rightarrow> IpAddress \<Rightarrow> string option) \<Rightarrow> bool \<Rightarrow> IpAddress \<Rightarrow> EthAddress \<Rightarrow> string" where
  "toDisplayAddress ntop ipv4 a m =
     snd (IpAddressToString ntop a ipv4 []) @ '' --> '' @ EthAddressToString m"

section \<open>What is written\<close>

text \<open>The listing of a section, without indices into an array.\<close>

definition listing :: "string \<Rightarrow> string list \<Rightarrow> string" where
  "listing what ts =
     (if ts = [] then ''No '' @ what @ ''s available'' @ endl
      else what @ ''s: '' @ decimal (length ts) @ endl @
        concat (map (\<lambda>(i, t). what @ '' #'' @ decimal (i + 1) @ '': '' @ t) (zip [0..<length ts] ts)))"

definition joined :: "char \<Rightarrow> string list \<Rightarrow> string" where
  "joined c ts = (case ts of [] \<Rightarrow> [] | t # us \<Rightarrow> t @ concat (map (\<lambda>u. c # u) us))"

fun record_data :: "DnsRecord \<Rightarrow> string" where
  "record_data r =
     (if Type r = QT_A then joined (CHR ''.'') (map (\<lambda>b. decimal (unat b)) (rdata (Addr r)))
      else if Type r = QT_AAAA then joined (CHR '':'') (map (\<lambda>b. decimal (unat b)) (rdata (Addr r)))
      else '' Unsupported record type : '' @ show_word (Type r))"

declare record_data.simps [simp del]

definition record_line :: "DnsRecord \<Rightarrow> string" where
  "record_line r =
     ''Name: '' @ show_name (Name r) @ '', Type: '' @ show_word (Type r) @ '', Class: '' @ show_word (Class r) @
     '', TTL: '' @ show_word (TTL r) @ '', Len: '' @ show_word (Len r) @ '', Address: '' @ record_data r @ endl"

lemma byte_numbers:
  fixes n :: u32
  shows "map (\<lambda>b. decimal (unat b)) (bytes32 n) =
    [show_word (drop_bit 24 (n AND 0xff000000)), show_word (drop_bit 16 (n AND 0xff0000)), show_word (drop_bit 8 (n AND 0xff00)),
     show_word (n AND 0xff)]"
proof -
  have m: "(0xff000000 :: u32) = push_bit 24 (mask 8)" "(0xff0000 :: u32) = push_bit 16 (mask 8)" "(0xff00 :: u32) = push_bit 8 (mask 8)"
    by (simp_all add: mask_eq_exp_minus_1 push_bit_eq_mult)
  have e: "drop_bit k (n AND push_bit k (mask 8)) = take_bit 8 (drop_bit k n)" for k
    by (rule bit_word_eqI) (auto simp: bit_simps dest: bit_imp_le_length)
  have u: "unat (ucast w :: byte) = unat (take_bit 8 w)" for w :: u32
    by (simp add: unsigned_ucast_eq unsigned_take_bit_eq)
  have l: "w AND 0xff = take_bit 8 w" for w :: u32 by (simp add: low_byte_mask take_bit_eq_mask)
  show ?thesis unfolding m e show_word_def by (simp add: bytes32_def l u)
qed

text \<open>The records that \<open>DnsRecord::Read\<close> makes hold the member of the union that their type calls for.\<close>

definition address_held :: "DnsRecord \<Rightarrow> bool" where
  "address_held r \<longleftrightarrow> (Type r = QT_A \<longrightarrow> (\<exists>n. Addr r = AddrIpv4 n)) \<and>
     (Type r = QT_AAAA \<longrightarrow> (\<exists>n1 n2 n3 n4. Addr r = AddrIpv6 n1 n2 n3 n4))"

lemma DnsRecord_Read_held: "DnsRecord_Read rt bb = Ret (r, bb') \<Longrightarrow> address_held r"
  by (auto simp: DnsRecord_Read_def read_address_def address_held_def obind_Ret_iff)

lemma read_records_all: "read_records rd n bb = Ret (xs, bb') \<Longrightarrow> (\<And>bb x bb'. rd bb = Ret (x, bb') \<Longrightarrow> P x) \<Longrightarrow> list_all P xs"
  by (induction n arbitrary: bb xs) (auto simp: obind_Ret_iff)

lemma show_record_line:
  assumes "address_held r"
  shows "show_record r = Ret (record_line r)"
proof -
  consider n where "Type r = QT_A" "Addr r = AddrIpv4 n" | n1 n2 n3 n4 where "Type r = QT_AAAA" "Addr r = AddrIpv6 n1 n2 n3 n4"
    | "Type r \<noteq> QT_A" "Type r \<noteq> QT_AAAA"
    using assms unfolding address_held_def by blast
  then show ?thesis
  proof cases
    case 1
    then show ?thesis
      by (simp add: show_record_def record_line_def record_data.simps get_Ipv4_def show_ipv4_def byte_numbers joined_def)
  next
    case 2
    then show ?thesis
      by (simp add: show_record_def record_line_def record_data.simps get_Ipv6_def show_ipv6_def IPV6_OUT_def byte_numbers joined_def)
  next
    case 3
    then show ?thesis by (simp add: show_record_def record_line_def record_data.simps)
  qed
qed

lemma output_from_listing:
  assumes "\<And>x. x \<in> set xs \<Longrightarrow> sh x = Ret (line x)"
  shows "i + n = length xs \<Longrightarrow> output_from what sh i n xs =
    Ret (concat (map (\<lambda>(i, t). what @ '' #'' @ decimal (i + 1) @ '': '' @ t) (zip [i..<length xs] (map line (drop i xs)))))"
proof (induction n arbitrary: i)
  case (Suc n)
  then have i: "i < length xs" by simp
  have "drop i xs = xs ! i # drop (Suc i) xs" "[i..<length xs] = i # [Suc i..<length xs]"
    using i by (simp_all add: Cons_nth_drop_Suc upt_conv_Cons)
  moreover have "sh (xs ! i) = Ret (line (xs ! i))" using assms i by simp
  ultimately show ?case using Suc.IH [of "Suc i"] Suc.prems i by simp
qed simp

lemma OUTPUT_RECORD_listing:
  assumes "\<And>x. x \<in> set xs \<Longrightarrow> sh x = Ret (line x)" and "length xs = unat c"
  shows "OUTPUT_RECORD what sh (Some c) xs = Ret (listing what (map line xs))"
proof (cases "c = 0")
  case True
  with assms(2) show ?thesis by (simp add: OUTPUT_RECORD_def listing_def)
next
  case False
  then have "xs \<noteq> []" using assms(2) by (auto simp: unat_eq_0)
  with False output_from_listing [where xs = xs and sh = sh and line = line and what = what and i = 0 and n = "length xs", OF assms(1)]
    assms(2) show ?thesis
    by (simp add: OUTPUT_RECORD_def listing_def show_word_def word_neq_0_conv)
qed

text \<open>
  C40. Logging a packet. Whatever datagram was read, writing the packet to a log stays inside its arrays and reads the right
  members of the unions: the text is the header, then for every section either that it is empty or its length and one numbered
  line for each of its entries. An address is written as its bytes in decimal, with dots for type A and colons for type AAAA.
\<close>

theorem printed_packet:
  assumes "bb_size bb \<le> length (bb_buf bb)" and "DnsPacket_Read bb = Ret (p, bb')"
  shows "show_packet p = Ret (show_header (the (header p)) @ listing ''Question'' (map show_question (questions p)) @
    listing ''Answer'' (map record_line (answers p)) @ listing ''Authority'' (map record_line (authorities p)) @
    listing ''Additional'' (map record_line (additionals p)))"
proof -
  have "packet_wf p" using DnsPacket_Read_wf assms by (simp add: bb_wf_def)
  then obtain h where h: "header p = Some h" "length (questions p) = unat (QuestionCount h)" "length (answers p) = unat (AnswerCount h)"
    "length (authorities p) = unat (AuthorityCount h)" "length (additionals p) = unat (AdditionalCount h)"
    by (auto simp: packet_wf_def)
  have "list_all address_held (answers p) \<and> list_all address_held (authorities p) \<and> list_all address_held (additionals p)"
    using assms(2) by (auto simp: DnsPacket_Read_def obind_Ret_iff intro: read_records_all DnsRecord_Read_held)
  then have r: "show_record x = Ret (record_line x)" if "x \<in> set (answers p) \<or> x \<in> set (authorities p) \<or> x \<in> set (additionals p)" for x
    using that show_record_line by (auto simp: list_all_iff)
  show ?thesis
    by (simp add: show_packet_def h(1) OUTPUT_RECORD_listing [where line = show_question, OF _ h(2)]
        OUTPUT_RECORD_listing [where line = record_line, OF r h(3)] OUTPUT_RECORD_listing [where line = record_line, OF r h(4)]
        OUTPUT_RECORD_listing [where line = record_line, OF r h(5)])
qed

theorem printed_packet_witness:
  "show_packet sample_request = Ret (show_header (the (header sample_request)) @ listing ''Question'' (map show_question (questions sample_request)) @
    listing ''Answer'' (map record_line (answers sample_request)) @ listing ''Authority'' (map record_line (authorities sample_request)) @
    listing ''Additional'' (map record_line (additionals sample_request)))"
proof (rule printed_packet)
  show "DnsPacket_Read sample_input = Ret (sample_request, sample_input\<lparr>bb_pos := 21\<rparr>)" by code_simp
qed (simp add: sample_input_def)

end
