(* ===== verification/Platform_Util.thy ===== *)
theory Platform_Util
  imports Rule_Command
begin

text \<open>
  The remaining functions of \<^verbatim>\<open>src/unix/unixutil.cpp\<close>, \<^verbatim>\<open>src/win32/win32util.cpp\<close> and \<^verbatim>\<open>src/unix/unixdaemon.cpp\<close>: the name of the
  user, the end of the program with a message, addresses on Windows, and the file descriptors of a daemon. A table of
  descriptors is an association list from their numbers to the opened files.
\<close>

section \<open>Messages and names\<close>

abbreviation (input) UNLEN_UNIX :: nat where "UNLEN_UNIX \<equiv> 63"
abbreviation (input) UNLEN_WIN32 :: nat where "UNLEN_WIN32 \<equiv> 256"

text \<open>The logged message and the exit code; \<open>strerror\<close> and \<open>FormatMessage\<close> are parameters.\<close>

definition UnixUtil_Die :: "string \<Rightarrow> string \<Rightarrow> nat \<Rightarrow> string \<times> nat" where
  "UnixUtil_Die errMessage baseMessage exitCode = (baseMessage @ '': '' @ errMessage, exitCode)"

definition Win32_Die :: "string \<Rightarrow> string \<Rightarrow> nat \<Rightarrow> string \<times> nat" where
  "Win32_Die errMessage baseMessage exitCode = (baseMessage @ '': '' @ errMessage, exitCode)"

definition WinDie :: "(nat \<Rightarrow> string option) \<Rightarrow> string \<Rightarrow> nat \<Rightarrow> nat \<Rightarrow> string list \<times> nat" where
  "WinDie format_message baseMessage res exitCode =
     ([baseMessage] @ (case format_message res of None \<Rightarrow> [] | Some buf \<Rightarrow> [''Error: '' @ buf]), exitCode)"

text \<open>\<open>strncpy\<close> copies at most \<open>UNLEN\<close> characters into the array of zeros, which stays terminated.\<close>

definition GetCurrentUserName :: "(nat \<Rightarrow> string option) \<Rightarrow> nat \<Rightarrow> string" where
  "GetCurrentUserName getpwuid euid =
     (case getpwuid euid of Some pw_name \<Rightarrow> take UNLEN_UNIX pw_name | None \<Rightarrow> decimal euid)"

text \<open>\<open>GetUserName\<close> fails when the name does not fit into the buffer with its terminating zero.\<close>

definition Win32_GetCurrentUserName :: "(nat \<Rightarrow> string option) \<Rightarrow> string option" where
  "Win32_GetCurrentUserName get_user_name = get_user_name (UNLEN_WIN32 + 1)"

section \<open>Addresses on Windows\<close>

definition Win32_ToIpAddress ::
  "(bool \<Rightarrow> string \<Rightarrow> IpAddress \<Rightarrow> int \<times> IpAddress) \<Rightarrow> string \<Rightarrow> bool \<Rightarrow> IpAddress \<Rightarrow> int \<times> IpAddress" where
  "Win32_ToIpAddress pton host ipv4 address = pton ipv4 host address"

definition Win32_IpAddressToString ::
  "(bool \<Rightarrow> IpAddress \<Rightarrow> string option) \<Rightarrow> IpAddress \<Rightarrow> bool \<Rightarrow> string \<Rightarrow> nat \<times> string" where
  "Win32_IpAddressToString ntop a ipv4 address = (case ntop ipv4 a of None \<Rightarrow> (0, address) | Some t \<Rightarrow> (length t, t))"

section \<open>File descriptors\<close>

type_synonym fd_table = "(nat \<times> string) list"

text \<open>The system gives the lowest number that is free.\<close>

definition lowest_free :: "fd_table \<Rightarrow> nat" where
  "lowest_free t = hd (filter (\<lambda>n. n \<notin> fst ` set t) [0..<Suc (length t)])"

definition sys_open :: "string \<Rightarrow> fd_table \<Rightarrow> nat \<times> fd_table" where
  "sys_open f t = (lowest_free t, (lowest_free t, f) # t)"

definition sys_close :: "nat \<Rightarrow> fd_table \<Rightarrow> fd_table" where
  "sys_close n t = filter (\<lambda>(m, f). m \<noteq> n) t"

text \<open>\<open>can_open\<close> tells whether the null device can be opened; otherwise the program exits with \<open>EC_MISC\<close>.\<close>

definition closeFds :: "bool \<Rightarrow> fd_table \<Rightarrow> fd_table outcome" where
  "closeFds can_open t =
     (let t = sys_close 2 (sys_close 1 (sys_close 0 t)) in
      if \<not> can_open then Fail 5 else Ret (snd (sys_open ''/dev/null'' t)))"

lemma lowest_free_hd: "k \<notin> fst ` set t \<Longrightarrow> \<forall>j < k. j \<in> fst ` set t \<Longrightarrow> k \<le> length t \<Longrightarrow> lowest_free t = k"
proof -
  assume k: "k \<notin> fst ` set t" "\<forall>j < k. j \<in> fst ` set t" "k \<le> length t"
  have "[0..<Suc (length t)] = [0..<k] @ k # [Suc k..<Suc (length t)]"
    using k(3) by (metis le0 le_imp_less_Suc upt_add_eq_append upt_conv_Cons le_add_diff_inverse less_imp_le_nat)
  moreover have "filter (\<lambda>n. n \<notin> fst ` set t) [0..<k] = []" using k(2) by (auto simp: filter_empty_conv)
  ultimately show "lowest_free t = k" using k(1) by (simp add: lowest_free_def)
qed

text \<open>
  The standard streams of a daemon. After closing them only the standard input is opened again, on the null
  device; the next file or socket that the process opens becomes its standard output, and the one after it the standard error.
\<close>

theorem standard_streams_reused:
  "\<exists>t'. closeFds True t = Ret t' \<and> map_of t' 0 = Some ''/dev/null'' \<and> fst (sys_open f t') = 1 \<and>
     fst (sys_open g (snd (sys_open f t'))) = 2 \<and> (\<forall>n > 2. map_of t' n = map_of t n)"
proof -
  let ?t = "sys_close 2 (sys_close 1 (sys_close 0 t))"
  have gone: "n \<notin> fst ` set ?t" if "n < 3" for n using that by (auto simp: sys_close_def less_Suc_eq numeral_3_eq_3)
  have l0: "lowest_free ?t = 0" by (rule lowest_free_hd) (use gone [of 0] in auto)
  let ?u = "(0, ''/dev/null'') # ?t"
  have l1: "lowest_free ?u = 1" by (rule lowest_free_hd) (use gone [of 1] in auto)
  have l2: "lowest_free ((1, f) # ?u) = 2"
    by (rule lowest_free_hd) (use gone [of 2] in \<open>auto simp: less_Suc_eq numeral_2_eq_2\<close>)
  have same: "map_of (sys_close m ys) n = map_of ys n" if "n \<noteq> m" for m n ys
    using that by (induction ys) (auto simp: sys_close_def)
  have "closeFds True t = Ret ?u" using l0 by (simp add: closeFds_def Let_def sys_open_def)
  moreover have "map_of ?u n = map_of t n" if "n > 2" for n using that by (simp add: same)
  ultimately show ?thesis using l1 l2 by (simp add: sys_open_def)
qed

theorem standard_streams_reused_witness:
  "\<exists>t'. closeFds True [(0, ''tty''), (1, ''tty''), (2, ''tty''), (5, ''log'')] = Ret t' \<and> fst (sys_open ''rules'' t') = 1 \<and> map_of t' 5 = Some ''log''"
proof -
  from standard_streams_reused [of "[(0, ''tty''), (1, ''tty''), (2, ''tty''), (5, ''log'')]" "''rules''" "''rules''"]
  obtain t' where t': "closeFds True [(0, ''tty''), (1, ''tty''), (2, ''tty''), (5, ''log'')] = Ret t'"
    "fst (sys_open ''rules'' t') = 1" "\<forall>n > 2. map_of t' n = map_of [(0, ''tty''), (1, ''tty''), (2, ''tty''), (5, ''log'')] n" by blast
  from t'(3) have "map_of t' 5 = Some ''log''" by simp
  with t' show ?thesis by blast
qed

end
