(* ===== verification/Win_Registry.thy ===== *)
theory Win_Registry
  imports Config_Reader
begin

text \<open>
  \<^verbatim>\<open>src/win32/registry.cpp\<close> and \<^verbatim>\<open>src/win32/win32config.cpp\<close>: the configuration on Windows. The registry is a value of
  the type parameter \<open>'w\<close>, and the functions of the system are the fields of the record \<open>reg_api\<close>; each returns its code,
  the bytes it writes to the caller's buffer, and the length it stores. A function that is called twice may find another
  registry the second time. A call that writes more than its buffer holds has no defined behaviour.
\<close>

section \<open>The functions of the system\<close>

type_synonym HKEY = nat
type_synonym DWORD = u32

abbreviation (input) ERROR_SUCCESS :: int where "ERROR_SUCCESS \<equiv> 0"
abbreviation (input) ERROR_FILE_NOT_FOUND :: int where "ERROR_FILE_NOT_FOUND \<equiv> 2"
abbreviation (input) ERROR_BAD_PATHNAME :: int where "ERROR_BAD_PATHNAME \<equiv> 161"
abbreviation (input) ERROR_MORE_DATA :: int where "ERROR_MORE_DATA \<equiv> 234"
abbreviation (input) ERROR_UNSUPPORTED_TYPE :: int where "ERROR_UNSUPPORTED_TYPE \<equiv> 1630"
abbreviation (input) HKEY_LOCAL_MACHINE :: HKEY where "HKEY_LOCAL_MACHINE \<equiv> 0x80000002"

datatype value_kind = REG_SZ | REG_BINARY | REG_DWORD

text \<open>\<open>RegGetValue\<close> is called without a buffer, \<open>None\<close>, to ask for the size, or with the size of the buffer.\<close>

record 'w reg_api =
  RegOpenKeyEx :: "'w \<Rightarrow> HKEY \<Rightarrow> string \<Rightarrow> DWORD \<Rightarrow> int \<times> HKEY"
  RegCreateKeyEx :: "HKEY \<Rightarrow> string \<Rightarrow> DWORD \<Rightarrow> 'w \<Rightarrow> (int \<times> HKEY) \<times> 'w"
  RegQueryInfoKey :: "'w \<Rightarrow> HKEY \<Rightarrow> int \<times> (DWORD \<times> DWORD) \<times> (DWORD \<times> DWORD)"
  RegEnumKeyEx :: "'w \<Rightarrow> HKEY \<Rightarrow> DWORD \<Rightarrow> DWORD \<Rightarrow> int \<times> byte list \<times> DWORD"
  RegEnumValue :: "'w \<Rightarrow> HKEY \<Rightarrow> DWORD \<Rightarrow> DWORD \<Rightarrow> int \<times> byte list \<times> DWORD \<times> DWORD"
  RegGetValue :: "'w \<Rightarrow> HKEY \<Rightarrow> string \<Rightarrow> string \<Rightarrow> value_kind \<Rightarrow> DWORD option \<Rightarrow> int \<times> byte list \<times> DWORD"

text \<open>What a buffer holds after a call that wrote \<open>w\<close> to it.\<close>

definition written :: "byte list \<Rightarrow> byte list \<Rightarrow> byte list attempt" where
  "written buf w = (if length w \<le> length buf then Done (w @ drop (length w) buf) else Undefined BufferOverrun)"

definition chars :: "byte list \<Rightarrow> string" where
  "chars bs = map (\<lambda>b. char_of (unat b)) bs"

text \<open>\<open>std::string{buf, n}\<close>.\<close>

definition string_of :: "byte list \<Rightarrow> DWORD \<Rightarrow> string attempt" where
  "string_of buf n = (if unat n \<le> length buf then Done (chars (take (unat n) buf)) else Undefined BufferOverrun)"

section \<open>Keys\<close>

definition CreateKey :: "'w reg_api \<Rightarrow> HKEY \<Rightarrow> string \<Rightarrow> DWORD \<Rightarrow> 'w \<Rightarrow> HKEY attempt \<times> 'w" where
  "CreateKey A parent subKey sam w =
     (case RegCreateKeyEx A parent subKey sam w of ((code, key), w) \<Rightarrow>
        (if code \<noteq> ERROR_SUCCESS then Throw (RegistryError ''Unable to create registry key'' code) else Done key, w))"

definition OpenKey :: "'w reg_api \<Rightarrow> HKEY \<Rightarrow> string \<Rightarrow> DWORD \<Rightarrow> bool \<Rightarrow> 'w \<Rightarrow> HKEY attempt \<times> 'w" where
  "OpenKey A parent subKey sam create w =
     (case RegOpenKeyEx A w parent subKey sam of (code, key) \<Rightarrow>
        if code \<noteq> ERROR_SUCCESS then
          if create \<and> code = ERROR_FILE_NOT_FOUND then CreateKey A parent subKey sam w
          else (Throw (RegistryError ''Cannot open subkey from registry'' code), w)
        else (Done key, w))"

section \<open>Enumeration\<close>

definition RegSubKey :: "'w reg_api \<Rightarrow> 'w \<Rightarrow> HKEY \<Rightarrow> DWORD \<Rightarrow> DWORD \<Rightarrow> string attempt" where
  "RegSubKey A w key len index =
     (case RegEnumKeyEx A w key index len of (code, bs, nameLen) \<Rightarrow>
        abind (written (replicate (unat len) 0) bs) (\<lambda>nameBuffer.
        if code \<noteq> ERROR_SUCCESS then Throw (RegistryError ''Cannot get value info from the registry'' code)
        else string_of nameBuffer nameLen))"

definition RegValueType :: "'w reg_api \<Rightarrow> 'w \<Rightarrow> HKEY \<Rightarrow> DWORD \<Rightarrow> DWORD \<Rightarrow> (string \<times> DWORD) attempt" where
  "RegValueType A w key len index =
     (case RegEnumValue A w key index len of (code, bs, valueNameLen, valueType) \<Rightarrow>
        abind (written (replicate (unat len) 0) bs) (\<lambda>nameBuffer.
        if code \<noteq> ERROR_SUCCESS then Throw (RegistryError ''Cannot get value info from the registry'' code)
        else abind (string_of nameBuffer valueNameLen) (\<lambda>name. Done (name, valueType))))"

text \<open>The loop \<open>for (index = 0; index < valueCount; index++)\<close>, with \<open>n\<close> passes left.\<close>

primrec enumerate_from :: "(DWORD \<Rightarrow> 'a attempt) \<Rightarrow> nat \<Rightarrow> DWORD \<Rightarrow> 'a list attempt" where
  "enumerate_from f 0 index = Done []"
| "enumerate_from f (Suc n) index = abind (f index) (\<lambda>x. abind (enumerate_from f n (index + 1)) (\<lambda>xs. Done (x # xs)))"

definition RegEnumerateSubKeys :: "'w reg_api \<Rightarrow> 'w \<Rightarrow> HKEY \<Rightarrow> string list attempt" where
  "RegEnumerateSubKeys A w key =
     (case RegQueryInfoKey A w key of (code, (valueCount, maxLen), _) \<Rightarrow>
        if code \<noteq> ERROR_SUCCESS then Throw (RegistryError ''Cannot query key info from the registry'' code)
        else enumerate_from (RegSubKey A w key (maxLen + 1)) (unat valueCount) 0)"

definition RegEnumerateValues :: "'w reg_api \<Rightarrow> 'w \<Rightarrow> HKEY \<Rightarrow> (string \<times> DWORD) list attempt" where
  "RegEnumerateValues A w key =
     (case RegQueryInfoKey A w key of (code, _, (valueCount, maxValueNameLen)) \<Rightarrow>
        if code \<noteq> ERROR_SUCCESS then Throw (RegistryError ''Cannot query key info from the registry'' code)
        else enumerate_from (RegValueType A w key (maxValueNameLen + 1)) (unat valueCount) 0)"

section \<open>Values\<close>

text \<open>The macro \<open>HANDLE_ERROR\<close>.\<close>

definition handle_error :: "int \<Rightarrow> 'a \<Rightarrow> 'a attempt \<Rightarrow> 'a attempt" where
  "handle_error code defValue continue =
     (if code = ERROR_FILE_NOT_FOUND \<or> code = ERROR_BAD_PATHNAME then Done defValue
      else if code \<noteq> ERROR_SUCCESS then Throw (RegistryError ''Cannot read from registry.'' code)
      else continue)"

definition RegGetBoolean :: "'w reg_api \<Rightarrow> 'w \<Rightarrow> HKEY \<Rightarrow> string \<Rightarrow> string \<Rightarrow> bool \<Rightarrow> bool attempt" where
  "RegGetBoolean A w key subKey val defValue =
     (case RegGetValue A w key subKey val REG_BINARY (Some 1) of (code, bs, dataSize) \<Rightarrow>
        abind (written [0] bs) (\<lambda>data.
        handle_error code defValue
          (if data ! 0 = 0 then Done False else if data ! 0 = 1 then Done True else Undefined InvalidBool)))"

definition RegGetDword :: "'w reg_api \<Rightarrow> 'w \<Rightarrow> HKEY \<Rightarrow> string \<Rightarrow> string \<Rightarrow> DWORD \<Rightarrow> DWORD attempt" where
  "RegGetDword A w key subKey val defValue =
     (case RegGetValue A w key subKey val REG_DWORD (Some 4) of (code, bs, dataSize) \<Rightarrow>
        abind (written (replicate 4 0) bs) (\<lambda>data. handle_error code defValue (Done (le32 (data ! 0) (data ! 1) (data ! 2) (data ! 3)))))"

text \<open>The length is decremented as a 32-bit number, and the string is resized to it: a shorter one keeps its start, a longer
  one gets zero bytes.\<close>

definition resize :: "byte list \<Rightarrow> nat \<Rightarrow> byte list" where
  "resize data n = take n data @ replicate (n - length data) 0"

definition RegGetString :: "'w reg_api \<Rightarrow> 'w \<Rightarrow> 'w \<Rightarrow> HKEY \<Rightarrow> string \<Rightarrow> string \<Rightarrow> string \<Rightarrow> string attempt" where
  "RegGetString A w w' key subKey val defValue =
     (case RegGetValue A w key subKey val REG_SZ None of (code, _, dataSize) \<Rightarrow>
        handle_error code defValue
          (case RegGetValue A w' key subKey val REG_SZ (Some dataSize) of (code, bs, dataSize') \<Rightarrow>
             abind (written (replicate (unat dataSize) 0) bs) (\<lambda>data.
             handle_error code defValue (Done (chars (resize data (unat (dataSize' - 1))))))))"

section \<open>The configuration in the registry\<close>

definition baseKey :: string where
  "baseKey = ''SOFTWARE'' @ [CHR 0x5C] @ ''NetDevId'' @ [CHR 0x5C] @ ''DnsWrapper'' @ [CHR 0x5C] @ ''main''"

text \<open>\<open>seen k\<close> are the registries that the one or two calls for the value \<open>k\<close> find. A \<open>long\<close> has 32 bits on Windows.\<close>

definition Win32_getStringValue :: "'w reg_api \<Rightarrow> (string \<Rightarrow> 'w \<times> 'w) \<Rightarrow> string \<Rightarrow> string \<Rightarrow> string attempt" where
  "Win32_getStringValue A seen key defValue =
     RegGetString A (fst (seen key)) (snd (seen key)) HKEY_LOCAL_MACHINE baseKey key defValue"

definition Win32_getLongValue :: "'w reg_api \<Rightarrow> (string \<Rightarrow> 'w \<times> 'w) \<Rightarrow> string \<Rightarrow> int \<Rightarrow> int attempt" where
  "Win32_getLongValue A seen key defValue =
     abind (RegGetDword A (fst (seen key)) HKEY_LOCAL_MACHINE baseKey key (word_of_int defValue)) (\<lambda>d. Done (sint d))"

definition Win32_getBoolValue :: "'w reg_api \<Rightarrow> (string \<Rightarrow> 'w \<times> 'w) \<Rightarrow> string \<Rightarrow> bool \<Rightarrow> bool attempt" where
  "Win32_getBoolValue A seen key defValue =
     abind (RegGetDword A (fst (seen key)) HKEY_LOCAL_MACHINE baseKey key (of_bool defValue)) (\<lambda>d. Done (d \<noteq> 0))"

definition win_reader :: "'w reg_api \<Rightarrow> (string \<Rightarrow> 'w \<times> 'w) \<Rightarrow> getters" where
  "win_reader A seen = \<lparr>getStringValue = Win32_getStringValue A seen, getLongValue = Win32_getLongValue A seen,
     getBoolValue = Win32_getBoolValue A seen\<rparr>"

section \<open>What the system promises\<close>

text \<open>A value by its type, and the bytes that stand for it; a text has a terminating zero, which the system adds.\<close>

datatype reg_value = Text string | Number DWORD | Binary "byte list"

primrec kind_of :: "reg_value \<Rightarrow> value_kind" where
  "kind_of (Text t) = REG_SZ"
| "kind_of (Number d) = REG_DWORD"
| "kind_of (Binary b) = REG_BINARY"

definition text_bytes :: "string \<Rightarrow> byte list" where
  "text_bytes t = map (\<lambda>c. of_nat (of_char c)) t @ [0]"

primrec value_bytes :: "reg_value \<Rightarrow> byte list" where
  "value_bytes (Text t) = text_bytes t"
| "value_bytes (Number d) = rev (bytes32 d)"
| "value_bytes (Binary b) = b"

text \<open>
  What \<open>RegGetValue\<close> promises, for the value that is to be read or the code of the error that reading it meets
  (\<open>ERROR_FILE_NOT_FOUND\<close> for a value that is missing, but also any other). Nothing is written past the buffer. A
  value of another type than the one asked for fails with \<open>ERROR_UNSUPPORTED_TYPE\<close>. Without a buffer the call succeeds
  and stores a size that is enough; with a buffer that is large enough it succeeds, writes the bytes and stores their
  number, and with a smaller one it fails with \<open>ERROR_MORE_DATA\<close>.
\<close>

definition get_answer :: "int + reg_value \<Rightarrow> value_kind \<Rightarrow> DWORD option \<Rightarrow> int \<times> byte list \<times> DWORD \<Rightarrow> bool" where
  "get_answer v kind cap = (\<lambda>(code, bs, n).
     (case cap of None \<Rightarrow> True | Some m \<Rightarrow> length bs \<le> unat m) \<and>
     (case v of
        Inl e \<Rightarrow> code = e \<and> e \<noteq> ERROR_SUCCESS
      | Inr x \<Rightarrow>
          if kind_of x \<noteq> kind then code = ERROR_UNSUPPORTED_TYPE
          else (case cap of
              None \<Rightarrow> code = ERROR_SUCCESS \<and> length (value_bytes x) \<le> unat n
            | Some m \<Rightarrow>
                if length (value_bytes x) \<le> unat m
                then code = ERROR_SUCCESS \<and> bs = value_bytes x \<and> unat n = length (value_bytes x)
                else code = ERROR_MORE_DATA)))"

definition get_law :: "'w reg_api \<Rightarrow> ('w \<Rightarrow> HKEY \<Rightarrow> string \<Rightarrow> string \<Rightarrow> int + reg_value) \<Rightarrow> bool" where
  "get_law A stored \<longleftrightarrow> (\<forall>w key subKey val kind cap.
     get_answer (stored w key subKey val) kind cap (RegGetValue A w key subKey val kind cap))"

lemma get_lawD: "get_law A stored \<Longrightarrow> get_answer (stored w key subKey val) kind cap (RegGetValue A w key subKey val kind cap)"
  unfolding get_law_def by blast

lemma chars_text_bytes: "chars (take (length t) (text_bytes t @ xs)) = t"
proof -
  have "char_of (unat (of_nat (of_char c) :: byte)) = c" for c
  proof -
    have "(of_char c :: nat) < 256" by (rule nat_of_char_less_256)
    then have "unat (of_nat (of_char c) :: byte) = of_char c" by (simp add: unat_of_nat)
    then show ?thesis by simp
  qed
  then show ?thesis by (simp add: chars_def text_bytes_def comp_def)
qed

lemma length_text_bytes [simp]: "length (text_bytes t) = length t + 1"
  by (simp add: text_bytes_def)

lemma unat_size:
  assumes "n + 1 < 2 ^ 32"
  shows "unat (of_nat (n + 1) :: u32) = n + 1" and "unat ((of_nat (n + 1) :: u32) - 1) = n"
proof -
  have "unat (of_nat (n + 1) :: u32) = (n + 1) mod 2 ^ LENGTH(32)" by (rule unat_of_nat)
  then show "unat (of_nat (n + 1) :: u32) = n + 1" using assms by simp
  have "(of_nat (n + 1) :: u32) - 1 = of_nat n" by simp
  then show "unat ((of_nat (n + 1) :: u32) - 1) = n" using assms by (simp add: unat_of_nat)
qed

text \<open>How a read ends that meets an error.\<close>

definition read_failed :: "int \<Rightarrow> 'a \<Rightarrow> 'a attempt" where
  "read_failed e defValue = (if e = 2 \<or> e = 161 then Done defValue else Throw (RegistryError ''Cannot read from registry.'' e))"

lemma handle_error_failed: "e \<noteq> ERROR_SUCCESS \<Longrightarrow> handle_error e defValue m = read_failed e defValue"
  by (simp add: handle_error_def read_failed_def)

lemma written_fits: "length w \<le> length buf \<Longrightarrow> written buf w = Done (w @ drop (length w) buf)"
  by (simp add: written_def)

lemma RegGetDword_eq:
  assumes "get_law A stored"
  shows "RegGetDword A w key subKey val defValue = (case stored w key subKey val of
      Inl e \<Rightarrow> read_failed e defValue
    | Inr (Number d) \<Rightarrow> Done d
    | Inr _ \<Rightarrow> read_failed ERROR_UNSUPPORTED_TYPE defValue)"
proof -
  obtain code bs n where r: "RegGetValue A w key subKey val REG_DWORD (Some 4) = (code, bs, n)" by (cases rule: prod_cases3)
  from get_lawD [OF assms, of w key subKey val REG_DWORD "Some 4"] r
  have a: "get_answer (stored w key subKey val) REG_DWORD (Some 4) (code, bs, n)" by simp
  then have "length bs \<le> 4" by (simp add: get_answer_def)
  then have e: "RegGetDword A w key subKey val defValue =
      handle_error code defValue (Done (let data = bs @ drop (length bs) (replicate 4 0) in le32 (data ! 0) (data ! 1) (data ! 2) (data ! 3)))"
    by (simp add: RegGetDword_def r written_fits Let_def)
  show ?thesis
  proof (cases "stored w key subKey val")
    case (Inl c)
    with a e show ?thesis by (simp add: get_answer_def handle_error_failed)
  next
    case (Inr x)
    with a e show ?thesis
      by (cases x) (simp_all add: get_answer_def handle_error_failed, simp add: handle_error_def bytes32_def le32_def byte_simps)
  qed
qed

text \<open>The second call for a text, with the size that the first one stored.\<close>

lemma second_call:
  assumes "get_law A stored" and "RegGetValue A w key subKey val REG_SZ (Some m) = (code, bs, n)"
  shows "abind (written (replicate (unat m) 0) bs) (\<lambda>data. handle_error code defValue (Done (chars (resize data (unat (n - 1)))))) =
    (case stored w key subKey val of
      Inl e \<Rightarrow> read_failed e defValue
    | Inr (Text t) \<Rightarrow> if length t < unat m then Done t else read_failed ERROR_MORE_DATA defValue
    | Inr _ \<Rightarrow> read_failed ERROR_UNSUPPORTED_TYPE defValue)"
proof -
  from get_lawD [OF assms(1), of w key subKey val REG_SZ "Some m"] assms(2)
  have a: "get_answer (stored w key subKey val) REG_SZ (Some m) (code, bs, n)" by simp
  then have "length bs \<le> unat m" by (simp add: get_answer_def)
  then have e: "abind (written (replicate (unat m) 0) bs) (\<lambda>data. handle_error code defValue (Done (chars (resize data (unat (n - 1)))))) =
      handle_error code defValue (Done (chars (resize (bs @ replicate (unat m - length bs) 0) (unat (n - 1)))))"
    by (simp add: written_fits)
  show ?thesis
  proof (cases "stored w key subKey val")
    case (Inl c)
    with a e show ?thesis by (simp add: get_answer_def handle_error_failed)
  next
    case (Inr x)
    show ?thesis
    proof (cases "\<exists>t. x = Text t \<and> length t < unat m")
      case True
      then obtain t where t: "x = Text t" "length t < unat m" by blast
      with a Inr have ok: "code = ERROR_SUCCESS" "bs = text_bytes t" "unat n = length t + 1"
        by (simp_all add: get_answer_def)
      then have "n \<noteq> 0" by auto
      then have "unat (n - 1) = length t" using ok(3) by (simp add: unat_minus_one)
      moreover have "chars (resize (text_bytes t @ ys) (length t)) = t" for ys
        using chars_text_bytes [of t ys] by (simp add: resize_def)
      ultimately show ?thesis using e ok Inr t by (simp add: handle_error_def)
    next
      case False
      with a e Inr show ?thesis by (cases x) (auto simp: get_answer_def handle_error_failed)
    qed
  qed
qed

lemma RegGetString_eq:
  assumes "get_law A stored"
  obtains m :: DWORD where "\<And>t. stored w key subKey val = Inr (Text t) \<Longrightarrow> length t < unat m"
    and "RegGetString A w w' key subKey val defValue = (case stored w key subKey val of
      Inl e \<Rightarrow> read_failed e defValue
    | Inr (Text t) \<Rightarrow> (case stored w' key subKey val of
          Inl e \<Rightarrow> read_failed e defValue
        | Inr (Text t') \<Rightarrow> if length t' < unat m then Done t' else read_failed ERROR_MORE_DATA defValue
        | Inr _ \<Rightarrow> read_failed ERROR_UNSUPPORTED_TYPE defValue)
    | Inr _ \<Rightarrow> read_failed ERROR_UNSUPPORTED_TYPE defValue)"
proof -
  obtain code bs m where r: "RegGetValue A w key subKey val REG_SZ None = (code, bs, m)" by (cases rule: prod_cases3)
  obtain code' bs' n where r': "RegGetValue A w' key subKey val REG_SZ (Some m) = (code', bs', n)" by (cases rule: prod_cases3)
  from get_lawD [OF assms, of w key subKey val REG_SZ None] r
  have a: "get_answer (stored w key subKey val) REG_SZ None (code, bs, m)" by simp
  show thesis
  proof (rule that [of m])
    show "length t < unat m" if "stored w key subKey val = Inr (Text t)" for t
      using a that by (simp add: get_answer_def)
    have "RegGetString A w w' key subKey val defValue = handle_error code defValue
        (abind (written (replicate (unat m) 0) bs') (\<lambda>data. handle_error code' defValue (Done (chars (resize data (unat (n - 1)))))))"
      by (simp add: RegGetString_def r r')
    also note second_call [OF assms r']
    finally show "RegGetString A w w' key subKey val defValue = (case stored w key subKey val of
        Inl e \<Rightarrow> read_failed e defValue
      | Inr (Text t) \<Rightarrow> (case stored w' key subKey val of
            Inl e \<Rightarrow> read_failed e defValue
          | Inr (Text t') \<Rightarrow> if length t' < unat m then Done t' else read_failed ERROR_MORE_DATA defValue
          | Inr _ \<Rightarrow> read_failed ERROR_UNSUPPORTED_TYPE defValue)
      | Inr _ \<Rightarrow> read_failed ERROR_UNSUPPORTED_TYPE defValue)"
      using a by (cases "stored w key subKey val" rule: sum.exhaust; cases "projr (stored w key subKey val)")
        (simp_all add: get_answer_def handle_error_failed, simp add: handle_error_def)
  qed
qed

section \<open>The settings\<close>

definition registry_settings :: "(string \<Rightarrow> int + reg_value) \<Rightarrow> settings" where
  "registry_settings val =
     \<lparr>text_setting = \<lambda>k t. (case val k of Inr (Text u) \<Rightarrow> u | _ \<Rightarrow> t),
      number_setting = \<lambda>k n. (case val k of Inr (Number d) \<Rightarrow> sint d | _ \<Rightarrow> sint (word_of_int n :: DWORD)),
      flag_setting = \<lambda>k b. (case val k of Inr (Number d) \<Rightarrow> d \<noteq> 0 | _ \<Rightarrow> b)\<rparr>"

text \<open>The values in the order in which they are read: those that always are, and those of the further servers.\<close>

definition read_always :: "(string \<times> value_kind) list" where
  "read_always = [(''logToConsoleAlso'', REG_DWORD), (''logFile'', REG_SZ), (''logLevel'', REG_SZ), (''dnsPort'', REG_DWORD),
     (''ruleFile'', REG_SZ), (''serverIp1'', REG_SZ), (''serverPort1'', REG_DWORD), (''protocol1'', REG_SZ)]"

definition read_further :: "(string \<times> value_kind) list" where
  "read_further = [(''serverIp2'', REG_SZ), (''serverPort2'', REG_DWORD), (''protocol2'', REG_SZ),
     (''serverIp3'', REG_SZ), (''serverPort3'', REG_DWORD), (''protocol3'', REG_SZ)]"

text \<open>The code of the error that reading a value ends with, if it does: a missing value is none.\<close>

definition problem :: "(string \<Rightarrow> int + reg_value) \<Rightarrow> string \<times> value_kind \<Rightarrow> int option" where
  "problem val = (\<lambda>(k, kind). case val k of
     Inl e \<Rightarrow> if e = 2 \<or> e = 161 then None else Some e
   | Inr v \<Rightarrow> if kind_of v = kind then None else Some 1630)"

lemma win_reader_eq:
  assumes "get_law A stored" and "stored w HKEY_LOCAL_MACHINE baseKey = val"
  shows "getStringValue (win_reader A (\<lambda>k. (w, w))) k t = (case problem val (k, REG_SZ) of
      Some e \<Rightarrow> Throw (RegistryError ''Cannot read from registry.'' e) | None \<Rightarrow> Done (text_setting (registry_settings val) k t))"
    and "getLongValue (win_reader A (\<lambda>k. (w, w))) k n = (case problem val (k, REG_DWORD) of
      Some e \<Rightarrow> Throw (RegistryError ''Cannot read from registry.'' e) | None \<Rightarrow> Done (number_setting (registry_settings val) k n))"
    and "getBoolValue (win_reader A (\<lambda>k. (w, w))) k b = (case problem val (k, REG_DWORD) of
      Some e \<Rightarrow> Throw (RegistryError ''Cannot read from registry.'' e) | None \<Rightarrow> Done (flag_setting (registry_settings val) k b))"
proof -
  note defs = win_reader_def Win32_getStringValue_def Win32_getLongValue_def Win32_getBoolValue_def assms(2) problem_def
    registry_settings_def read_failed_def
  obtain m :: DWORD where m: "\<And>u. val k = Inr (Text u) \<Longrightarrow> length u < unat m"
    and r: "RegGetString A w w HKEY_LOCAL_MACHINE baseKey k t = (case val k of
      Inl e \<Rightarrow> read_failed e t
    | Inr (Text u) \<Rightarrow> (case val k of
          Inl e \<Rightarrow> read_failed e t
        | Inr (Text u') \<Rightarrow> if length u' < unat m then Done u' else read_failed ERROR_MORE_DATA t
        | Inr _ \<Rightarrow> read_failed ERROR_UNSUPPORTED_TYPE t)
    | Inr _ \<Rightarrow> read_failed ERROR_UNSUPPORTED_TYPE t)"
    using RegGetString_eq [OF assms(1), of w HKEY_LOCAL_MACHINE baseKey k w t] unfolding assms(2) by blast
  from m r show "getStringValue (win_reader A (\<lambda>k. (w, w))) k t = (case problem val (k, REG_SZ) of
      Some e \<Rightarrow> Throw (RegistryError ''Cannot read from registry.'' e) | None \<Rightarrow> Done (text_setting (registry_settings val) k t))"
    by (auto simp: defs split: sum.splits reg_value.splits)
  show "getLongValue (win_reader A (\<lambda>k. (w, w))) k n = (case problem val (k, REG_DWORD) of
      Some e \<Rightarrow> Throw (RegistryError ''Cannot read from registry.'' e) | None \<Rightarrow> Done (number_setting (registry_settings val) k n))"
    "getBoolValue (win_reader A (\<lambda>k. (w, w))) k b = (case problem val (k, REG_DWORD) of
      Some e \<Rightarrow> Throw (RegistryError ''Cannot read from registry.'' e) | None \<Rightarrow> Done (flag_setting (registry_settings val) k b))"
    by (auto simp: defs RegGetDword_eq [OF assms(1)] split: sum.splits reg_value.splits)
qed

text \<open>
  C37. The configuration in the registry. When every value is either missing or of the expected type, a configuration
  loads as it does from the settings that the registry holds, with the defaults for the missing ones: a number is read with
  its 32 bits as a signed one, and a flag is true when its number is not zero. Otherwise the first value, in the order of
  reading, that is always read and cannot be read, for any error of the system or because it has another type, makes
  loading throw the code of its error.
\<close>

theorem registry_configuration:
  assumes "get_law A stored" and "stored w HKEY_LOCAL_MACHINE baseKey = val"
  shows "(list_all (\<lambda>k. problem val k = None) (read_always @ read_further) \<longrightarrow>
      LoadConfiguration Win32 from_string to_string (win_reader A (\<lambda>k. (w, w))) c =
      LoadConfiguration Win32 from_string to_string (answering (registry_settings val)) c) \<and>
    (\<forall>e es. List.map_filter (problem val) read_always = e # es \<longrightarrow>
      LoadConfiguration Win32 from_string to_string (win_reader A (\<lambda>k. (w, w))) c =
      Throw (RegistryError ''Cannot read from registry.'' e))"
proof (intro conjI allI impI)
  note r = win_reader_eq [OF assms]
  assume ok: "list_all (\<lambda>k. problem val k = None) (read_always @ read_further)"
  then have f: "addFurther (win_reader A (\<lambda>k. (w, w))) ''2'' = addFurther (answering (registry_settings val)) ''2''"
    "addFurther (win_reader A (\<lambda>k. (w, w))) ''3'' = addFurther (answering (registry_settings val)) ''3''"
    by (simp_all add: addFurther_def fun_eq_iff r read_further_def cong: if_cong)
  show "LoadConfiguration Win32 from_string to_string (win_reader A (\<lambda>k. (w, w))) c =
      LoadConfiguration Win32 from_string to_string (answering (registry_settings val)) c"
    using ok by (simp add: LoadConfiguration_def f r read_always_def)
next
  note r = win_reader_eq [OF assms]
  fix e es
  assume "List.map_filter (problem val) read_always = e # es"
  then show "LoadConfiguration Win32 from_string to_string (win_reader A (\<lambda>k. (w, w))) c =
      Throw (RegistryError ''Cannot read from registry.'' e)"
    unfolding LoadConfiguration_def r read_always_def by (simp add: map_filter_simps split: option.splits)
qed

text \<open>
  C36. Reading a text. The two calls may see two registries. An error of the system at one of them, be it for a missing
  value or any other, gives the default when it is \<open>ERROR_FILE_NOT_FOUND\<close> or \<open>ERROR_BAD_PATHNAME\<close> and throws its code
  otherwise; a value of another type throws. Otherwise the result is the text that the second call found, whole and
  without the terminating zero, unless it became longer and the call throws \<open>ERROR_MORE_DATA\<close>: no reader ever gets a mixture
  of two texts, nothing is written past the buffer, and the length never wraps around.
\<close>

theorem registry_text_snapshot:
  assumes "get_law A stored"
  shows "case stored w key subKey val of
       Inl e \<Rightarrow> RegGetString A w w' key subKey val defValue =
         (if e = 2 \<or> e = 161 then Done defValue else Throw (RegistryError ''Cannot read from registry.'' e))
     | Inr (Text t) \<Rightarrow> (case stored w' key subKey val of
           Inl e \<Rightarrow> RegGetString A w w' key subKey val defValue =
             (if e = 2 \<or> e = 161 then Done defValue else Throw (RegistryError ''Cannot read from registry.'' e))
         | Inr (Text t') \<Rightarrow> RegGetString A w w' key subKey val defValue = Done t' \<or>
             (length t < length t' \<and> RegGetString A w w' key subKey val defValue = Throw (RegistryError ''Cannot read from registry.'' 234))
         | Inr _ \<Rightarrow> RegGetString A w w' key subKey val defValue = Throw (RegistryError ''Cannot read from registry.'' 1630))
     | Inr _ \<Rightarrow> RegGetString A w w' key subKey val defValue = Throw (RegistryError ''Cannot read from registry.'' 1630)"
proof -
  obtain m :: DWORD where m: "\<And>t. stored w key subKey val = Inr (Text t) \<Longrightarrow> length t < unat m"
    and r: "RegGetString A w w' key subKey val defValue = (case stored w key subKey val of
      Inl e \<Rightarrow> read_failed e defValue
    | Inr (Text t) \<Rightarrow> (case stored w' key subKey val of
          Inl e \<Rightarrow> read_failed e defValue
        | Inr (Text t') \<Rightarrow> if length t' < unat m then Done t' else read_failed ERROR_MORE_DATA defValue
        | Inr _ \<Rightarrow> read_failed ERROR_UNSUPPORTED_TYPE defValue)
    | Inr _ \<Rightarrow> read_failed ERROR_UNSUPPORTED_TYPE defValue)"
    using RegGetString_eq [OF assms] by blast
  show ?thesis using m unfolding r by (auto simp: read_failed_def split: sum.split reg_value.split)
qed

section \<open>Enumeration of keys and values\<close>

text \<open>The system gives the names by their index and the length of the longest one, which is below 16384.\<close>

definition name_result :: "'a list \<Rightarrow> ('a \<Rightarrow> string) \<Rightarrow> DWORD \<Rightarrow> DWORD \<Rightarrow> int \<times> byte list \<times> DWORD" where
  "name_result xs name index len =
     (if unat index \<ge> length xs then (259, [], len)
      else let n = name (xs ! unat index) in
        if length n + 1 \<le> unat len then (ERROR_SUCCESS, text_bytes n, of_nat (length n)) else (ERROR_MORE_DATA, [], len))"

primrec longest :: "string list \<Rightarrow> nat" where
  "longest [] = 0"
| "longest (n # ns) = max (length n) (longest ns)"

definition enum_law ::
  "'w reg_api \<Rightarrow> 'w \<Rightarrow> HKEY \<Rightarrow> string list \<Rightarrow> (string \<times> DWORD) list \<Rightarrow> bool" where
  "enum_law A w key ks vs \<longleftrightarrow>
     RegQueryInfoKey A w key = (ERROR_SUCCESS, (of_nat (length ks), of_nat (longest ks)), (of_nat (length vs), of_nat (longest (map fst vs)))) \<and>
     (\<forall>i len. RegEnumKeyEx A w key i len = name_result ks id i len) \<and>
     (\<forall>i len. RegEnumValue A w key i len =
        (case name_result vs fst i len of (code, bs, n) \<Rightarrow> (code, bs, n, if unat i < length vs then snd (vs ! unat i) else 0))) \<and>
     length ks < 2 ^ 32 \<and> length vs < 2 ^ 32 \<and> longest ks < 16384 \<and> longest (map fst vs) < 16384"

lemma longest_le: "n \<in> set ns \<Longrightarrow> length n \<le> longest ns"
  by (induction ns) (auto simp: le_max_iff_disj)

lemma enumerate_from_all:
  assumes "\<And>i. i < length xs \<Longrightarrow> f (of_nat i) = Done (xs ! i)"
  shows "j + n = length xs \<Longrightarrow> enumerate_from f n (of_nat j) = Done (drop j xs)"
proof (induction n arbitrary: j)
  case (Suc n)
  have "enumerate_from f n (of_nat j + 1) = Done (drop (Suc j) xs)" using Suc.IH [of "Suc j"] Suc.prems by (simp add: add.commute)
  with assms [of j] Suc.prems show ?case by (simp add: Cons_nth_drop_Suc [symmetric])
qed simp

lemma name_read:
  assumes "length n < 16384" and "length n + 1 \<le> unat len"
  shows "abind (written (replicate (unat len) 0) (text_bytes n)) (\<lambda>b. string_of b (of_nat (length n))) = Done n"
    and "abind (written (replicate (unat len) 0) (text_bytes n)) (\<lambda>b. abind (string_of b (of_nat (length n))) g) = g n"
proof -
  have u: "unat (of_nat (length n) :: u32) = length n" using assms(1) by (simp add: unat_of_nat)
  have "chars (take (length n) (text_bytes n @ xs)) = n" for xs by (rule chars_text_bytes)
  then show "abind (written (replicate (unat len) 0) (text_bytes n)) (\<lambda>b. string_of b (of_nat (length n))) = Done n"
    "abind (written (replicate (unat len) 0) (text_bytes n)) (\<lambda>b. abind (string_of b (of_nat (length n))) g) = g n"
    using assms(2) by (simp_all add: written_def string_of_def u)
qed

lemma capacity: "m < 16384 \<Longrightarrow> unat (of_nat m + 1 :: u32) = m + 1"
proof -
  assume "m < 16384"
  then have "unat (of_nat (m + 1) :: u32) = m + 1" by (intro unat_size) simp
  then show ?thesis by (simp add: add.commute)
qed

text \<open>
  Enumerating a key gives all names of its subkeys in the order of the system, and enumerating its values all names
  with their types: the buffers are long enough for every name, and no index is left out.
\<close>

theorem registry_enumerated:
  assumes "enum_law A w key ks vs"
  shows "RegEnumerateSubKeys A w key = Done ks \<and> RegEnumerateValues A w key = Done vs"
proof
  have len: "length n < 16384" "length n + 1 \<le> unat (of_nat (longest ns) + 1 :: u32)" if "n \<in> set ns" "longest ns < 16384" for n ns
    using longest_le [OF that(1)] that(2) capacity [OF that(2)] by simp_all
  have idx: "unat (of_nat i :: u32) = i" if "i < 2 ^ 32" for i
  proof -
    have "unat (of_nat i :: u32) = i mod 2 ^ LENGTH(32)" by (rule unat_of_nat)
    then show ?thesis using that by simp
  qed
  note law = assms [unfolded enum_law_def]
  have "RegSubKey A w key (of_nat (longest ks) + 1) (of_nat i) = Done (ks ! i)" if "i < length ks" for i
    using that law len [of "ks ! i" ks] name_read(1) [of "ks ! i" "of_nat (longest ks) + 1"] idx [of i]
    by (simp add: RegSubKey_def name_result_def Let_def)
  from enumerate_from_all [of ks, OF this, of 0 "length ks"] show "RegEnumerateSubKeys A w key = Done ks"
    using law idx [of "length ks"] by (simp add: RegEnumerateSubKeys_def)
  have "RegValueType A w key (of_nat (longest (map fst vs)) + 1) (of_nat i) = Done (vs ! i)" if "i < length vs" for i
    using that law len [of "fst (vs ! i)" "map fst vs"] name_read(2) [of "fst (vs ! i)" "of_nat (longest (map fst vs)) + 1" "\<lambda>name. Done (name, snd (vs ! i))"]
      idx [of i]
    by (auto simp: RegValueType_def name_result_def Let_def)
  from enumerate_from_all [of vs, OF this, of 0 "length vs"] show "RegEnumerateValues A w key = Done vs"
    using law idx [of "length vs"] by (simp add: RegEnumerateValues_def)
qed

section \<open>Witnesses\<close>

text \<open>A registry is the map of its values, with a second registry in which one of them is shorter.\<close>

type_synonym registry = "string \<Rightarrow> reg_value option"

text \<open>An error other than the one of a missing value is met at the value of the name \<open>secret\<close>.\<close>

definition sample_stored :: "registry \<Rightarrow> HKEY \<Rightarrow> string \<Rightarrow> string \<Rightarrow> int + reg_value" where
  "sample_stored w k s v = (if v = ''secret'' then Inl 5
     else case w v of Some x \<Rightarrow> if length (value_bytes x) < 2 ^ 32 then Inr x else Inl 2 | None \<Rightarrow> Inl 2)"

fun sample_get :: "int + reg_value \<Rightarrow> value_kind \<Rightarrow> DWORD option \<Rightarrow> int \<times> byte list \<times> DWORD" where
  "sample_get (Inl e) kind cap = (e, [], 0)"
| "sample_get (Inr x) kind cap =
     (if kind_of x \<noteq> kind then (1630, [], 0)
      else case cap of None \<Rightarrow> (0, [], of_nat (length (value_bytes x)))
        | Some m \<Rightarrow> if length (value_bytes x) \<le> unat m then (0, value_bytes x, of_nat (length (value_bytes x))) else (234, [], 0))"

definition sample_api :: "registry reg_api" where
  "sample_api = \<lparr>RegOpenKeyEx = \<lambda>w k s a. (0, 1), RegCreateKeyEx = \<lambda>k s a w. ((0, 1), w),
     RegQueryInfoKey = \<lambda>w k. (0, (2, 5), (1, 4)),
     RegEnumKeyEx = \<lambda>w k. name_result [''first'', ''2nd''] id,
     RegEnumValue = \<lambda>w k i len. (case name_result [(''port'', 4 :: DWORD)] fst i len of (code, bs, n) \<Rightarrow>
        (code, bs, n, if unat i < length [(''port'', 4 :: DWORD)] then snd ([(''port'', 4 :: DWORD)] ! unat i) else 0)),
     RegGetValue = \<lambda>w k s v. sample_get (sample_stored w k s v)\<rparr>"

lemma sample_get_law: "get_law sample_api sample_stored"
proof -
  have u: "unat (of_nat n :: u32) = n" if "n < 2 ^ 32" for n
  proof -
    have "unat (of_nat n :: u32) = n mod 2 ^ LENGTH(32)" by (rule unat_of_nat)
    then show ?thesis using that by simp
  qed
  have "get_answer v kind cap (sample_get v kind cap)"
    if "case v of Inl e \<Rightarrow> e \<noteq> 0 | Inr x \<Rightarrow> length (value_bytes x) < 2 ^ 32" for v kind cap
    using that u by (cases "(v, kind, cap)" rule: sample_get.cases) (auto simp: get_answer_def split: option.splits)
  moreover have "case sample_stored w k s v of Inl e \<Rightarrow> e \<noteq> 0 | Inr x \<Rightarrow> length (value_bytes x) < 2 ^ 32" for w k s v
    by (simp add: sample_stored_def split: option.split)
  ultimately show ?thesis by (simp add: get_law_def sample_api_def)
qed

theorem registry_text_snapshot_witness:
  "(RegGetString sample_api [''logFile'' \<mapsto> Text ''abc''] [''logFile'' \<mapsto> Text ''de''] 0 [] ''logFile'' [] = Done ''de'') \<and>
   RegGetString sample_api Map.empty Map.empty 0 [] ''logFile'' ''x'' = Done ''x'' \<and>
   RegGetString sample_api Map.empty Map.empty 0 [] ''secret'' [] = Throw (RegistryError ''Cannot read from registry.'' 5)"
  using registry_text_snapshot [OF sample_get_law, where w = "[''logFile'' \<mapsto> Text ''abc'']" and w' = "[''logFile'' \<mapsto> Text ''de'']" and key = 0 and subKey = "[]" and val = "''logFile''" and defValue = "[]"]
    registry_text_snapshot [OF sample_get_law, where w = "Map.empty" and w' = "Map.empty" and key = 0 and subKey = "[]" and val = "''logFile''" and defValue = "''x''"]
    registry_text_snapshot [OF sample_get_law, where w = "Map.empty" and w' = "Map.empty" and key = 0 and subKey = "[]" and val = "''secret''" and defValue = "[]"]
  by (simp add: sample_stored_def text_bytes_def)

theorem registry_enumerated_witness:
  "RegEnumerateSubKeys sample_api Map.empty 0 = Done [''first'', ''2nd''] \<and> RegEnumerateValues sample_api Map.empty 0 = Done [(''port'', 4 :: DWORD)]"
proof (rule registry_enumerated)
  show "enum_law sample_api Map.empty 0 [''first'', ''2nd''] [(''port'', 4 :: DWORD)]"
    unfolding enum_law_def by (intro conjI allI) (simp_all add: sample_api_def)
qed

definition port_number :: registry where
  "port_number = [''dnsPort'' \<mapsto> Number 5353]"

definition port_text :: registry where
  "port_text = [''dnsPort'' \<mapsto> Text ''53'']"

lemma sample_registries:
  "sample_stored port_number k b = (\<lambda>v. if v = ''secret'' then Inl 5 else if v = ''dnsPort'' then Inr (Number 5353) else Inl 2)"
  "sample_stored port_text k b = (\<lambda>v. if v = ''secret'' then Inl 5 else if v = ''dnsPort'' then Inr (Text ''53'') else Inl 2)"
  by (auto simp: sample_stored_def fun_eq_iff port_number_def port_text_def text_bytes_def bytes32_def)

theorem registry_configuration_witness:
  "\<forall>c. LoadConfiguration Win32 Map.empty Map.empty (win_reader sample_api (\<lambda>k. (port_number, port_number))) c =
     LoadConfiguration Win32 Map.empty Map.empty
       (answering (registry_settings (sample_stored port_number HKEY_LOCAL_MACHINE baseKey))) c \<and>
   LoadConfiguration Win32 Map.empty Map.empty (win_reader sample_api (\<lambda>k. (port_text, port_text))) c =
     Throw (RegistryError ''Cannot read from registry.'' 1630)"
proof -
  have "list_all (\<lambda>k. problem (sample_stored port_number HKEY_LOCAL_MACHINE baseKey) k = None) (read_always @ read_further)"
    by (simp add: sample_registries problem_def read_always_def read_further_def)
  moreover have "List.map_filter (problem (sample_stored port_text HKEY_LOCAL_MACHINE baseKey)) read_always = 1630 # []"
    by (simp add: sample_registries problem_def read_always_def map_filter_simps)
  ultimately show ?thesis using registry_configuration [OF sample_get_law refl] by blast
qed

end
