(* ===== verification/Win_Service.thy ===== *)
theory Win_Service
  imports Daemon_Process
begin

text \<open>
  \<^verbatim>\<open>src/win32/service.cpp\<close>, \<^verbatim>\<open>src/win32/win32daemonrunner.cpp\<close> and \<^verbatim>\<open>src/win32/win32daemon.cpp\<close>: the program as a
  Windows service. The system runs \<open>ServiceExecutor\<close> on one thread and calls \<open>HandlerEx\<close> on another for every control
  that the last report accepts, one control at a time. The two threads share the global variables and the daemon; the
  state has a program counter for each, and a step is what one thread does between two calls that the other can see.
\<close>

section \<open>State\<close>

datatype svc_state = NoState | START_PENDING | RUNNING | STOP_PENDING | STOPPED

datatype handle_state = INVALID_HANDLE | OpenHandle | ClosedHandle

datatype daemon_ptr = NullDaemon | LiveDaemon | DeletedDaemon

datatype executor_pc = Entry | Registered | Pending | EventMade | Constructed | Initialized | Ready | InStart | Returned
  | StopReported | HandleClosed | Ended | Terminated

datatype handler_pc = Idle | Stopping | Deleting

record service =
  g_StatusHandle :: bool
  g_StopEvent :: handle_state
  g_CurrentState :: svc_state
  daemon_p :: daemon_ptr
  loop_stopped :: bool
  status_reports :: "(svc_state \<times> bool) list"
  executor_at :: executor_pc
  handler_at :: handler_pc

definition service_start :: service where
  "service_start = \<lparr>g_StatusHandle = False, g_StopEvent = INVALID_HANDLE, g_CurrentState = NoState, daemon_p = NullDaemon,
     loop_stopped = False, status_reports = [], executor_at = Entry, handler_at = Idle\<rparr>"

section \<open>Operations\<close>

text \<open>A report carries the state and whether the service accepts the stop and shutdown controls.\<close>

definition ReportStatus :: "svc_state \<Rightarrow> service \<Rightarrow> service" where
  "ReportStatus st s = s\<lparr>g_CurrentState := st, status_reports := status_reports s @ [(st, st \<noteq> START_PENDING)]\<rparr>"

definition use_daemon :: "service \<Rightarrow> unit outcome" where
  "use_daemon s = (case daemon_p s of NullDaemon \<Rightarrow> Undef NullDeref | DeletedDaemon \<Rightarrow> Undef UseAfterFree | LiveDaemon \<Rightarrow> Ret ())"

text \<open>
  In a service the program runs in daemon mode with a valid event. \<open>platformInit\<close> then gives the event to a local
  \<open>object_handle\<close>, whose destructor cancels the wait and closes the event.
\<close>

definition Win32_platformInit :: "bool \<Rightarrow> service \<Rightarrow> service" where
  "Win32_platformInit mode s =
     (if \<not> mode \<or> g_StopEvent s = INVALID_HANDLE then s else s\<lparr>g_StopEvent := ClosedHandle\<rparr>)"

text \<open>The two halves of \<open>ServiceInit\<close>; \<open>init_ok\<close> tells whether \<open>Initialize\<close> returns rather than throws.\<close>

definition ServiceInit_new :: "service \<Rightarrow> service" where
  "ServiceInit_new s = s\<lparr>daemon_p := LiveDaemon\<rparr>"

definition ServiceInit_initialize :: "bool \<Rightarrow> service \<Rightarrow> service outcome" where
  "ServiceInit_initialize init_ok s =
     obind (use_daemon s) (\<lambda>_. if init_ok then Ret ((Win32_platformInit True s)\<lparr>executor_at := Initialized\<rparr>)
       else Ret (s\<lparr>executor_at := Terminated\<rparr>))"

text \<open>\<open>ServiceStart\<close>: \<open>serve_ok\<close> tells whether the server could be set up, otherwise \<open>Start\<close> returns at once. In its loop
  \<open>Start\<close> returns when the loop was stopped.\<close>

definition ServiceStart_enter :: "bool \<Rightarrow> service \<Rightarrow> service outcome" where
  "ServiceStart_enter serve_ok s = obind (use_daemon s) (\<lambda>_. Ret (s\<lparr>executor_at := (if serve_ok then InStart else Returned)\<rparr>))"

definition ServiceStart_loop :: "service \<Rightarrow> service outcome" where
  "ServiceStart_loop s = obind (use_daemon s) (\<lambda>_. Ret (if loop_stopped s then s\<lparr>executor_at := Returned\<rparr> else s))"

definition ServiceStop_stop :: "service \<Rightarrow> service outcome" where
  "ServiceStop_stop s = obind (use_daemon s) (\<lambda>_. Ret (s\<lparr>loop_stopped := True, handler_at := Deleting\<rparr>))"

definition ServiceStop_delete :: "service \<Rightarrow> service outcome" where
  "ServiceStop_delete s = obind (use_daemon s) (\<lambda>_. Ret (s\<lparr>daemon_p := DeletedDaemon, handler_at := Idle\<rparr>))"

section \<open>The thread of the service\<close>

definition ServiceExecutor :: "bool \<Rightarrow> bool \<Rightarrow> service \<Rightarrow> service outcome" where
  "ServiceExecutor init_ok serve_ok s = (case executor_at s of
       Entry \<Rightarrow> Ret (s\<lparr>g_StatusHandle := True, executor_at := Registered\<rparr>)
     | Registered \<Rightarrow> Ret ((ReportStatus START_PENDING s)\<lparr>executor_at := Pending\<rparr>)
     | Pending \<Rightarrow> Ret (s\<lparr>g_StopEvent := OpenHandle, executor_at := EventMade\<rparr>)
     | EventMade \<Rightarrow> Ret ((ServiceInit_new s)\<lparr>executor_at := Constructed\<rparr>)
     | Constructed \<Rightarrow> ServiceInit_initialize init_ok s
     | Initialized \<Rightarrow> Ret ((ReportStatus RUNNING s)\<lparr>executor_at := Ready\<rparr>)
     | Ready \<Rightarrow> ServiceStart_enter serve_ok s
     | InStart \<Rightarrow> ServiceStart_loop s
     | Returned \<Rightarrow> Ret ((ReportStatus STOP_PENDING s)\<lparr>executor_at := StopReported\<rparr>)
     | StopReported \<Rightarrow> Ret (s\<lparr>g_StopEvent := ClosedHandle, executor_at := HandleClosed\<rparr>)
     | HandleClosed \<Rightarrow> Ret ((ReportStatus STOPPED s)\<lparr>executor_at := Ended\<rparr>)
     | Ended \<Rightarrow> Ret s
     | Terminated \<Rightarrow> Ret s)"

section \<open>The thread of the controls\<close>

datatype control = CONTROL_STOP | CONTROL_SHUTDOWN | OtherControl nat

definition HandlerEx :: "control \<Rightarrow> service \<Rightarrow> service" where
  "HandlerEx c s =
     (case c of OtherControl n \<Rightarrow> ReportStatus (g_CurrentState s) s | _ \<Rightarrow> (ReportStatus STOP_PENDING s)\<lparr>handler_at := Stopping\<rparr>)"

definition handler_step :: "service \<Rightarrow> service outcome" where
  "handler_step s = (case handler_at s of Idle \<Rightarrow> Ret s | Stopping \<Rightarrow> ServiceStop_stop s | Deleting \<Rightarrow> ServiceStop_delete s)"

text \<open>The system delivers a control when the last report is not the final one and, to stop or shut down, accepts it.\<close>

definition accepted :: "control \<Rightarrow> service \<Rightarrow> bool" where
  "accepted c s \<longleftrightarrow> status_reports s \<noteq> [] \<and> fst (last (status_reports s)) \<noteq> STOPPED \<and>
     (snd (last (status_reports s)) \<or> (\<exists>n. c = OtherControl n))"

inductive service_step :: "bool \<Rightarrow> bool \<Rightarrow> service \<Rightarrow> service \<Rightarrow> bool" for init_ok serve_ok where
  step_executor: "executor_at s \<noteq> Terminated \<Longrightarrow> ServiceExecutor init_ok serve_ok s = Ret s' \<Longrightarrow> service_step init_ok serve_ok s s'"
| step_control: "executor_at s \<noteq> Terminated \<Longrightarrow> handler_at s = Idle \<Longrightarrow> accepted c s \<Longrightarrow> service_step init_ok serve_ok s (HandlerEx c s)"
| step_handler: "executor_at s \<noteq> Terminated \<Longrightarrow> handler_step s = Ret s' \<Longrightarrow> service_step init_ok serve_ok s s'"

inductive_cases service_step_cases: "service_step init_ok serve_ok s t"

text \<open>The states that the two threads reach from a state.\<close>

definition running :: "bool \<Rightarrow> bool \<Rightarrow> service \<Rightarrow> service \<Rightarrow> bool" where
  "running init_ok serve_ok = (service_step init_ok serve_ok)\<^sup>*\<^sup>*"

lemma run_start: "running i v s s"
  by (simp add: running_def)

lemma run_step: "running i v s0 s \<Longrightarrow> service_step i v s t \<Longrightarrow> running i v s0 t"
  by (simp add: running_def)

lemmas run_executor = run_step [OF _ step_executor]

section \<open>The other entry points\<close>

text \<open>\<open>ServiceMain\<close>: the dispatcher's error, or \<open>None\<close> when it returned after the service ended.\<close>

definition ServiceMain :: "int option \<Rightarrow> int" where
  "ServiceMain dispatcher_error = (case dispatcher_error of None \<Rightarrow> 0 | Some e \<Rightarrow> if e = 1063 then - 1 else - 2)"

datatype reader_kind = RegistryReader | FileReader string

definition Win32Daemon_new :: "string \<Rightarrow> reader_kind" where
  "Win32Daemon_new config_file = (if config_file = CONFIG_FILE_PATH Win32 then RegistryReader else FileReader config_file)"

datatype signal_effect = ExitWith nat | StopLoop | Ignored

definition Win32_signalHandler :: "bool \<Rightarrow> signal \<Rightarrow> bool \<Rightarrow> handle_state \<Rightarrow> signal_effect" where
  "Win32_signalHandler ec signalNo mode stopEvent =
     (if ec then ExitWith 6
      else if signalNo = SIGTERM \<or> signalNo = SIGINT then
        if \<not> mode \<or> stopEvent = INVALID_HANDLE then StopLoop else Ignored
      else Ignored)"

section \<open>Invariant\<close>

text \<open>
  From the construction of the daemon on it is not null. Until the service reports that it runs, every report is the first
  one, which does not accept to stop, so the handler is not at work; from then on until its end it accepts to stop.
\<close>

fun before_daemon :: "executor_pc \<Rightarrow> bool" where
  "before_daemon Entry = True" | "before_daemon Registered = True" | "before_daemon Pending = True"
| "before_daemon EventMade = True" | "before_daemon p = False"

fun before_running :: "executor_pc \<Rightarrow> bool" where
  "before_running Constructed = True" | "before_running Initialized = True" | "before_running p = before_daemon p"

fun listening :: "executor_pc \<Rightarrow> bool" where
  "listening Ended = False" | "listening Terminated = False" | "listening p = (\<not> before_running p)"

definition service_inv :: "service \<Rightarrow> bool" where
  "service_inv s \<longleftrightarrow>
     (before_daemon (executor_at s) \<longleftrightarrow> daemon_p s = NullDaemon) \<and>
     (before_running (executor_at s) \<longrightarrow> handler_at s = Idle \<and> list_all (\<lambda>r. r = (START_PENDING, False)) (status_reports s)) \<and>
     (status_reports s \<noteq> [] \<longrightarrow> fst (last (status_reports s)) = g_CurrentState s) \<and>
     (listening (executor_at s) \<longrightarrow> status_reports s \<noteq> [] \<and> snd (last (status_reports s)) \<and> g_CurrentState s \<in> {RUNNING, STOP_PENDING})"

lemma use_daemon_Ret: "use_daemon s = Ret u \<longleftrightarrow> daemon_p s = LiveDaemon"
  by (simp add: use_daemon_def split: daemon_ptr.split)

lemma service_inv_executor:
  assumes "service_inv s" and "ServiceExecutor i v s = Ret s'"
  shows "service_inv s'"
proof (cases "executor_at s")
  case Constructed
  with assms show ?thesis
    by (cases i) (auto simp: service_inv_def ServiceExecutor_def ServiceInit_initialize_def Win32_platformInit_def obind_Ret_iff use_daemon_Ret split: if_splits)
next
  case Ready
  with assms show ?thesis
    by (cases v) (auto simp: service_inv_def ServiceExecutor_def ServiceStart_enter_def obind_Ret_iff use_daemon_Ret)
next
  case InStart
  with assms show ?thesis
    by (cases "loop_stopped s") (auto simp: service_inv_def ServiceExecutor_def ServiceStart_loop_def obind_Ret_iff use_daemon_Ret)
qed (use assms in \<open>auto simp: service_inv_def ServiceExecutor_def ReportStatus_def ServiceInit_new_def\<close>)

lemma service_inv_control:
  assumes "service_inv s" and "accepted c s"
  shows "service_inv (HandlerEx c s)"
proof (cases "before_running (executor_at s)")
  case True
  with assms have r: "status_reports s \<noteq> []" "list_all (\<lambda>r. r = (START_PENDING, False)) (status_reports s)"
    by (auto simp: service_inv_def accepted_def)
  then have "last (status_reports s) = (START_PENDING, False)" by (auto simp: list_all_iff dest!: last_in_set)
  with assms r True show ?thesis by (cases c) (auto simp: service_inv_def accepted_def HandlerEx_def ReportStatus_def)
next
  case False
  with assms show ?thesis by (cases c) (auto simp: service_inv_def HandlerEx_def ReportStatus_def)
qed

lemma service_inv_handler:
  assumes "service_inv s" and "handler_step s = Ret s'"
  shows "service_inv s'"
  using assms
  by (cases "handler_at s")
    (auto simp: service_inv_def handler_step_def ServiceStop_stop_def ServiceStop_delete_def obind_Ret_iff use_daemon_Ret)

lemma service_inv_start: "service_inv service_start"
  by (simp add: service_inv_def service_start_def)

interpretation svc: invariant_of "service_step i v" service_inv for i v
  by unfold_locales (auto elim!: service_step_cases intro: service_inv_executor service_inv_control service_inv_handler)

lemma running_inv: "running i v s0 s \<Longrightarrow> service_inv s0 \<Longrightarrow> service_inv s"
  unfolding running_def by (rule svc.reached)

text \<open>
  C38. Neither thread of the service follows a null pointer: a stop is accepted only when the daemon has been constructed, in
  every state that the two threads reach.
\<close>

theorem service_never_null:
  assumes "running init_ok serve_ok service_start s"
  shows "ServiceExecutor init_ok serve_ok s \<noteq> Undef NullDeref \<and> handler_step s \<noteq> Undef NullDeref \<and>
    (accepted CONTROL_STOP s \<longrightarrow> daemon_p s \<noteq> NullDaemon)"
proof -
  note inv = running_inv [OF assms service_inv_start, unfolded service_inv_def]
  have live: "daemon_p s \<noteq> NullDaemon \<Longrightarrow> use_daemon s \<noteq> Undef NullDeref" by (auto simp: use_daemon_def split: daemon_ptr.splits)
  have e: "ServiceExecutor init_ok serve_ok s \<noteq> Undef NullDeref"
    using inv live by (cases "executor_at s") (auto simp: ServiceExecutor_def ServiceInit_initialize_def ServiceStart_enter_def
      ServiceStart_loop_def obind_Undef_iff)
  have h: "handler_step s \<noteq> Undef NullDeref" if "\<not> before_running (executor_at s)"
  proof -
    from that have "\<not> before_daemon (executor_at s)" by (cases "executor_at s") auto
    then show ?thesis
      using inv live by (cases "handler_at s") (auto simp: handler_step_def ServiceStop_stop_def ServiceStop_delete_def obind_Undef_iff)
  qed
  have a: "\<not> before_running (executor_at s)" if "accepted CONTROL_STOP s"
    using that inv by (auto simp: accepted_def list_all_iff dest!: last_in_set)
  have n: "daemon_p s \<noteq> NullDaemon" if "\<not> before_running (executor_at s)"
    using that inv by (cases "executor_at s") auto
  have "handler_step s \<noteq> Undef NullDeref"
    using h inv by (cases "before_running (executor_at s)") (auto simp: handler_step_def)
  with e a n show ?thesis by blast
qed











section \<open>Witnesses\<close>

primrec executor_steps :: "nat \<Rightarrow> service \<Rightarrow> service outcome" where
  "executor_steps 0 s = Ret s"
| "executor_steps (Suc n) s = obind (ServiceExecutor True True s) (executor_steps n)"

lemma executor_steps_running:
  "running True True s0 s \<Longrightarrow> executor_steps n s = Ret t \<Longrightarrow> running True True s0 t"
proof (induction n arbitrary: s)
  case (Suc n)
  then obtain u where u: "ServiceExecutor True True s = Ret u" "executor_steps n u = Ret t" by (auto simp: obind_Ret_iff)
  have "running True True s0 u"
  proof (cases "executor_at s = Terminated")
    case True
    with u Suc.prems(1) show ?thesis by (simp add: ServiceExecutor_def)
  next
    case False
    show ?thesis by (rule run_executor [OF Suc.prems(1) False u(1)])
  qed
  with Suc.IH u(2) show ?case by blast
qed simp

definition served :: service where
  "served = (case executor_steps 7 service_start of Ret t \<Rightarrow> t | _ \<Rightarrow> service_start)"

lemma served: "running True True service_start served" "executor_at served = InStart" "handler_at served = Idle" "daemon_p served = LiveDaemon"
proof -
  have "case executor_steps 7 service_start of Ret t \<Rightarrow> executor_at t = InStart \<and> handler_at t = Idle \<and> daemon_p t = LiveDaemon | _ \<Rightarrow> False"
    by code_simp
  then obtain t where t: "executor_steps 7 service_start = Ret t" "executor_at t = InStart" "handler_at t = Idle" "daemon_p t = LiveDaemon"
    by (cases "executor_steps 7 service_start") auto
  with executor_steps_running [OF run_start t(1)]
  show "running True True service_start served" "executor_at served = InStart" "handler_at served = Idle" "daemon_p served = LiveDaemon"
    by (simp_all add: served_def)
qed

theorem service_never_null_witness:
  "ServiceExecutor True True served \<noteq> Undef NullDeref \<and> handler_step served \<noteq> Undef NullDeref"
  using service_never_null [OF served(1)] by simp


end
