(* ===== verification/Win_Main.thy ===== *)
theory Win_Main
  imports Win_Service
begin

text \<open>
  \<^verbatim>\<open>app/main.cpp\<close> as it is built for Windows, with \<^verbatim>\<open>src/win32/service.cpp\<close> and
  \<^verbatim>\<open>src/win32/win32daemonrunner.cpp\<close> as far as they act on the host: which processes come to their event loop, and
  which of them take the execution lock. The threads of a service are the subject of \<open>Win_Service\<close>. \<open>g\<close> reads the
  registry, \<open>dispatcher_error\<close> is what the dispatcher of the services answers.
\<close>

datatype win_proc = Win_Serving Daemon | Win_Exited int

section \<open>The daemon\<close>

definition Win32_LoadConfiguration :: "cfg \<Rightarrow> getters \<Rightarrow> Daemon \<Rightarrow> ConfigReader attempt" where
  "Win32_LoadConfiguration C g d =
     (case Win32Daemon_new (configFile (d_args d)) of
        RegistryReader \<Rightarrow> LoadConfiguration Win32 (cfg_from_string C) (cfg_to_string C) g (configReader d)
      | FileReader f \<Rightarrow> IniConfigReader_LoadConfiguration Win32 (cfg_from_string C) (cfg_to_string C) (cfg_to_long C)
          (cfg_to_bool C) (cfg_read_ini C) f (configReader d))"

definition Win32_Initialize :: "nat \<Rightarrow> 'p lib \<Rightarrow> cfg \<Rightarrow> getters \<Rightarrow> Daemon \<Rightarrow> Daemon act" where
  "Win32_Initialize n L C g d =
     sbind (slift (Win32_LoadConfiguration C g d)) (\<lambda>c.
     sbind (loadRules n L (ruleFile c)) (\<lambda>_.
     sreturn (d\<lparr>configReader := c\<rparr>)))"

text \<open>
  \<open>Daemon::Run\<close>, with a \<open>forkAndSetupDaemon\<close> that does nothing. When the server cannot be set up \<open>Start\<close> returns a code,
  \<open>main\<close> returns it, and the destructor of its local variable runs.
\<close>

definition Win32_Run :: "nat \<Rightarrow> 'p lib \<Rightarrow> cfg \<Rightarrow> getters \<Rightarrow> (Daemon \<Rightarrow> bool) \<Rightarrow> Daemon \<Rightarrow> win_proc act" where
  "Win32_Run n L C g serves d =
     sbind (Win32_Initialize n L C g d) (\<lambda>d.
     if serves d then sreturn (Win_Serving d)
     else (\<lambda>h. (Done (Win_Exited (int EC_MISC)), Daemon_delete d h)))"

section \<open>The service\<close>

text \<open>
  \<open>ServiceMain\<close> with the thread that the dispatcher starts: \<open>ServiceInit\<close>, then \<open>ServiceStart\<close>. The daemon is deleted
  only when the service is told to stop.
\<close>

definition Service_Run ::
  "nat \<Rightarrow> 'p lib \<Rightarrow> cfg \<Rightarrow> getters \<Rightarrow> (Daemon \<Rightarrow> bool) \<Rightarrow> int option \<Rightarrow> Args \<Rightarrow> win_proc act" where
  "Service_Run n L C g serves dispatcher_error args =
     (if dispatcher_error \<noteq> None then sreturn (Win_Exited (ServiceMain dispatcher_error))
      else
        sbind (Daemon_new C args) (\<lambda>d.
        sbind (Win32_Initialize n L C g d) (\<lambda>d.
        sreturn (if serves d then Win_Serving d else Win_Exited (ServiceMain None)))))"

definition main_win32 ::
  "nat \<Rightarrow> 'p lib \<Rightarrow> cfg \<Rightarrow> getters \<Rightarrow> (Daemon \<Rightarrow> bool) \<Rightarrow> int option \<Rightarrow> string list \<Rightarrow> win_proc act" where
  "main_win32 n L C g serves dispatcher_error argv =
     sbind (Args_Init_for Win32 n L argv) (\<lambda>(code, args).
     if code = ExitWithUnlock then sbind named_mutex_remove (\<lambda>_. sreturn (Win_Exited (int EC_GOOD)))
     else if code = ExitWithNoError then sreturn (Win_Exited (int EC_GOOD))
     else if code = ExitWithError then sreturn (Win_Exited (int EC_BADCOMMANDLINE))
     else if daemonMode args then Service_Run n L C g serves dispatcher_error args
     else
       sbind (Daemon_new C args) (\<lambda>d.
       sbind (IsAlreadyRunning d) (\<lambda>(running, d).
       if running then sreturn (Win_Exited 1) else Win32_Run n L C g serves d)))"

section \<open>Lemmas\<close>

lemma frame_loadRules: "frame k (loadRules n L f)"
proof -
  have "frame k (load_engine L (RuleParser_Parse n L) t)" for t
    unfolding load_engine_def by (intro frame_load_lines frame_Parse)
  then show ?thesis unfolding frame_def loadRules_def by (auto split: option.split)
qed

lemma frame_Win32_Initialize: "frame k (Win32_Initialize n L C g d)"
  unfolding Win32_Initialize_def by (intro frame_rules frame_loadRules)

lemma Win32_Initialize_lock:
  "Win32_Initialize n L C g d h = (Done d', h') \<Longrightarrow> lockOwned d' = lockOwned d \<and> executionLock d' = executionLock d"
  by (auto simp: Win32_Initialize_def sbind_Done_iff)

text \<open>The constructor opens the mutex or creates it unlocked; nothing in it locks it.\<close>

lemma Daemon_new_mutex:
  assumes "Daemon_new C args h = (Done d, h')"
  shows "\<not> lockOwned d" and "mutex_name h' = Some (executionLock d)"
    and "mutex_locked h' (executionLock d) \<longleftrightarrow> (\<exists>m. mutex_name h = Some m \<and> mutex_locked h m)"
  using assms
  by (auto simp: Daemon_new_def sbind_Done_iff open_or_create_def ShmRuleEngine_new_def Let_def split: option.splits)

lemma Service_Run_serves:
  assumes "Daemon_new C args h = (Done d, h0)" and "Win32_LoadConfiguration C g d = Done c"
    and "loadRules n L (ruleFile c) h0 = (Done (), h')" and "serves (d\<lparr>configReader := c\<rparr>)"
  shows "Service_Run n L C g serves None args h = (Done (Win_Serving (d\<lparr>configReader := c\<rparr>)), h')"
  using assms by (simp add: Service_Run_def Win32_Initialize_def sbind_def)

lemma console_start:
  assumes "Args_Init_for Win32 n L argv h = (Done (NoExit, args), h)" and "\<not> daemonMode args"
    and "mutex_name h = Some m" and "\<not> mutex_locked h m"
  shows "\<exists>d h1. lockOwned d \<and> executionLock d = m \<and> mutex_locked h1 m \<and>
    main_win32 n L C g serves e argv h = Win32_Run n L C g serves d h1"
proof (intro exI conjI)
  let ?d = "\<lparr>lockOwned = True, executionLock = m, configReader = cfg_new C, ruleEngine = shm_next h, pidFileCreated = False, d_args = args\<rparr>"
  let ?h = "(replaced h)\<lparr>mutex_locked := (mutex_locked h)(m := True)\<rparr>"
  show "lockOwned ?d" "executionLock ?d = m" "mutex_locked ?h m" by simp_all
  show "main_win32 n L C g serves e argv h = Win32_Run n L C g serves ?d ?h"
    using assms
    by (simp add: main_win32_def sbind_def sreturn_def Daemon_new_def open_or_create_def ShmRuleEngine_new_def
        IsAlreadyRunning_def replaced_def Let_def)
qed

section \<open>Properties\<close>

text \<open>
  C22. On Windows a service neither takes the execution lock nor looks at it. A service start whose configuration and
  rules load and whose server can be set up comes to its event loop, whether the lock is held or not; it does not own
  the lock and leaves it as it was. So it runs beside a daemon that holds the lock, and while nobody holds it a start
  from the console takes it and goes on, beside the service.
\<close>

theorem service_takes_no_lock:
  assumes "Args_Init_for Win32 n L argv h = (Done (NoExit, args), h)" and "daemonMode args"
    and "Daemon_new C args h = (Done d, h0)" and "Win32_LoadConfiguration C g d = Done c"
    and "loadRules n L (ruleFile c) h0 = (Done (), h')" and "serves (d\<lparr>configReader := c\<rparr>)"
  shows "main_win32 n L C g serves None argv h = (Done (Win_Serving (d\<lparr>configReader := c\<rparr>)), h') \<and>
     \<not> lockOwned d \<and> mutex_name h' = Some (executionLock d) \<and>
     (mutex_locked h' (executionLock d) \<longleftrightarrow> (\<exists>m. mutex_name h = Some m \<and> mutex_locked h m)) \<and>
     ((\<forall>m. mutex_name h = Some m \<longrightarrow> \<not> mutex_locked h m) \<longrightarrow>
       (\<forall>argv' args'. Args_Init_for Win32 n L argv' h' = (Done (NoExit, args'), h') \<longrightarrow> \<not> daemonMode args' \<longrightarrow>
         (\<exists>d' h1. lockOwned d' \<and> executionLock d' = executionLock d \<and> mutex_locked h1 (executionLock d) \<and>
           main_win32 n L C g serves None argv' h' = Win32_Run n L C g serves d' h1)))"
proof -
  note new = Daemon_new_mutex [OF assms(3)] and load = frame_mutex [OF frame_loadRules assms(5)]
  have "main_win32 n L C g serves None argv h = (Done (Win_Serving (d\<lparr>configReader := c\<rparr>)), h')"
    using assms(1,2) Service_Run_serves [OF assms(3-5), where serves = serves] assms(6) by (simp add: main_win32_def sbind_def)
  moreover have lock: "mutex_name h' = Some (executionLock d)"
    "mutex_locked h' (executionLock d) \<longleftrightarrow> (\<exists>m. mutex_name h = Some m \<and> mutex_locked h m)"
    using new load by simp_all
  moreover have "\<exists>d' h1. lockOwned d' \<and> executionLock d' = executionLock d \<and> mutex_locked h1 (executionLock d) \<and>
      main_win32 n L C g serves None argv' h' = Win32_Run n L C g serves d' h1"
    if "\<forall>m. mutex_name h = Some m \<longrightarrow> \<not> mutex_locked h m"
      and "Args_Init_for Win32 n L argv' h' = (Done (NoExit, args'), h')" and "\<not> daemonMode args'" for argv' args'
    using console_start [OF that(2,3) lock(1)] lock(2) that(1) by auto
  ultimately show ?thesis using new(1) by blast
qed

section \<open>Witness\<close>

abbreviation (input) empty_registry :: getters where
  "empty_registry \<equiv> answering (ini_reader (\<lambda>t. None) (\<lambda>t. None) (\<lambda>k. None))"

abbreviation (input) service_argv :: "string list" where
  "service_argv \<equiv> ''start'' # flat [(''daemon'', [])]"

definition sample_service :: Daemon where
  "sample_service = \<lparr>lockOwned = False, executionLock = 0,
     configReader = sample_config\<lparr>logFile := LOG_FILE Win32, pidFile := [], ruleFile := RULES_FILE Win32\<rparr>, ruleEngine = 0,
     pidFileCreated = False, d_args = \<lparr>configFile = CONFIG_FILE_PATH Win32, daemonMode = True, useRawSockets = False\<rparr>\<rparr>"

lemma sample_win_start:
  "Args_Init_for Win32 n sample_lib service_argv h = (Done (NoExit, d_args sample_service), h)"
  "Args_Init_for Win32 n sample_lib [''start''] h =
     (Done (NoExit, \<lparr>configFile = CONFIG_FILE_PATH Win32, daemonMode = False, useRawSockets = False\<rparr>), h)"
  by (simp_all add: Args_Init_for_def catch_def sbind_def parse_options_def sample_lib_def rules_pos_def has_option_def
      as_text_def start_command_def erase_first_def sample_service_def pairs_flat Let_def)

lemma sample_service_config:
  "Win32_LoadConfiguration sample_cfg empty_registry \<lparr>lockOwned = False, executionLock = m, configReader = cfg_new sample_cfg,
     ruleEngine = e, pidFileCreated = False, d_args = d_args sample_service\<rparr> = Done (configReader sample_service)"
proof -
  have "GetIpAddressType ''1.1.1.1'' = Ipv4" by code_simp
  then show ?thesis
    by (simp add: Win32_LoadConfiguration_def Win32Daemon_new_def sample_service_def sample_cfg_def sample_config_def
        ini_reader_def tree_string_def tree_value_def LoadConfiguration_def addFurther_def addServer_def ToLogLevel_def
        FromLogLevel_def Let_def)
qed

text \<open>A service that starts while a daemon holds the lock, and one that starts while nobody does.\<close>

lemma sample_service_new:
  "\<exists>h0. Daemon_new sample_cfg (d_args sample_service) busy_host =
     (Done \<lparr>lockOwned = False, executionLock = 0, configReader = cfg_new sample_cfg, ruleEngine = 1, pidFileCreated = False,
        d_args = d_args sample_service\<rparr>, h0) \<and> loadRules n sample_lib f h0 = (Done (), h0)"
  "\<exists>h0. Daemon_new sample_cfg (d_args sample_service) bare_host =
     (Done \<lparr>lockOwned = False, executionLock = 0, configReader = cfg_new sample_cfg, ruleEngine = 0, pidFileCreated = False,
        d_args = d_args sample_service\<rparr>, h0) \<and> loadRules n sample_lib f h0 = (Done (), h0)"
  by (simp_all add: Daemon_new_def sbind_def open_or_create_def ShmRuleEngine_new_def Let_def loadRules_def busy_host_def
      bare_host_def sample_host_def)

theorem service_takes_no_lock_witness:
  "\<exists>h1 h2. main_win32 1 sample_lib sample_cfg empty_registry (\<lambda>d. True) None service_argv busy_host =
       (Done (Win_Serving (sample_service\<lparr>ruleEngine := 1\<rparr>)), h1) \<and> mutex_locked h1 0 \<and>
     main_win32 1 sample_lib sample_cfg empty_registry (\<lambda>d. True) None service_argv bare_host =
       (Done (Win_Serving sample_service), h2) \<and>
     (\<exists>d' h3. lockOwned d' \<and> main_win32 1 sample_lib sample_cfg empty_registry (\<lambda>d. True) None [''start''] h2 =
       Win32_Run 1 sample_lib sample_cfg empty_registry (\<lambda>d. True) d' h3)"
proof -
  let ?f = "ruleFile (configReader sample_service)"
  have d: "daemonMode (d_args sample_service)" "mutex_name bare_host = None" "mutex_name busy_host = Some 0" "mutex_locked busy_host 0"
    by (simp_all add: sample_service_def bare_host_def sample_host_def busy_host_def)
  obtain h1 where h1: "Daemon_new sample_cfg (d_args sample_service) busy_host =
      (Done \<lparr>lockOwned = False, executionLock = 0, configReader = cfg_new sample_cfg, ruleEngine = 1, pidFileCreated = False,
        d_args = d_args sample_service\<rparr>, h1)" "loadRules 1 sample_lib ?f h1 = (Done (), h1)"
    using sample_service_new(1) by blast
  obtain h2 where h2: "Daemon_new sample_cfg (d_args sample_service) bare_host =
      (Done \<lparr>lockOwned = False, executionLock = 0, configReader = cfg_new sample_cfg, ruleEngine = 0, pidFileCreated = False,
        d_args = d_args sample_service\<rparr>, h2)" "loadRules 1 sample_lib ?f h2 = (Done (), h2)"
    using sample_service_new(2) by blast
  note service = service_takes_no_lock [OF sample_win_start(1) d(1)]
  from service [OF h1(1) sample_service_config h1(2), where serves = "\<lambda>d. True"] d(3,4)
  have "main_win32 1 sample_lib sample_cfg empty_registry (\<lambda>d. True) None service_argv busy_host =
       (Done (Win_Serving (sample_service\<lparr>ruleEngine := 1\<rparr>)), h1)" "mutex_locked h1 0"
    by (simp_all add: sample_service_def)
  moreover from service [OF h2(1) sample_service_config h2(2), where serves = "\<lambda>d. True"] d(2) sample_win_start(2) [of 1 h2]
  have "main_win32 1 sample_lib sample_cfg empty_registry (\<lambda>d. True) None service_argv bare_host =
       (Done (Win_Serving sample_service), h2)"
    "\<exists>d' h3. lockOwned d' \<and> main_win32 1 sample_lib sample_cfg empty_registry (\<lambda>d. True) None [''start''] h2 =
       Win32_Run 1 sample_lib sample_cfg empty_registry (\<lambda>d. True) d' h3"
    by (simp_all add: sample_service_def) fastforce
  ultimately show ?thesis by blast
qed

end
