(* ===== verification/Raw_Socket.thy ===== *)
theory Raw_Socket
  imports Config_Reader
begin

text \<open>
  \<^verbatim>\<open>include/socket.hpp\<close>: the protocol class for raw sockets. Its numbers are those of the headers of Linux and of
  Windows. The private constructor leaves two values, and the comparisons tell them apart.
\<close>

abbreviation (input) ipproto_udp :: int where "ipproto_udp \<equiv> 17"
abbreviation (input) sock_raw :: int where "sock_raw \<equiv> 3"
abbreviation (input) pf_inet :: int where "pf_inet \<equiv> 2"

fun PF_INET6 :: "platform \<Rightarrow> int" where
  "PF_INET6 Unix = 10"
| "PF_INET6 Win32 = 23"

record RawSocket =
  rs_protocol :: int
  rs_family :: int

definition RawSocket_new :: "int \<Rightarrow> int \<Rightarrow> RawSocket" where
  "RawSocket_new protocol_id protocol_family = \<lparr>rs_protocol = protocol_id, rs_family = protocol_family\<rparr>"

definition RawSocket_v4 :: RawSocket where
  "RawSocket_v4 = RawSocket_new ipproto_udp pf_inet"

definition RawSocket_v6 :: "platform \<Rightarrow> RawSocket" where
  "RawSocket_v6 os = RawSocket_new ipproto_udp (PF_INET6 os)"

definition RawSocket_default :: RawSocket where
  "RawSocket_default = \<lparr>rs_protocol = ipproto_udp, rs_family = pf_inet\<rparr>"

definition RawSocket_type :: "RawSocket \<Rightarrow> int" where
  "RawSocket_type p = sock_raw"

definition RawSocket_protocol :: "RawSocket \<Rightarrow> int" where
  "RawSocket_protocol p = rs_protocol p"

definition RawSocket_family :: "RawSocket \<Rightarrow> int" where
  "RawSocket_family p = rs_family p"

definition RawSocket_eq :: "RawSocket \<Rightarrow> RawSocket \<Rightarrow> bool" where
  "RawSocket_eq p1 p2 \<longleftrightarrow> rs_protocol p1 = rs_protocol p2 \<and> rs_family p1 = rs_family p2"

definition RawSocket_neq :: "RawSocket \<Rightarrow> RawSocket \<Rightarrow> bool" where
  "RawSocket_neq p1 p2 \<longleftrightarrow> rs_protocol p1 \<noteq> rs_protocol p2 \<or> rs_family p1 \<noteq> rs_family p2"

lemma RawSocket_eq_iff: "RawSocket_eq p1 p2 \<longleftrightarrow> p1 = p2"
  by (cases p1, cases p2) (simp add: RawSocket_eq_def)

lemma RawSocket_neq_iff: "RawSocket_neq p1 p2 \<longleftrightarrow> \<not> RawSocket_eq p1 p2"
  by (auto simp: RawSocket_neq_def RawSocket_eq_def)

text \<open>A default constructed protocol is the one for IPv4, and the two protocols differ on both platforms.\<close>

lemma RawSocket_values: "RawSocket_eq RawSocket_default RawSocket_v4" "RawSocket_neq RawSocket_v4 (RawSocket_v6 os)"
  by (cases os; simp add: RawSocket_eq_def RawSocket_neq_def RawSocket_default_def RawSocket_v4_def RawSocket_v6_def RawSocket_new_def)+

end
