(* ===== verification/Spec2Isabelle.thy ===== *)
theory Spec2Isabelle
  imports Server_Start Shm_Threads Net_Interface Dns_Printer Platform_Util Win_Registry Win_Main Raw_Socket
begin

text \<open>
  A verification of dns-wrapper, a DNS server that answers or forwards the queries of its clients as rules tell it.

  \<^bold>\<open>The program.\<close> A daemon receives UDP datagrams on port 53 and, on Linux, copies of raw frames. A query is decoded
  and validated, the rule engine decides on the client's IP and hardware address whether it is redirected (answered
  at once with a fixed address) or resolved (forwarded to every upstream server under a new identifier, with a record
  of the client), and a response of an upstream server is matched with the record by identifier and digest and relayed
  to the clients of the record. Raw frames teach which hardware address an IP address has. The rules lie in shared
  memory, which a second invocation of the program with the command \<open>rules\<close> changes; a named mutex keeps a second
  daemon from running.

  \<^bold>\<open>Theories, in the order of their dependencies.\<close>
  \<^item> \<open>Prelude\<close>: outcomes of C++ code (a value, a return code, undefined behaviour), bytes of machine words, the
    locale \<open>simulation\<close> of a component by its specification, and the locale \<open>invariant_of\<close> of a transition system,
    interpreted for the loop of the server, the threads of the service and the processes that share the rules.
  \<^item> \<open>Net_Common\<close> (\<^verbatim>\<open>include/net/netcommon.h\<close>, \<^verbatim>\<open>include/dns/dnscommon.hpp\<close>): packet buffers, the macros
    that read and write them, address unions.
  \<^item> \<open>Codec\<close>: the locale of a record type that can be written and read, with the arrays of such records; interpreted
    for questions and for resource records.
  \<^item> \<open>Dns_Header\<close>, \<open>Dns_Question\<close>, \<open>Dns_Record\<close>, \<open>Sha256\<close>, \<open>Dns_Packet\<close> (\<^verbatim>\<open>src/dns/dns*.cpp\<close>,
    \<^verbatim>\<open>src/tp/sha256.cpp\<close>): the wire format. Shown: where reading can leave the memory it may use, the exact
    languages that validation accepts, exactly which names with compression pointers are read (names that the limit of
    255 octets of RFC 1035 excludes, or pointers that lead forwards, among them), the round trip of whole packets, and
    the digest against FIPS 180-4, whose constants are derived from the primes.
  \<^item> \<open>Eth_Mappings\<close>, \<open>Peer_Requests\<close> (\<^verbatim>\<open>src/bookkeeping/*.cpp\<close>): the tables of hardware addresses and of forwarded
    queries, with their invariants, what lookups find, and that the search for an identifier ends.
  \<^item> \<open>Shm_Rules\<close> (\<^verbatim>\<open>src/rule/shm.cpp\<close>): the rules as packed bytes; its operations refine operations on a list of
    rules, and evaluation takes the first rule that matches.
  \<^item> \<open>In_Packet\<close> (\<^verbatim>\<open>src/net/packet.cpp\<close>): raw frames with VLAN tags, IPv4 options, IPv6 and UDP.
  \<^item> \<open>Text_Address\<close> (\<^verbatim>\<open>src/util.cpp\<close>, \<^verbatim>\<open>src/unix/unixutil.cpp\<close>): addresses as text, with the regular expressions
    and the functions of the standard library that the code calls; the type \<open>attempt\<close> of code that throws.
  \<^item> \<open>Config_Reader\<close> (\<^verbatim>\<open>src/config.cpp\<close>, \<^verbatim>\<open>src/log.cpp\<close>): the configuration and which of them are accepted.
  \<^item> \<open>Dns_Server\<close> (\<^verbatim>\<open>src/dns/server.cpp\<close>): the handlers as functions of the server's state, events, reachable states
    by an inductive relation and their invariant. \<open>Dns_Session\<close> and \<open>Dns_Clients\<close> follow one query through the handlers:
    forwarding, relaying, redirecting, dropping, and a repeated question whose client is never answered.
  \<^item> \<open>Option_Printer\<close> (\<^verbatim>\<open>src/tp/customoptiondescription.cpp\<close>, \<^verbatim>\<open>src/tp/optionprinter.cpp\<close>): the help texts.
  \<^item> \<open>Host\<close>: the operating system that processes share (names of shared memory and mutex, files, console) and actions on
    it that may throw; the constructor and destructor of the rule engine.
  \<^item> \<open>Rule_Command\<close> (\<^verbatim>\<open>src/rule/parse.cpp\<close>, the stream operators of \<^verbatim>\<open>src/rule/shm.cpp\<close>): every rule command, from the
    command line and from a file. \<open>Rule_Files\<close>: how much of what was saved is loaded again.
  \<^item> \<open>Shm_Threads\<close> (\<^verbatim>\<open>src/rule/shm.cpp\<close>): the rule operations in single steps, run by any number of processes under the
    mutex of the shared memory, and the listing without it. Shown: mutual exclusion, that the operations are linearizable
    and refine the list of rules, that each of them ends by its own steps, what a process leaves that is killed in one of
    them, and what a listing misses.
  \<^item> \<open>Daemon_Process\<close> (\<^verbatim>\<open>app/main.cpp\<close>, \<^verbatim>\<open>src/args.cpp\<close>, \<^verbatim>\<open>src/daemon.cpp\<close>, \<^verbatim>\<open>src/unix/unixdaemon.cpp\<close>): the life
    of a process, and the machine with several of them as an inductive relation.
  \<^item> \<open>Server_Start\<close> (\<^verbatim>\<open>src/dns/server.cpp\<close>): the constructor of the server and its receive loops, as a relation between
    states with the operations that wait; the server of a daemon from its command line and configuration file on.
  \<^item> \<open>Dns_Printer\<close>: the stream printers of packets and other texts of log messages.
  \<^item> \<open>Net_Interface\<close> (\<^verbatim>\<open>include/net/if.hpp\<close>, \<^verbatim>\<open>src/unix/unixif.cpp\<close>, \<^verbatim>\<open>src/win32/win32if.cpp\<close>): loops over the network
    interfaces. \<open>Platform_Util\<close>: user names, exit messages, file descriptors.
  \<^item> \<open>Win_Registry\<close> (\<^verbatim>\<open>src/win32/registry.cpp\<close>, \<^verbatim>\<open>src/win32/win32config.cpp\<close>): the configuration in the registry.
    \<open>Win_Service\<close> (\<^verbatim>\<open>src/win32/service.cpp\<close>, \<^verbatim>\<open>src/win32/win32daemonrunner.cpp\<close>, \<^verbatim>\<open>src/win32/win32daemon.cpp\<close>): the service as
    two interleaved threads, with its invariant and the race of a stop. \<open>Win_Main\<close> (\<^verbatim>\<open>app/main.cpp\<close>): the main program with
    the service and the daemon of the console, and which of them take the execution lock.
  \<^item> \<open>Raw_Socket\<close> (\<^verbatim>\<open>include/socket.hpp\<close>): the protocol class of raw sockets, which the program does not use.
  \<^item> This theory: properties that span the components of the server.

  \<^bold>\<open>Correspondence.\<close> Definitions have the names of the functions they translate; a member function of a class whose
  name occurs more than once has the class in front (\<open>DnsPacket_Read\<close>). A class is a record, an enumeration a datatype,
  a fixed-width integer a word, a pointer into an array an offset, a linked list a list, a union the bytes or a datatype
  that remembers the member written last. Reading outside an array, through a null pointer, after a deletion or the wrong
  member of a union is the value \<open>Undef\<close>, never an arbitrary result. Memory that the program reads uninitialised is a
  parameter. The byte order and the object layout are those of x86-64.

  \<^bold>\<open>Parameters.\<close> Library code is a parameter of the definitions that call it: end points and their parts, the clock and the
  random draws of the server (\<open>env\<close>), the sockets (\<open>net\<close>), the registry functions
  (\<open>reg_api\<close>), the mutex in the shared memory (\<open>mutex_ops\<close>), the options library, \<open>inet_pton\<close> and \<open>inet_ntop\<close> (\<open>lib\<close>), the property tree and the names of log levels (\<open>cfg\<close>). What a property needs of them is a predicate (\<open>split_law\<close>, \<open>named_law\<close>,
  \<open>positional_law\<close>, \<open>ip_text\<close>, \<open>parsers_agree\<close>, \<open>dotted_only\<close>, \<open>get_law\<close>, \<open>mutex_laws\<close>), and its witness satisfies them with concrete functions.
  The laws are restricted to the descriptions, option names and hosts that the program passes, where the documentation of the
  libraries gives them; \<open>get_law\<close> allows any error code of the system at any call.

  \<^bold>\<open>Bounds and fuel.\<close> Recursions are structural or have a termination proof: following compression pointers is bounded as
  in the code, the search for a free identifier is bounded by the 65536 identifiers and is shown to find one when the
  draws reach a free one. \<open>RuleParser_Parse\<close> has fuel, for rules files that load rules files; a file written by the
  save command needs the fuel of a single load. \<open>for_each\<close> has fuel, for which more passes than there are interfaces are enough. The
  steps of a rule operation decrease a lexicographic measure of its place and the passes left there.

  \<^bold>\<open>What the properties show.\<close> The server: a forwarded query is answered to its client with the client's identifier after
  any traffic in between (liveness), every reachable state is consistent, a redirected query is answered at once, a
  stranger's reply has no effect, and what the code does with short datagrams, repeated questions and IPv6 clients. A process
  that reaches its event loop has a server with the upstream servers of its configuration file, which keeps listening. The
  rules that processes share behave as one list that changes between operations, while no process is killed in one. The wire
  format, tables, rules, addresses, configuration, rule files, processes, registry and service: as listed above. Several properties state
  behaviour that the code hardly intends, exactly as it is: they are marked as such in their texts.

  \<^bold>\<open>Not modelled.\<close> Log messages other than those of the printers, and the version messages, which are output only; the
  placeholder test. A handler of the server is one step, also while it holds the mutex of the rules. A step of the unlocked
  listing reads a whole rule; the bytes of one rule that another process changes meanwhile are not told apart. The shared
  memory and the named mutex follow the rules of Unix for names that are removed. Smaller simplifications are said where they
  are made: removing the pid file succeeds, times and latencies are unbounded integers, one value stands for the two
  uninitialised address unions of a frame, the parts of a rule are loaded when the code forms pointers to them, and a datagram
  is the bytes that the receive call delivered.
\<close>

section \<open>A sample server\<close>

text \<open>One upstream server at the end point 7, no rules, nothing learned, nothing in flight.\<close>

definition sample_env :: "nat env" where
  "sample_env = \<lparr>env_now = 1001, env_draw = of_nat, env_port = (\<lambda>ep. 4000), env_address = (\<lambda>ep. [10, 0, 0, 2]),
     env_record = sample_query 0 [] None 0, env_source = sample_peer 0 0, env_digest = replicate 64 0,
     env_union = replicate 16 0\<rparr>"

definition sample_upstream :: "nat UpstreamServerInfo" where
  "sample_upstream = \<lparr>us_endpoint = 7, us_ipv4 = True, us_address = replicate 16 0, displayAddress = ''9.9.9.9'',
     us_port = 0, queries = 0, replies = 0, invalids = 0, nosources = 0, timedouts = 0, failed = 0,
     Latency = 0, MMA = 0, forwardtime = 0, forwardcount = 0\<rparr>"

definition sample_server :: "nat DnsServer" where
  "sample_server = \<lparr>peerRequests = sample_requests\<lparr>requests := []\<rparr>, ethmappings = sample_table,
     recvBuffer4 = raw_buffer [], recvBuffer6 = raw_buffer [], servers = [sample_upstream],
     ruleData = empty_rules, dnsPort = 53, sent = []\<rparr>"

definition www_question :: DnsQuestion where
  "www_question = \<lparr>Start = 12, Name = [119, 119, 119, 46, 97, 98], Type = 1, Class = 1\<rparr>"

definition www_request :: DnsPacket where
  "www_request = sample_request\<lparr>questions := [www_question]\<rparr>"

definition www_response :: DnsPacket where
  "www_response = sample_response\<lparr>questions := [www_question]\<rparr>"

lemma www_ok: "datagram_ok www_request" "datagram_ok www_response"
  using sample_packets_ok
  by (simp_all add: datagram_ok_def packet_ok_def packet_wf_def www_request_def www_response_def www_question_def
      sample_request_def sample_response_def sample_record_def name_valid_def name_ok_def label_ok_def dotted_def
      packet_bytes_def header_bytes_def record_bytes_def)

lemma www_headers:
  "header www_request = Some \<lparr>ID = 7, hb3 = 1, hb4 = 0, QuestionCount = 1, AnswerCount = 0, AuthorityCount = 0, AdditionalCount = 0\<rparr>"
  "header www_response = Some \<lparr>ID = 7, hb3 = 0x81, hb4 = 0x80, QuestionCount = 1, AnswerCount = 1, AuthorityCount = 0, AdditionalCount = 0\<rparr>"
  "query_digest www_response = query_digest www_request"
  by (simp_all add: www_request_def www_response_def sample_request_def sample_response_def query_digest_def)

lemma sample_server_inv: "server_inv sample_server"
  by (simp add: server_inv_def sample_server_def requests_inv_def tidy_def sample_requests_def)

lemma fair_of_nat: "fair of_nat"
proof (unfold fair_def, intro allI impI)
  fix v :: u16 and i :: nat
  have "of_nat (i * 65536) = (0 :: u16)" unfolding word_of_nat_eq_0_iff by simp
  then have "of_nat (unat v + i * 65536) = v" unfolding of_nat_add by simp
  moreover have "i \<le> unat v + i * 65536" by simp
  ultimately show "\<exists>j \<ge> i. of_nat j = v" by blast
qed

lemma sample_can_forward: "can_forward sample_env www_request sample_server"
  by (simp add: can_forward_def sample_server_def sample_requests_def sample_env_def fair_of_nat LookupByQuery_def)

lemma sample_client_query:
  "client_query sample_env www_request (the (header www_request)) 1 True sample_server"
proof -
  have "action (policy empty_rules) = Dns" by (simp add: empty_rules_def)
  with Evaluate_decide [OF empty_rules_represents] show ?thesis
  by (simp add: client_query_def www_ok www_headers DnsHeader_Validate_def GetQueryResponse_def GetOpCode_def
      GetTruncatedMessage_def GetResponseCode_def sample_env_def sample_server_def decide_def policy_decision_def)
qed

section \<open>Properties across components\<close>

text \<open>
  C1: a client's query is answered. A valid query that the rules let through, whose question is not in
  flight and for which there is room, is forwarded to every upstream server under one identifier. Let
  any traffic that is not about this question follow for less than the timeout. The first reply to the
  query from any upstream server is then relayed to the client, and to nobody else, with the identifier
  of the query and the recursion-available flag; further replies are relayed to nobody.
\<close>

theorem client_query_is_answered:
  assumes "server_inv s" and "client_query e p h ep v s" and "can_forward e p s"
  shows "\<exists>s1 i. handle e (Datagram (packet_bytes p) ep v) s = Ret s1 \<and>
     sent s1 = sent s @ map (\<lambda>server. (us_endpoint server, us_ipv4 server, packet_bytes (with_id i p))) (servers s) \<and>
     (\<forall>s2 e2 up a w. quiet_run (query_digest p) (env_now e) s1 s2 \<and> up \<in> set (endpoints s) \<and> reply_to p i a \<and>
        env_port e2 up \<noteq> 0 \<and> length (env_digest e2) = 64 \<longrightarrow>
        (\<exists>s3. handle e2 (Datagram (packet_bytes a) up w) s2 = Ret s3 \<and>
           sent s3 = sent s2 @ [(ep, v, packet_bytes (relayed (ID h) a))] \<and>
           (\<forall>e3 up' a' w'. up' \<in> set (endpoints s) \<and> reply_to p i a' \<and> env_port e3 up' \<noteq> 0 \<and> length (env_digest e3) = 64 \<longrightarrow>
              (\<exists>s4. handle e3 (Datagram (packet_bytes a') up' w') s3 = Ret s4 \<and> sent s4 = sent s3))))"
proof -
  from handle_query [OF assms] obtain s1 i rec where s1: "handle e (Datagram (packet_bytes p) ep v) s = Ret s1"
    "server_inv s1" "content (peerRequests s1) (i, query_digest p) = Some rec" "req_time rec = env_now e"
    and src: "source rec = \<lparr>src_endpoint = ep, src_ipv4 = v, originalId = ID h\<rparr>" "source_next rec = []"
    and "sent s1 = sent s @ map (\<lambda>server. (us_endpoint server, us_ipv4 server, packet_bytes (with_id i p))) (servers s)"
    by blast
  moreover have "\<exists>s3. handle e2 (Datagram (packet_bytes a) up w) s2 = Ret s3 \<and>
      sent s3 = sent s2 @ [(ep, v, packet_bytes (relayed (ID h) a))] \<and>
      (\<forall>e3 up' a' w'. up' \<in> set (endpoints s) \<and> reply_to p i a' \<and> env_port e3 up' \<noteq> 0 \<and> length (env_digest e3) = 64 \<longrightarrow>
         (\<exists>s4. handle e3 (Datagram (packet_bytes a') up' w') s3 = Ret s4 \<and> sent s4 = sent s3))"
    if q: "quiet_run (query_digest p) (env_now e) s1 s2" and r: "up \<in> set (endpoints s)" "reply_to p i a"
      "env_port e2 up \<noteq> 0" "length (env_digest e2) = 64" for s2 e2 up a w
  proof -
    from quiet_run_pending [OF q s1(2-4)] handle_endpoints [OF s1(1) assms(1)]
    have s2: "server_inv s2" "endpoints s2 = endpoints s" "content (peerRequests s2) (i, query_digest p) = Some rec" by auto
    from handle_reply [OF s2(1) _ r(2-4) s2(3), of w] r(1) s2(2) src obtain s3 where
      s3: "handle e2 (Datagram (packet_bytes a) up w) s2 = Ret s3"
      "sent s3 = sent s2 @ [(ep, v, packet_bytes (relayed (ID h) a))]" "endpoints s3 = endpoints s"
      "content (peerRequests s3) (i, query_digest p) = None" by auto
    moreover have "server_inv s3" using s3(1) s2(1) receive_inv by simp
    then have "\<exists>s4. handle e3 (Datagram (packet_bytes a') up' w') s3 = Ret s4 \<and> sent s4 = sent s3"
      if "up' \<in> set (endpoints s)" "reply_to p i a'" "env_port e3 up' \<noteq> 0" "length (env_digest e3) = 64" for e3 up' a' w'
      using handle_second_reply [OF _ _ that(2-4) s3(4), of w'] that(1) s3(3) by simp
    ultimately show ?thesis by blast
  qed
  ultimately show ?thesis by blast
qed

theorem client_query_is_answered_witness:
  "\<exists>s1 i s3. handle sample_env (Datagram (packet_bytes www_request) 1 True) sample_server = Ret s1 \<and>
     sent s1 = [(7, True, packet_bytes (with_id i www_request))] \<and>
     handle sample_env (Datagram (packet_bytes (with_id i www_response)) 7 True) s1 = Ret s3 \<and>
     sent s3 = sent s1 @ [(1, True, packet_bytes (relayed 7 (with_id i www_response)))]"
proof -
  from client_query_is_answered [OF sample_server_inv sample_client_query sample_can_forward] obtain s1 i where
    s1: "handle sample_env (Datagram (packet_bytes www_request) 1 True) sample_server = Ret s1"
    "sent s1 = sent sample_server @ map (\<lambda>server. (us_endpoint server, us_ipv4 server, packet_bytes (with_id i www_request)))
       (servers sample_server)"
    and r: "\<And>s2 e2 up a w. quiet_run (query_digest www_request) (env_now sample_env) s1 s2 \<Longrightarrow>
        up \<in> set (endpoints sample_server) \<Longrightarrow> reply_to www_request i a \<Longrightarrow>
        env_port e2 up \<noteq> 0 \<Longrightarrow> length (env_digest e2) = 64 \<Longrightarrow>
        \<exists>s3. handle e2 (Datagram (packet_bytes a) up w) s2 = Ret s3 \<and>
           sent s3 = sent s2 @ [(1, True, packet_bytes (relayed (ID (the (header www_request))) a))]"
    by (elim exE conjE) (rule that, assumption, assumption, blast)
  have "reply_to www_request i (with_id i www_response)"
    using www_ok(2) by (simp add: reply_to_def www_headers datagram_ok_def DnsHeader_Validate_def GetQueryResponse_def)
  from r [OF quiet_start _ this, of 7 sample_env True] s1 show ?thesis
    by (auto simp: endpoints_def sample_server_def sample_upstream_def sample_env_def www_headers)
qed

text \<open>
  C2: the state of the server stays consistent. Whatever datagrams, raw frames and rule commands are
  handled, no two queries in flight share an identifier or a question, a free record has no chain of
  sources, and the hardware address table is well formed.
\<close>

theorem reachable_states_consistent:
  assumes "reachable s0 s" and "server_inv s0"
  shows "requests_inv (peerRequests s) \<and> tidy (peerRequests s) \<and> mappings_inv (ethmappings s)"
  using reachable_inv [OF assms] by (simp add: server_inv_def)

theorem reachable_states_consistent_witness:
  "\<exists>s. handle sample_env (Frame (raw_buffer sample_frame)) sample_server = Ret s \<and>
     requests_inv (peerRequests s) \<and> tidy (peerRequests s) \<and> mappings_inv (ethmappings s)"
proof -
  have "case handle sample_env (Frame (raw_buffer sample_frame)) sample_server of Ret s \<Rightarrow> True | _ \<Rightarrow> False" by code_simp
  then obtain s where s: "handle sample_env (Frame (raw_buffer sample_frame)) sample_server = Ret s"
    by (cases "handle sample_env (Frame (raw_buffer sample_frame)) sample_server") auto
  have "reachable sample_server s"
    by (rule reach_step [OF reach_start _ _ s]) (simp_all add: sample_env_def ip_ok_def)
  from reachable_states_consistent [OF this sample_server_inv] s show ?thesis by blast
qed

text \<open>
  C4: a redirected query. A valid query for addresses that the rules redirect is answered at once, to
  the client alone, by the query with the flags of an authoritative response and one answer per
  question, with its name, type and class, the time to live of an hour and the length of its data; the tables
  stay as they are. In the data of an answer every 32-bit word of the target
  stands with its bytes reversed: the target is kept in network byte order and copied into a number.
\<close>

theorem redirected_query_is_answered:
  assumes "datagram_ok p" and "header p = Some h" and "DnsHeader_Validate IncomingRequest h = E_NOERROR" and "env_port e ep \<noteq> 0"
    and "Evaluate (request_input e ep v s) (ruleData s) = Ret (Do_Redirect tgt)" and "ip_ok tgt"
    and "list_all address_question (questions p)" and "length (packet_bytes (redirected tgt p)) < MAX_PACKET_SZ"
  shows "(\<exists>b. handle e (Datagram (packet_bytes p) ep v) s =
       Ret ((store_buffer v b s)\<lparr>sent := sent s @ [(ep, v, packet_bytes (redirected tgt p))]\<rparr>)) \<and>
     map (\<lambda>r. (Name r, Type r, Class r, TTL r, Len r, rdata (Addr r))) (answers (redirected tgt p)) =
       map (\<lambda>q. (c_str (Name q), Type q, Class q, 3600, if Type q = QT_A then 4 else 16,
         if Type q = QT_A then rev (take 4 tgt) else
         rev (take 4 tgt) @ rev (take 4 (drop 4 tgt)) @ rev (take 4 (drop 8 tgt)) @ rev (drop 12 tgt))) (questions p)"
  using handle_redirect [OF assms(1-5,7,8)] rdata_redirect [OF assms(6)] redirect_answer_fields assms(7)
  by (auto simp: redirected_def list_all_iff address_question_def)

definition redirecting_server :: "nat DnsServer" where
  "redirecting_server = sample_server\<lparr>ruleData := empty_rules\<lparr>policy :=
     \<lparr>action = Redirect, targetIpv4 = [10, 0, 0, 9] @ replicate 12 0, targetIpv6 = replicate 16 0\<rparr>\<rparr>\<rparr>"

theorem redirected_query_is_answered_witness:
  "(\<exists>b. handle sample_env (Datagram (packet_bytes www_request) 1 True) redirecting_server =
       Ret ((store_buffer True b redirecting_server)\<lparr>sent :=
         [(1, True, packet_bytes (redirected ([10, 0, 0, 9] @ replicate 12 0) www_request))]\<rparr>)) \<and>
     map (\<lambda>r. (Name r, Type r, Class r, TTL r, Len r, rdata (Addr r)))
       (answers (redirected ([10, 0, 0, 9] @ replicate 12 0) www_request)) =
     [(c_str (Name www_question), QT_A, Class www_question, 3600, 4, [9, 0, 0, 10])]"
proof -
  let ?t = "[10, 0, 0, 9] @ replicate 12 0 :: byte list"
  let ?d = "empty_rules\<lparr>policy := \<lparr>action = Redirect, targetIpv4 = ?t, targetIpv6 = replicate 16 0\<rparr>\<rparr>"
  have "represents ?d ([], policy ?d)" using empty_rules_represents by (simp add: represents_def holds_def)
  from Evaluate_decide [OF this] have "Evaluate (request_input sample_env 1 True redirecting_server) (ruleData redirecting_server) =
      Ret (Do_Redirect ?t)"
    by (simp add: redirecting_server_def sample_server_def decide_def policy_decision_def request_input_def Let_def)
  moreover have "length (packet_bytes (redirected ?t www_request)) < MAX_PACKET_SZ"
    "DnsHeader_Validate IncomingRequest (the (header www_request)) = E_NOERROR" by code_simp+
  moreover have "questions www_request = [www_question]" "Type www_question = QT_A" "sent redirecting_server = []"
    "header www_request = Some (the (header www_request))" "env_port sample_env 1 \<noteq> 0" "ip_ok ?t"
    by (simp_all add: www_request_def www_question_def redirecting_server_def sample_server_def sample_request_def
        sample_env_def ip_ok_def)
  ultimately show ?thesis
    using redirected_query_is_answered [OF www_ok(1), of "the (header www_request)" sample_env 1 True redirecting_server ?t]
    by (simp add: address_question_def)
qed

text \<open>
  C12: replies of strangers. A datagram that is a response but comes from no upstream server changes
  nothing but the receive buffer: nothing is sent and no query is closed, whatever its identifier.
\<close>

theorem stranger_reply_ignored:
  assumes "ep \<notin> set (endpoints s)" and "DnsPacket_Read (filled bs (if v then recvBuffer4 s else recvBuffer6 s)) = Ret (p, c)"
    and "header p = Some h" and "GetQueryResponse h"
  shows "\<exists>b. handle e (Datagram bs ep v) s = Ret (store_buffer v b s)"
  by (rule handle_stranger [OF assms])

theorem stranger_reply_ignored_witness:
  "\<exists>b. handle sample_env (Datagram (packet_bytes www_response) 8 True) sample_server = Ret (store_buffer True b sample_server)"
proof -
  from read_filled [of www_response "recvBuffer4 sample_server"] www_ok(2) obtain q c where
    "DnsPacket_Read (filled (packet_bytes www_response) (if True then recvBuffer4 sample_server else recvBuffer6 sample_server)) = Ret (q, c)"
    "same_packet q www_response" by (auto simp: datagram_ok_def)
  from stranger_reply_ignored [OF _ this(1), of 8] same_packetD(1) [OF this(2)] show ?thesis
    by (simp add: www_headers GetQueryResponse_def endpoints_def sample_server_def sample_upstream_def)
qed

text \<open>
  Short datagrams. A datagram of fewer than 24 bytes, the size of the C++ object of a header rather
  than the twelve bytes of the header on the wire, is dropped. Queries for names of up to five
  characters without additional records are that short and are never answered.
\<close>

theorem short_datagram_dropped:
  assumes "length bs < 24"
  shows "\<exists>b. handle e (Datagram bs ep v) s = Ret (store_buffer v b s)"
  by (rule handle_short [OF assms])

theorem short_datagram_dropped_witness:
  "DnsPacket_Validate IncomingRequest sample_request = Ret () \<and>
   (\<exists>b. handle sample_env (Datagram (packet_bytes sample_request) 1 True) sample_server = Ret (store_buffer True b sample_server))"
proof -
  have "DnsPacket_Validate IncomingRequest sample_request = Ret ()" by code_simp
  moreover have "length (packet_bytes sample_request) < 24" by code_simp
  ultimately show ?thesis
    using short_datagram_dropped [of "packet_bytes sample_request" sample_env 1 True sample_server] by blast
qed

text \<open>
  C32: a client is never answered whose question is already in flight, since any time after the first ten
  seconds of the epoch. Let a client that waits for no answer, and is no upstream server, send a valid query
  that the rules let through. Its packet is sent to every upstream server again, with the client's own
  identifier; but the records keep the clients and the identifiers that they had. From then on, whatever
  datagrams of others, replies of the upstream servers under any identifier, frames and rule commands are
  handled, nothing at all is sent to the client until it sends something itself.
\<close>

theorem repeated_question_forgets_client:
  assumes "server_inv s" and "servers s \<noteq> []" and "client_query e p h ep v s" and "length (env_digest e) = 64"
    and "LookupByQuery (query_digest p) 0 7 (peerRequests s) = Some r"
    and "req_time (requests (peerRequests s) ! r) > TIMEOUT" and "unknown ep s" and "ep \<notin> set (endpoints s)"
  shows "\<exists>s'. handle e (Datagram (packet_bytes p) ep v) s = Ret s' \<and>
     sent s' = sent s @ map (\<lambda>server. (us_endpoint server, us_ipv4 server, packet_bytes p)) (servers s) \<and>
     map source (requests (peerRequests s')) = map source (requests (peerRequests s)) \<and>
     map newId (requests (peerRequests s')) = map newId (requests (peerRequests s)) \<and>
     (\<forall>t. without ep s' t \<longrightarrow> (\<exists>xs. sent t = sent s' @ xs \<and> ep \<notin> fst ` set xs))"
proof -
  from handle_duplicate [OF assms(1-6)] assms(7) obtain s' where s': "handle e (Datagram (packet_bytes p) ep v) s = Ret s'"
    "sent s' = sent s @ map (\<lambda>server. (us_endpoint server, us_ipv4 server, packet_bytes p)) (servers s)"
    "map source (requests (peerRequests s')) = map source (requests (peerRequests s))"
    "map newId (requests (peerRequests s')) = map newId (requests (peerRequests s))"
    and inv: "server_inv s'" "endpoints s' = endpoints s" "unknown ep s'" by blast
  have "\<exists>xs. sent t = sent s' @ xs \<and> ep \<notin> fst ` set xs" if "without ep s' t" for t
    using without_silent [OF that inv(1) _ inv(3)] inv(2) assms(8) by (simp add: silent_def)
  with s' show ?thesis by blast
qed

definition waiting_server :: "nat DnsServer" where
  "waiting_server = sample_server\<lparr>peerRequests := sample_requests\<lparr>requests :=
     [sample_query 5 (query_digest www_request) (Some 0) 1000]\<rparr>\<rparr>"

theorem repeated_question_forgets_client_witness:
  "\<exists>s'. handle sample_env (Datagram (packet_bytes www_request) 2 True) waiting_server = Ret s' \<and>
     sent s' = [(7, True, packet_bytes www_request)] \<and>
     (\<forall>t. without 2 s' t \<longrightarrow> (\<exists>xs. sent t = sent s' @ xs \<and> 2 \<notin> fst ` set xs))"
proof -
  have q: "client_query sample_env www_request (the (header www_request)) 2 True waiting_server"
    using sample_client_query
    by (simp add: client_query_def waiting_server_def sample_env_def request_input_def client_address_def)
  have l: "LookupByQuery (query_digest www_request) 0 7 (peerRequests waiting_server) = Some 0"
    by (simp add: LookupByQuery_def sample_query_def waiting_server_def)
  have "server_inv waiting_server" "servers waiting_server = [sample_upstream]" "length (env_digest sample_env) = 64"
    "req_time (requests (peerRequests waiting_server) ! 0) > TIMEOUT" "unknown 2 waiting_server" "2 \<notin> set (endpoints waiting_server)"
    "sent waiting_server = []"
    using sample_server_inv
    by (simp_all add: waiting_server_def server_inv_def requests_inv_def tidy_def sample_server_def sample_query_def sample_env_def
        unknown_def endpoints_def sample_upstream_def sample_peer_def)
  with repeated_question_forgets_client [OF _ _ q _ l] show ?thesis by (auto simp: sample_upstream_def)
qed

text \<open>
  C11: hardware addresses reach the rules. After a DNS query of a station was seen in a frame with IPv4
  and the table had room, the rules see the hardware address of the frame for a datagram from the same
  IP address, provided no other station was seen with that address.
\<close>

theorem learned_address_reaches_rules:
  assumes "server_inv s" and "ip_ok (env_union e)"
    and "InPacket_Read (env_union e) (bpb\<lparr>bb_pos := 0, bb_udp := 0\<rparr>) = Ret (x, bb)"
    and "IpSource x = ipsrc @ drop 4 (env_union e)" and "length ipsrc = 4"
    and "DestinationPort x = dnsPort s" and "ahead bb (a # b # c # rest)" and "c AND 0x80 = 0"
    and "fst (EthMappings_Add (env_now e) (EthSource x) True (IpSource x) (ethmappings s))"
    and "\<forall>r \<in> set (used_records (ethmappings s)). ethaddress r \<noteq> EthSource x \<longrightarrow> mac_ipv4 r \<longrightarrow> take 4 (ipaddress r) \<noteq> ipsrc"
    and "env_address e' ep = ipsrc"
  shows "\<exists>s'. handle e (Frame bpb) s = Ret s' \<and>
     request_input e' ep True s' = \<lparr>in_ipv4 = True, in_ethaddr = EthSource x, in_ipaddr = ipsrc @ replicate 12 0\<rparr>"
proof -
  from assms(1) have "mappings_inv (ethmappings s)" by (simp add: server_inv_def)
  from learned_input [OF this assms(5,2) assms(9) [unfolded assms(4)] assms(10) _ assms(11)]
    handle_frame [OF assms(3,6-8)] assms(4) show ?thesis by simp
qed

theorem learned_address_reaches_rules_witness:
  "\<exists>s'. handle sample_env (Frame (raw_buffer sample_frame)) sample_server = Ret s' \<and>
     request_input sample_env 1 True s' =
       \<lparr>in_ipv4 = True, in_ethaddr = [1, 2, 3, 4, 5, 6], in_ipaddr = [10, 0, 0, 2] @ replicate 12 0\<rparr>"
proof -
  have "ahead (raw_buffer sample_frame) (eth_frame [9, 9, 9, 9, 9, 9] [1, 2, 3, 4, 5, 6] [(0x8100, 5)] ETH_P_IP
     (ipv4_bytes (replicate 8 0) IPPROTO_UDP [0, 0] [10, 0, 0, 2] [10, 0, 0, 1] [] @ udp_bytes 4000 53 27 0 @ sample_payload))"
    using raw_buffer_ahead [of sample_frame] by (simp add: sample_frame_def)
  from InPacket_Read_ipv4 [OF this, of 0 "env_union sample_env"]
  obtain x bb where x: "InPacket_Read (env_union sample_env) ((raw_buffer sample_frame)\<lparr>bb_pos := 0, bb_udp := 0\<rparr>) = Ret (x, bb)"
    "EthSource x = [1, 2, 3, 4, 5, 6]" "IpSource x = [10, 0, 0, 2] @ drop 4 (env_union sample_env)" "DestinationPort x = 53"
    "bb = (adv (raw_buffer sample_frame) 46)\<lparr>bb_udp := 27\<rparr>"
    by (simp add: isVlan_def raw_buffer_def)
  have "ahead bb (0 # 7 # 1 # drop 3 sample_payload)" unfolding x(5) by code_simp
  moreover have "fst (EthMappings_Add 1001 [1, 2, 3, 4, 5, 6] True ([10, 0, 0, 2] @ replicate 12 0) sample_table)" by code_simp
  moreover have "used_records sample_table = []" by (simp add: used_records_def)
  ultimately show ?thesis
    using learned_address_reaches_rules [OF sample_server_inv _ x(1,3), of 0 7 1 "drop 3 sample_payload" sample_env 1] x
    by (simp add: sample_server_def sample_env_def ip_ok_def)
qed

text \<open>
  IPv6 stations. Frames are stored as IPv4 mappings whatever they carry, so that in every state
  reached from a table without IPv6 mappings the hardware address of a client on IPv6 is unknown: the
  rules see the address zero.
\<close>

theorem ipv6_hardware_address_unknown:
  assumes "reachable s0 s" and "server_inv s0" and "only_ipv4 s0"
  shows "in_ethaddr (request_input e ep False s) = replicate 6 0"
  using only_ipv4_LookUp [OF reachable_only_ipv4 [OF assms]] by (simp add: request_input_def)

theorem ipv6_hardware_address_unknown_witness:
  "in_ethaddr (request_input sample_env 1 False sample_server) = replicate 6 0"
  by (rule ipv6_hardware_address_unknown [OF reach_start sample_server_inv])
    (simp add: only_ipv4_def sample_server_def used_records_def)

end
